(* ===== verification/Authz_Prelude.thy ===== *)
theory Authz_Prelude
  imports Main "HOL-Library.Word" "HOL-Library.AList" "HOL-Library.Sublist"
begin

text \<open>
  Shared vocabulary of the development. It holds the fact collections the component proofs
  draw on, the result type of code that may panic, machine integers of the Go program, and
  the general lemmas about lists, association lists and words that more than one component
  needs. Nothing here is specific to one package of the repository.
\<close>

section \<open>Fact collections\<close>

named_theorems go_defs "definitions of the Go library functions the program calls"
named_theorems ctx_simps "reading a context after it has been extended"

section \<open>Panics, integers\<close>

text \<open>
  A Go function that may panic yields an \<open>outcome\<close>: the value it returns, or the panic with
  its message.
\<close>

datatype 'a outcome = Return 'a | Panic string

fun returns :: "'a outcome \<Rightarrow> bool" where
  "returns (Return _) = True"
| "returns (Panic _) = False"

lemma returns_conv: "returns r \<longleftrightarrow> (\<exists>x. r = Return x)"
  by (cases r) auto

type_synonym int64 = "64 word"
type_synonym uint64 = "64 word"
type_synonym byte = "8 word"

text \<open>Go's \<open>int64\<close> wraps around; \<open>int64_wrap\<close> is the value of an arithmetic result at that width.\<close>

definition int64_wrap :: "int \<Rightarrow> int" where
  "int64_wrap i = (i + 2 ^ 63) mod 2 ^ 64 - 2 ^ 63"

definition in_int64 :: "int \<Rightarrow> bool" where
  "in_int64 i \<longleftrightarrow> - (2 ^ 63) \<le> i \<and> i < 2 ^ 63"

lemma int64_wrap_id [simp]: "in_int64 i \<Longrightarrow> int64_wrap i = i"
  by (simp add: int64_wrap_def in_int64_def)

lemma in_int64_wrap [simp]: "in_int64 (int64_wrap i)"
proof -
  have "0 \<le> (i + 2 ^ 63) mod 2 ^ 64" and "(i + 2 ^ 63) mod 2 ^ 64 < 2 ^ 64"
    by simp_all
  then show ?thesis by (simp add: int64_wrap_def in_int64_def)
qed

section \<open>Functional options\<close>

text \<open>
  The packages configure themselves with functional options: a list of functions on a
  configuration record, applied in the order given (\<open>for _, opt := range opts { opt(cfg) }\<close>).
\<close>

definition apply_opts :: "('c \<Rightarrow> 'c) list \<Rightarrow> 'c \<Rightarrow> 'c" where
  "apply_opts opts cfg = fold (\<lambda>opt c. opt c) opts cfg"

lemma apply_opts_Nil [simp]: "apply_opts [] cfg = cfg"
  by (simp add: apply_opts_def)

lemma apply_opts_Cons [simp]: "apply_opts (f # fs) cfg = apply_opts fs (f cfg)"
  by (simp add: apply_opts_def)

lemma apply_opts_append [simp]: "apply_opts (fs @ gs) cfg = apply_opts gs (apply_opts fs cfg)"
  by (simp add: apply_opts_def)

lemma apply_opts_invariant:
  assumes "\<And>f c. f \<in> set opts \<Longrightarrow> P c \<Longrightarrow> P (f c)" and "P cfg"
  shows "P (apply_opts opts cfg)"
  using assms by (induction opts arbitrary: cfg) auto

section \<open>Lists\<close>

lemma concat_map_singleton: "concat (map (\<lambda>x. [f x]) xs) = map f xs"
  by (induction xs) auto

lemma dropWhile_all_not: "(\<And>x. x \<in> set xs \<Longrightarrow> \<not> P x) \<Longrightarrow> dropWhile P xs = xs"
  by (cases xs) auto

lemma length_concat_map_const:
  "(\<And>x. x \<in> set xs \<Longrightarrow> length (f x) = n) \<Longrightarrow> length (concat (map f xs)) = n * length xs"
  by (induction xs) auto

lemma concat_map_inj_const_length:
  assumes "concat (map f xs) = concat (map f ys)"
    and "length xs = length ys"
    and "\<And>x y. f x = f y \<Longrightarrow> x = y" and "\<And>x. length (f x) = n"
  shows "xs = ys"
  using assms(2,1)
proof (induction xs ys rule: list_induct2)
  case (Cons x xs y ys)
  then show ?case using assms(3,4) by simp
qed simp

text \<open>The first occurrence of a separator splits a list in one way only.\<close>

lemma first_separator_unique:
  assumes "c \<notin> set p" "c \<notin> set q"
  shows "p @ c # s = q @ c # t \<longleftrightarrow> p = q \<and> s = t"
  using assms
proof (induction p arbitrary: q)
  case Nil
  then show ?case by (cases q) auto
next
  case (Cons x p)
  then show ?case by (cases q) auto
qed

section \<open>Association lists\<close>

text \<open>
  A Go map or \<open>sync.Map\<close> whose iteration is observed is an association list with distinct keys:
  Load is \<^const>\<open>map_of\<close>, Store is \<^const>\<open>AList.update\<close>, Delete is \<^const>\<open>AList.delete\<close>.
\<close>

lemma map_of_delete: "map_of (AList.delete k xs) = (map_of xs)(k := None)"
  by (simp add: AList.delete_conv')

lemma map_of_update: "map_of (AList.update k v xs) = (map_of xs)(k \<mapsto> v)"
  by (simp add: AList.update_conv')

lemma length_delete_present:
  assumes "distinct (map fst xs)" and "k \<in> fst ` set xs"
  shows "Suc (length (AList.delete k xs)) = length xs"
  using assms
proof (induction xs)
  case (Cons p xs)
  show ?case
  proof (cases "fst p = k")
    case True
    with Cons.prems have "AList.delete k xs = xs"
      by (simp add: AList.delete_idem)
    with True show ?thesis by (cases p) auto
  next
    case False
    with Cons show ?thesis by (cases p) auto
  qed
qed simp

end
