(* ===== verification/Go_Strings.thy ===== *)
theory Go_Strings
  imports Authz_Prelude
begin

text \<open>
  The functions of Go's packages \<open>strings\<close> and \<open>unicode/utf8\<close> that the program calls, as
  executable functions on byte strings. A Go string is a sequence of bytes, and so is a
  \<^typ>\<open>string\<close> here: a \<^typ>\<open>char\<close> is one byte. Functions that classify code points (\<open>Fields\<close>,
  \<open>TrimSpace\<close>, \<open>ToLower\<close>) decode UTF-8 first, as Go does. Go's Unicode case table is the one
  thing not written out: \<open>ToLower\<close> takes it as the argument \<open>ulower\<close>, which only matters for
  strings with a byte outside ASCII.
\<close>

section \<open>Prefixes, suffixes, substrings\<close>

definition strings_HasPrefix :: "string \<Rightarrow> string \<Rightarrow> bool" where
  "strings_HasPrefix s p \<longleftrightarrow> length p \<le> length s \<and> take (length p) s = p"

definition strings_HasSuffix :: "string \<Rightarrow> string \<Rightarrow> bool" where
  "strings_HasSuffix s x \<longleftrightarrow> length x \<le> length s \<and> drop (length s - length x) s = x"

definition strings_TrimSuffix :: "string \<Rightarrow> string \<Rightarrow> string" where
  "strings_TrimSuffix s x =
     (if strings_HasSuffix s x then take (length s - length x) s else s)"

definition strings_TrimPrefix :: "string \<Rightarrow> string \<Rightarrow> string" where
  "strings_TrimPrefix s p = (if strings_HasPrefix s p then drop (length p) s else s)"

fun strings_Contains :: "string \<Rightarrow> string \<Rightarrow> bool" where
  "strings_Contains [] sub \<longleftrightarrow> sub = []"
| "strings_Contains (c # s) sub \<longleftrightarrow> strings_HasPrefix (c # s) sub \<or> strings_Contains s sub"

text \<open>The greatest index at which \<open>sub\<close> occurs, \<open>-1\<close> when it does not.\<close>

definition strings_LastIndex :: "string \<Rightarrow> string \<Rightarrow> int" where
  "strings_LastIndex s sub =
     (case filter (\<lambda>i. take (length sub) (drop i s) = sub)
             (rev [0..<Suc (length s - length sub)]) of
        [] \<Rightarrow> - 1
      | i # _ \<Rightarrow> int i)"

lemma HasPrefix_iff: "strings_HasPrefix s p \<longleftrightarrow> (\<exists>t. s = p @ t)"
proof
  assume "strings_HasPrefix s p"
  then have "s = p @ drop (length p) s"
    by (metis strings_HasPrefix_def append_take_drop_id)
  then show "\<exists>t. s = p @ t" ..
qed (auto simp: strings_HasPrefix_def)

lemma HasPrefix_append [simp]: "strings_HasPrefix (p @ t) p"
  by (auto simp: HasPrefix_iff)

lemma HasSuffix_iff: "strings_HasSuffix s x \<longleftrightarrow> (\<exists>t. s = t @ x)"
proof
  assume "strings_HasSuffix s x"
  then have "s = take (length s - length x) s @ x"
    by (metis strings_HasSuffix_def append_take_drop_id)
  then show "\<exists>t. s = t @ x" ..
qed (auto simp: strings_HasSuffix_def)

lemma TrimSuffix_append [simp]: "strings_TrimSuffix (t @ x) x = t"
  by (auto simp: strings_TrimSuffix_def strings_HasSuffix_def)

lemma TrimSuffix_id [simp]: "\<not> strings_HasSuffix s x \<Longrightarrow> strings_TrimSuffix s x = s"
  by (simp add: strings_TrimSuffix_def)

lemma TrimPrefix_append [simp]: "strings_TrimPrefix (p @ t) p = t"
  by (simp add: strings_TrimPrefix_def)

lemma TrimPrefix_id [simp]: "\<not> strings_HasPrefix s p \<Longrightarrow> strings_TrimPrefix s p = s"
  by (simp add: strings_TrimPrefix_def)

lemma Contains_iff: "strings_Contains s sub \<longleftrightarrow> (\<exists>u v. s = u @ sub @ v)"
proof (induction s)
  case (Cons c s)
  have "(\<exists>u v. c # s = u @ sub @ v) \<longleftrightarrow> (\<exists>v. c # s = sub @ v) \<or> (\<exists>u v. s = u @ sub @ v)"
    by (metis append_Cons append_Nil list.inject neq_Nil_conv)
  with Cons show ?case by (simp add: HasPrefix_iff)
qed simp

lemma LastIndex_char_split:
  assumes "c \<notin> set t"
  shows "strings_LastIndex (s @ c # t) [c] = int (length s)"
proof -
  let ?P = "\<lambda>i. take 1 (drop i (s @ c # t)) = [c]"
  have hit: "?P (length s)" by simp
  have miss: "\<not> ?P i" if "length s < i" "i < length s + Suc (length t)" for i
  proof -
    from that obtain j where j: "i = length s + Suc j" "j < length t"
      by (metis add_Suc_right add_less_cancel_left less_imp_Suc_add not_less_eq)
    then have "drop i (s @ c # t) = drop j t" by simp
    moreover have "take 1 (drop j t) = [t ! j]"
      using j by (metis Cons_nth_drop_Suc One_nat_def take_Suc_Cons take_0)
    ultimately show ?thesis using j assms by (metis list.inject nth_mem)
  qed
  have "[0..<Suc (length (s @ c # t) - length [c])] =
        [0..<length s] @ length s # [Suc (length s)..<Suc (length s + length t)]"
    using upt_add_eq_append [of 0 "length s" "Suc (length t)"]
    by (simp add: upt_conv_Cons [of "length s"] del: upt_Suc)
  moreover have "filter ?P (rev [Suc (length s)..<Suc (length s + length t)]) = []"
    unfolding filter_empty_conv by (intro ballI miss) (auto simp del: upt_Suc)
  ultimately show ?thesis
    using hit by (simp add: strings_LastIndex_def)
qed

lemma LastIndex_char_absent:
  assumes "c \<notin> set s"
  shows "strings_LastIndex s [c] = -1"
proof -
  have "take 1 (drop i s) \<noteq> [c]" for i
    using assms by (metis in_set_dropD in_set_takeD list.set_intros(1))
  then show ?thesis
    by (simp add: strings_LastIndex_def filter_empty_conv)
qed

section \<open>Splitting and replacing\<close>

text \<open>\<open>strings.Index\<close> as an option: the least index at which \<open>sub\<close> occurs.\<close>

fun strings_Index :: "string \<Rightarrow> string \<Rightarrow> nat option" where
  "strings_Index [] sub = (if sub = [] then Some 0 else None)"
| "strings_Index (c # s) sub =
     (if strings_HasPrefix (c # s) sub then Some 0 else map_option Suc (strings_Index s sub))"

text \<open>\<open>strings.SplitN(s, sep, n)\<close> for a non-empty \<open>sep\<close> and \<open>n > 0\<close>: at most \<open>n\<close> parts.\<close>

fun strings_SplitN :: "string \<Rightarrow> string \<Rightarrow> nat \<Rightarrow> string list" where
  "strings_SplitN s sep 0 = []"
| "strings_SplitN s sep (Suc 0) = [s]"
| "strings_SplitN s sep (Suc (Suc n)) =
     (case strings_Index s sep of
        None \<Rightarrow> [s]
      | Some i \<Rightarrow> take i s # strings_SplitN (drop (i + length sep) s) sep (Suc n))"

lemma Index_char_split:
  "c \<notin> set s \<Longrightarrow> strings_Index (s @ c # t) [c] = Some (length s)"
  by (induction s) (auto simp: strings_HasPrefix_def)

lemma Index_char_absent: "c \<notin> set s \<Longrightarrow> strings_Index s [c] = None"
  by (induction s) (auto simp: strings_HasPrefix_def)

lemma SplitN_char_split:
  "c \<notin> set s \<Longrightarrow> strings_SplitN (s @ c # t) [c] 2 = [s, t]"
  by (simp add: numeral_2_eq_2 Index_char_split)

lemma SplitN_char_absent: "c \<notin> set s \<Longrightarrow> strings_SplitN s [c] 2 = [s]"
  by (simp add: numeral_2_eq_2 Index_char_absent)

text \<open>
  \<open>strings.ReplaceAll(s, old, new)\<close> for a non-empty \<open>old\<close>: non-overlapping occurrences, from the
  left. (An empty \<open>old\<close> never reaches it: the program replaces \<open><placeholder>\<close> and \<open>+\<close>.)
\<close>

function strings_ReplaceAll :: "string \<Rightarrow> string \<Rightarrow> string \<Rightarrow> string" where
  "strings_ReplaceAll s old new =
     (if old = [] \<or> s = [] then s
      else if strings_HasPrefix s old
      then new @ strings_ReplaceAll (drop (length old) s) old new
      else hd s # strings_ReplaceAll (tl s) old new)"
  by pat_completeness auto
termination
  by (relation "measure (\<lambda>(s, old, new). length s)") auto

declare strings_ReplaceAll.simps [simp del]

lemma ReplaceAll_Nil [simp]: "strings_ReplaceAll [] old new = []"
  by (simp add: strings_ReplaceAll.simps)

lemma ReplaceAll_match [simp]:
  "old \<noteq> [] \<Longrightarrow> strings_ReplaceAll (old @ s) old new = new @ strings_ReplaceAll s old new"
  by (subst strings_ReplaceAll.simps) simp

lemma ReplaceAll_skip:
  "old \<noteq> [] \<Longrightarrow> \<not> strings_HasPrefix (c # s) old \<Longrightarrow>
   strings_ReplaceAll (c # s) old new = c # strings_ReplaceAll s old new"
  by (subst strings_ReplaceAll.simps) simp

lemma ReplaceAll_absent: "\<not> strings_Contains s old \<Longrightarrow> strings_ReplaceAll s old new = s"
proof (induction s)
  case (Cons c s)
  then show ?case by (cases "old = []") (simp_all add: ReplaceAll_skip HasPrefix_iff)
qed simp

lemma ReplaceAll_char:
  "strings_ReplaceAll s [x] new = concat (map (\<lambda>c. if c = x then new else [c]) s)"
proof (induction s)
  case (Cons c s)
  then show ?case
    using ReplaceAll_match [of "[x]" s new]
    by (cases "c = x") (simp_all add: ReplaceAll_skip strings_HasPrefix_def)
qed simp

section \<open>UTF-8\<close>

type_synonym rune = nat

definition byte_in :: "nat \<Rightarrow> nat \<Rightarrow> char \<Rightarrow> bool" where
  "byte_in lo hi c \<longleftrightarrow> lo \<le> of_char c \<and> of_char c \<le> hi"

definition low6 :: "char \<Rightarrow> nat" where
  "low6 c = of_char c mod 64"

text \<open>
  The second byte of a three- or four-byte sequence has a narrower range after some lead bytes:
  no overlong forms, no surrogates, nothing beyond U+10FFFF.
\<close>

definition second3 :: "char \<Rightarrow> char \<Rightarrow> bool" where
  "second3 c0 c1 \<longleftrightarrow>
     byte_in (if of_char c0 = (0xE0::nat) then 0xA0 else 0x80)
             (if of_char c0 = (0xED::nat) then 0x9F else 0xBF) c1"

definition second4 :: "char \<Rightarrow> char \<Rightarrow> bool" where
  "second4 c0 c1 \<longleftrightarrow>
     byte_in (if of_char c0 = (0xF0::nat) then 0x90 else 0x80)
             (if of_char c0 = (0xF4::nat) then 0x8F else 0xBF) c1"

definition rune2 :: "char \<Rightarrow> char \<Rightarrow> rune" where
  "rune2 c0 c1 = (of_char c0 mod 32) * 64 + low6 c1"

definition rune3 :: "char \<Rightarrow> char \<Rightarrow> char \<Rightarrow> rune" where
  "rune3 c0 c1 c2 = ((of_char c0 mod 16) * 64 + low6 c1) * 64 + low6 c2"

definition rune4 :: "char \<Rightarrow> char \<Rightarrow> char \<Rightarrow> char \<Rightarrow> rune" where
  "rune4 c0 c1 c2 c3 = (((of_char c0 mod 8) * 64 + low6 c1) * 64 + low6 c2) * 64 + low6 c3"

definition valid2 :: "char \<Rightarrow> char \<Rightarrow> bool" where
  "valid2 c0 c1 \<longleftrightarrow> byte_in 0xC2 0xDF c0 \<and> byte_in 0x80 0xBF c1"

definition valid3 :: "char \<Rightarrow> char \<Rightarrow> char \<Rightarrow> bool" where
  "valid3 c0 c1 c2 \<longleftrightarrow> byte_in 0xE0 0xEF c0 \<and> second3 c0 c1 \<and> byte_in 0x80 0xBF c2"

definition valid4 :: "char \<Rightarrow> char \<Rightarrow> char \<Rightarrow> char \<Rightarrow> bool" where
  "valid4 c0 c1 c2 c3 \<longleftrightarrow>
     byte_in 0xF0 0xF4 c0 \<and> second4 c0 c1 \<and> byte_in 0x80 0xBF c2 \<and> byte_in 0x80 0xBF c3"

definition ascii :: "char \<Rightarrow> bool" where
  "ascii c \<longleftrightarrow> byte_in 0 0x7F c"

text \<open>
  \<open>utf8.DecodeRuneInString\<close>: the first code point and its width in bytes; an invalid encoding
  is U+FFFD of width 1, the empty string U+FFFD of width 0.
\<close>

fun utf8_DecodeRune :: "string \<Rightarrow> rune \<times> nat" where
  "utf8_DecodeRune [] = (0xFFFD, 0)"
| "utf8_DecodeRune [c0] = (if ascii c0 then (of_char c0, 1) else (0xFFFD, 1))"
| "utf8_DecodeRune [c0, c1] =
     (if ascii c0 then (of_char c0, 1)
      else if valid2 c0 c1 then (rune2 c0 c1, 2)
      else (0xFFFD, 1))"
| "utf8_DecodeRune [c0, c1, c2] =
     (if ascii c0 then (of_char c0, 1)
      else if valid2 c0 c1 then (rune2 c0 c1, 2)
      else if valid3 c0 c1 c2 then (rune3 c0 c1 c2, 3)
      else (0xFFFD, 1))"
| "utf8_DecodeRune (c0 # c1 # c2 # c3 # s) =
     (if ascii c0 then (of_char c0, 1)
      else if valid2 c0 c1 then (rune2 c0 c1, 2)
      else if valid3 c0 c1 c2 then (rune3 c0 c1 c2, 3)
      else if valid4 c0 c1 c2 c3 then (rune4 c0 c1 c2 c3, 4)
      else (0xFFFD, 1))"

lemma high_byte: "byte_in lo hi c \<Longrightarrow> 0x80 \<le> lo \<Longrightarrow> \<not> ascii c"
  by (auto simp: byte_in_def ascii_def)

lemma valid_high:
  "valid2 c0 c1 \<Longrightarrow> \<not> ascii c0 \<and> \<not> ascii c1"
  "valid3 c0 c1 c2 \<Longrightarrow> \<not> ascii c0 \<and> \<not> ascii c1 \<and> \<not> ascii c2"
  "valid4 c0 c1 c2 c3 \<Longrightarrow> \<not> ascii c0 \<and> \<not> ascii c1 \<and> \<not> ascii c2 \<and> \<not> ascii c3"
  by (auto simp: valid2_def valid3_def valid4_def second3_def second4_def high_byte
      split: if_splits)

lemma DecodeRune_width:
  "s \<noteq> [] \<Longrightarrow> 1 \<le> snd (utf8_DecodeRune s) \<and> snd (utf8_DecodeRune s) \<le> length s"
  by (cases s rule: utf8_DecodeRune.cases) auto

text \<open>The code points of a string in order, each with the bytes that encode it.\<close>

function utf8_runes :: "string \<Rightarrow> (rune \<times> string) list" where
  "utf8_runes s =
     (if s = [] then []
      else (let (r, n) = utf8_DecodeRune s in (r, take n s) # utf8_runes (drop n s)))"
  by pat_completeness auto
termination
proof (relation "measure length")
  fix s :: string and p r n
  assume "s \<noteq> []" "p = utf8_DecodeRune s" "(r, n) = p"
  with DecodeRune_width [of s] show "(drop n s, s) \<in> measure length"
    by (metis diff_less in_measure length_drop length_greater_0_conv less_le_trans snd_conv
        zero_less_one)
qed simp

declare utf8_runes.simps [simp del]

lemma utf8_runes_Nil [simp]: "utf8_runes [] = []"
  by (simp add: utf8_runes.simps)

lemma utf8_runes_step:
  "s \<noteq> [] \<Longrightarrow> utf8_DecodeRune s = (r, n) \<Longrightarrow>
   utf8_runes s = (r, take n s) # utf8_runes (drop n s)"
  by (subst utf8_runes.simps) simp

lemma utf8_runes_bytes [simp]: "concat (map snd (utf8_runes s)) = s"
proof (induction s rule: utf8_runes.induct)
  case (1 s)
  show ?case
  proof (cases "s = []")
    case False
    obtain r n where rn: "utf8_DecodeRune s = (r, n)" by fastforce
    with False "1" have "concat (map snd (utf8_runes (drop n s))) = drop n s" by simp
    with False rn show ?thesis by (simp add: utf8_runes_step)
  qed simp
qed

lemma utf8_runes_nonempty: "(r, b) \<in> set (utf8_runes s) \<Longrightarrow> b \<noteq> []"
proof (induction s rule: utf8_runes.induct)
  case (1 s)
  show ?case
  proof (cases "s = []")
    case False
    obtain r' n where rn: "utf8_DecodeRune s = (r', n)" by fastforce
    with False DecodeRune_width [of s] have "take n s \<noteq> []" by auto
    with False rn "1" show ?thesis by (auto simp: utf8_runes_step)
  qed (use "1" in simp)
qed

text \<open>ASCII bytes are code points of their own, wherever they occur.\<close>

lemma utf8_runes_ascii_Cons [simp]:
  "ascii c \<Longrightarrow> utf8_runes (c # s) = (of_char c, [c]) # utf8_runes s"
proof -
  assume "ascii c"
  then have "utf8_DecodeRune (c # s) = (of_char c, 1)"
    by (cases "c # s" rule: utf8_DecodeRune.cases) (auto simp: ascii_def)
  then show ?thesis by (simp add: utf8_runes_step)
qed

lemma utf8_runes_ascii: "list_all ascii s \<Longrightarrow> utf8_runes s = map (\<lambda>c. (of_char c, [c])) s"
  by (induction s) auto

lemma DecodeRune_append_ascii:
  assumes "s \<noteq> []" and "ascii c"
  shows "utf8_DecodeRune (s @ c # t) = utf8_DecodeRune s"
proof -
  have no: "\<not> valid2 x c" "\<not> valid3 x c y" "\<not> valid3 x y c" "\<not> valid4 x c y z"
    "\<not> valid4 x y c z" "\<not> valid4 x y z c" for x y z
    using assms(2) valid_high by blast+
  show ?thesis
  proof (cases s rule: utf8_DecodeRune.cases)
    case (2 c0)
    then show ?thesis
      by (cases "c0 # c # t" rule: utf8_DecodeRune.cases) (auto simp: no)
  next
    case (3 c0 c1)
    then show ?thesis
      by (cases "c0 # c1 # c # t" rule: utf8_DecodeRune.cases) (auto simp: no)
  next
    case (4 c0 c1 c2)
    then show ?thesis by (auto simp: no)
  qed (use assms in auto)
qed

lemma utf8_runes_append_ascii:
  assumes "ascii c"
  shows "utf8_runes (s @ c # t) = utf8_runes s @ utf8_runes (c # t)"
proof (induction s rule: utf8_runes.induct)
  case (1 s)
  show ?case
  proof (cases "s = []")
    case False
    obtain r n where rn: "utf8_DecodeRune s = (r, n)" by fastforce
    with False DecodeRune_width [of s] have n: "n \<le> length s" by auto
    from rn False "1" have "utf8_runes (drop n s @ c # t) =
        utf8_runes (drop n s) @ utf8_runes (c # t)" by simp
    moreover have "utf8_DecodeRune (s @ c # t) = (r, n)"
      using DecodeRune_append_ascii [OF False assms] rn by simp
    ultimately show ?thesis using n False rn by (simp add: utf8_runes_step)
  qed simp
qed

text \<open>\<open>utf8.Valid\<close>: no byte of the string had to be replaced by U+FFFD of width 1.\<close>

definition utf8_Valid :: "string \<Rightarrow> bool" where
  "utf8_Valid s \<longleftrightarrow> list_all (\<lambda>(r, b). \<not> (r = 0xFFFD \<and> length b = 1)) (utf8_runes s)"

lemma utf8_Valid_ascii: "list_all ascii s \<Longrightarrow> utf8_Valid s"
  by (auto simp: utf8_Valid_def utf8_runes_ascii list_all_iff ascii_def byte_in_def)

lemma utf8_Valid_append_ascii:
  "ascii c \<Longrightarrow> utf8_Valid (s @ c # t) \<longleftrightarrow> utf8_Valid s \<and> utf8_Valid (c # t)"
  by (simp add: utf8_Valid_def utf8_runes_append_ascii del: utf8_runes_ascii_Cons)

lemma utf8_Valid_Cons_ascii: "ascii c \<Longrightarrow> utf8_Valid (c # t) \<longleftrightarrow> utf8_Valid t"
  by (simp add: utf8_Valid_def) (auto simp: ascii_def byte_in_def)

text \<open>\<open>utf8.EncodeRune\<close>; a surrogate or a value beyond U+10FFFF is encoded as U+FFFD.\<close>

definition utf8_EncodeRune :: "rune \<Rightarrow> string" where
  "utf8_EncodeRune r =
     map char_of
       (if r < 0x80 then [r]
        else if r < 0x800 then [0xC0 + r div 64, 0x80 + r mod 64]
        else if 0x10FFFF < r \<or> (0xD800 \<le> r \<and> r \<le> 0xDFFF) then [0xEF, 0xBF, 0xBD]
        else if r < 0x10000
        then [0xE0 + r div 4096, 0x80 + r div 64 mod 64, 0x80 + r mod 64]
        else [0xF0 + r div 262144, 0x80 + r div 4096 mod 64, 0x80 + r div 64 mod 64,
              0x80 + r mod 64 :: nat])"

section \<open>White space and case\<close>

text \<open>\<open>unicode.IsSpace\<close>: the code points with the Unicode property White_Space.\<close>

definition unicode_IsSpace :: "rune \<Rightarrow> bool" where
  "unicode_IsSpace r \<longleftrightarrow>
     r \<in> {9, 10, 11, 12, 13, 32, 0x85, 0xA0, 0x1680, 0x2028, 0x2029, 0x202F, 0x205F, 0x3000} \<or>
     (0x2000 \<le> r \<and> r \<le> 0x200A)"

fun fields_of :: "(rune \<times> string) list \<Rightarrow> string \<Rightarrow> string list" where
  "fields_of [] cur = (if cur = [] then [] else [cur])"
| "fields_of ((r, b) # rs) cur =
     (if unicode_IsSpace r
      then (if cur = [] then fields_of rs [] else cur # fields_of rs [])
      else fields_of rs (cur @ b))"

definition strings_Fields :: "string \<Rightarrow> string list" where
  "strings_Fields s = fields_of (utf8_runes s) []"

definition strings_TrimSpace :: "string \<Rightarrow> string" where
  "strings_TrimSpace s =
     (let sp = (\<lambda>(r, b). unicode_IsSpace r)
      in concat (map snd (rev (dropWhile sp (rev (dropWhile sp (utf8_runes s)))))))"

definition ascii_lower :: "char \<Rightarrow> char" where
  "ascii_lower c = (if byte_in 65 90 c then char_of (of_char c + 32 :: nat) else c)"

definition strings_ToLower :: "(rune \<Rightarrow> rune) \<Rightarrow> string \<Rightarrow> string" where
  "strings_ToLower ulower s =
     (if list_all ascii s then map ascii_lower s
      else concat (map (\<lambda>(r, b). utf8_EncodeRune (ulower r)) (utf8_runes s)))"

text \<open>A string without white space; Go's white space is decided per code point.\<close>

definition no_space :: "string \<Rightarrow> bool" where
  "no_space s \<longleftrightarrow> list_all (\<lambda>(r, b). \<not> unicode_IsSpace r) (utf8_runes s)"

lemma no_space_ascii:
  "list_all (\<lambda>c. ascii c \<and> \<not> unicode_IsSpace (of_char c)) s \<Longrightarrow> no_space s"
  by (induction s) (auto simp: no_space_def)

lemma fields_of_no_space:
  "list_all (\<lambda>(r, b). \<not> unicode_IsSpace r) rs \<Longrightarrow>
   fields_of rs cur = (if cur @ concat (map snd rs) = [] then [] else [cur @ concat (map snd rs)])"
  by (induction rs arbitrary: cur) (fastforce simp del: concat_eq_Nil_conv)+

lemma fields_of_no_space_append:
  "list_all (\<lambda>(r, b). \<not> unicode_IsSpace r) rs \<Longrightarrow>
   fields_of (rs @ qs) cur = fields_of qs (cur @ concat (map snd rs))"
  by (induction rs arbitrary: cur) auto

lemma ascii_space [simp]: "ascii CHR '' ''"
  by (simp add: ascii_def byte_in_def)

lemma IsSpace_32 [simp]: "unicode_IsSpace 32"
  by (simp add: unicode_IsSpace_def)

lemma Fields_single: "no_space s \<Longrightarrow> s \<noteq> [] \<Longrightarrow> strings_Fields s = [s]"
  by (simp add: strings_Fields_def no_space_def fields_of_no_space)

lemma Fields_pair:
  assumes "no_space s" "s \<noteq> []" "no_space t" "t \<noteq> []"
  shows "strings_Fields (s @ CHR '' '' # t) = [s, t]"
  using assms
  by (simp add: strings_Fields_def no_space_def utf8_runes_append_ascii
      fields_of_no_space_append fields_of_no_space)

lemma TrimSpace_no_space [simp]: "no_space s \<Longrightarrow> strings_TrimSpace s = s"
proof -
  assume "no_space s"
  then have all: "\<And>p. p \<in> set (utf8_runes s) \<Longrightarrow> \<not> (\<lambda>(r, b). unicode_IsSpace r) p"
    by (auto simp: no_space_def list_all_iff)
  have "dropWhile (\<lambda>(r, b). unicode_IsSpace r) (utf8_runes s) = utf8_runes s"
    and "dropWhile (\<lambda>(r, b). unicode_IsSpace r) (rev (utf8_runes s)) = rev (utf8_runes s)"
    by (rule dropWhile_all_not; use all in simp)+
  then show ?thesis by (simp add: strings_TrimSpace_def)
qed

lemma set_TrimSpace: "set (strings_TrimSpace s) \<subseteq> set s"
proof -
  have "set (concat (map snd rs)) \<subseteq> set s" if "set rs \<subseteq> set (utf8_runes s)" for rs
  proof -
    have "set (concat (map snd rs)) \<subseteq> set (concat (map snd (utf8_runes s)))"
      using that unfolding set_concat set_map by blast
    then show ?thesis by (simp only: utf8_runes_bytes)
  qed
  then show ?thesis
    unfolding strings_TrimSpace_def Let_def by (metis set_dropWhileD set_rev subsetI)
qed

lemma no_space_char: "no_space s \<Longrightarrow> CHR '' '' \<notin> set s"
proof
  assume ns: "no_space s" and "CHR '' '' \<in> set s"
  then obtain u v where "s = u @ CHR '' '' # v" by (meson split_list)
  with ns show False by (simp add: no_space_def utf8_runes_append_ascii)
qed

lemma ascii_ascii_lower [simp]: "ascii c \<Longrightarrow> ascii (ascii_lower c)"
  by (auto simp: ascii_lower_def ascii_def byte_in_def)

lemma ascii_lower_idem [simp]: "ascii_lower (ascii_lower c) = ascii_lower c"
  by (auto simp: ascii_lower_def byte_in_def)

lemma ToLower_ascii: "list_all ascii s \<Longrightarrow> strings_ToLower ulower s = map ascii_lower s"
  by (simp add: strings_ToLower_def)

lemma ToLower_Nil [simp]: "strings_ToLower ulower [] = []"
  by (simp add: strings_ToLower_def)

end
