(* ===== verification/Go_Encoding.thy ===== *)
theory Go_Encoding
  imports Go_Strings
begin

text \<open>
  Text encodings of the Go standard library that the program uses to build identifiers,
  headers and request bodies: decimal and hexadecimal formatting of package \<open>fmt\<close>,
  \<open>hex.EncodeToString\<close>, \<open>base64.StdEncoding\<close>, \<open>url.QueryEscape\<close> and the encoding of strings by
  \<open>json.Marshal\<close> (of Go 1.25, which the module files name). Each comes with the decoder that
  inverts it, so that the components can state that nothing is lost or confused on the wire.
\<close>

section \<open>Decimal and hexadecimal\<close>

lemma char_of_byte: "of_char c = (n :: nat) \<Longrightarrow> char_of n = c"
  by auto

definition digit :: "nat \<Rightarrow> char" where
  "digit d = char_of (48 + d)"

fun fmt_nat :: "nat \<Rightarrow> string" where
  "fmt_nat n = (if n < 10 then [digit n] else fmt_nat (n div 10) @ [digit (n mod 10)])"

declare fmt_nat.simps [simp del]

definition fmt_d :: "int \<Rightarrow> string" where
  "fmt_d i = (if i < 0 then CHR ''-'' # fmt_nat (nat (- i)) else fmt_nat (nat i))"

text \<open>A non-negative number padded on the left with zeros, as \<open>time.Format\<close> writes date parts.\<close>

definition fmt_pad :: "nat \<Rightarrow> nat \<Rightarrow> string" where
  "fmt_pad w n = replicate (w - length (fmt_nat n)) CHR ''0'' @ fmt_nat n"

definition read_nat :: "string \<Rightarrow> nat" where
  "read_nat s = foldl (\<lambda>a c. 10 * a + (of_char c - 48)) 0 s"

lemma of_char_digit: "d < 10 \<Longrightarrow> of_char (digit d) = 48 + d"
  by (simp add: digit_def)

lemma read_nat_snoc: "read_nat (s @ [c]) = 10 * read_nat s + (of_char c - 48)"
  by (simp add: read_nat_def)

lemma read_fmt_nat [simp]: "read_nat (fmt_nat n) = n"
proof (induction n rule: fmt_nat.induct)
  case (1 n)
  show ?case
  proof (cases "n < 10")
    case True
    then show ?thesis by (simp add: fmt_nat.simps read_nat_def of_char_digit)
  next
    case False
    with "1" show ?thesis by (subst fmt_nat.simps) (simp add: read_nat_snoc of_char_digit)
  qed
qed

lemma inj_fmt_nat: "fmt_nat m = fmt_nat n \<longleftrightarrow> m = n"
  by (metis read_fmt_nat)

lemma fmt_nat_digits: "list_all (byte_in 48 57) (fmt_nat n)"
proof (induction n rule: fmt_nat.induct)
  case (1 n)
  then show ?case
    by (subst fmt_nat.simps) (auto simp: byte_in_def [of _ _ "digit _"] of_char_digit)
qed

lemma fmt_nat_nonempty [simp]: "fmt_nat n \<noteq> []"
  by (subst fmt_nat.simps) simp

lemma fmt_nat_hd_digit: "byte_in 48 57 (hd (fmt_nat n))"
  using fmt_nat_digits [of n] by (cases "fmt_nat n") auto

lemma inj_fmt_d: "fmt_d i = fmt_d j \<longleftrightarrow> i = j"
proof
  assume eq: "fmt_d i = fmt_d j"
  have minus: "hd (fmt_nat n) \<noteq> CHR ''-''" for n
    using fmt_nat_hd_digit [of n] by (auto simp: byte_in_def)
  show "i = j"
  proof (cases "i < 0"; cases "j < 0")
    assume "i < 0" "j < 0"
    with eq show ?thesis by (simp add: fmt_d_def inj_fmt_nat)
  next
    assume "i < 0" "\<not> j < 0"
    with eq minus [of "nat j"] show ?thesis by (metis fmt_d_def list.sel(1))
  next
    assume "\<not> i < 0" "j < 0"
    with eq minus [of "nat i"] show ?thesis by (metis fmt_d_def list.sel(1))
  next
    assume "\<not> i < 0" "\<not> j < 0"
    with eq show ?thesis by (simp add: fmt_d_def inj_fmt_nat)
  qed
qed simp

lemma fmt_nat_length: "n < 10 ^ Suc w \<Longrightarrow> length (fmt_nat n) \<le> Suc w"
proof (induction w arbitrary: n)
  case 0
  then show ?case by (subst fmt_nat.simps) simp
next
  case (Suc w)
  show ?case
  proof (cases "n < 10")
    case False
    from Suc.prems have "n div 10 < 10 ^ Suc w" by auto
    then have "length (fmt_nat (n div 10)) \<le> Suc w" by (rule Suc.IH)
    with False show ?thesis by (subst fmt_nat.simps) simp
  qed (subst fmt_nat.simps, simp)
qed

lemma length_fmt_pad: "n < 10 ^ w \<Longrightarrow> 0 < w \<Longrightarrow> length (fmt_pad w n) = w"
  using fmt_nat_length [of n "w - 1"] by (simp add: fmt_pad_def)

lemma read_nat_zeros: "read_nat (replicate k CHR ''0'' @ s) = read_nat s"
  by (induction k) (simp_all add: read_nat_def)

lemma read_fmt_pad [simp]: "read_nat (fmt_pad w n) = n"
  by (simp add: fmt_pad_def read_nat_zeros)

lemma inj_fmt_pad: "fmt_pad w m = fmt_pad w n \<longleftrightarrow> m = n"
  by (metis read_fmt_pad)

lemma fmt_pad_digits: "list_all (byte_in 48 57) (fmt_pad w n)"
  using fmt_nat_digits [of n] by (auto simp: fmt_pad_def list_all_iff byte_in_def)

definition hex_digit :: "nat \<Rightarrow> char" where
  "hex_digit d = (if d < 10 then char_of (48 + d) else char_of (87 + d))"

definition hex_value :: "char \<Rightarrow> nat" where
  "hex_value c = (if byte_in 48 57 c then of_char c - 48 else of_char c - 87)"

definition hex_byte :: "nat \<Rightarrow> string" where
  "hex_byte b = [hex_digit (b div 16), hex_digit (b mod 16)]"

definition hex_EncodeToString :: "string \<Rightarrow> string" where
  "hex_EncodeToString bs = concat (map (\<lambda>c. hex_byte (of_char c)) bs)"

text \<open>\<open>fmt.Sprintf("%x", b)\<close> for an array or slice of bytes.\<close>

definition fmt_x :: "byte list \<Rightarrow> string" where
  "fmt_x bs = concat (map (\<lambda>b. hex_byte (unat b)) bs)"

lemma hex_value_digit [simp]: "d < 16 \<Longrightarrow> hex_value (hex_digit d) = d"
  by (auto simp: hex_value_def hex_digit_def byte_in_def)

lemma hex_digit_range: "d < 16 \<Longrightarrow> byte_in 48 57 (hex_digit d) \<or> byte_in 97 102 (hex_digit d)"
  by (auto simp: hex_digit_def byte_in_def)

lemma inj_hex_byte: "a < 256 \<Longrightarrow> b < 256 \<Longrightarrow> hex_byte a = hex_byte b \<Longrightarrow> a = b"
proof -
  assume lt: "a < 256" "b < 256" and eq: "hex_byte a = hex_byte b"
  from eq have "hex_value (hex_digit (a div 16)) = hex_value (hex_digit (b div 16))"
    and "hex_value (hex_digit (a mod 16)) = hex_value (hex_digit (b mod 16))"
    by (simp_all add: hex_byte_def)
  with lt have "a div 16 = b div 16" and "a mod 16 = b mod 16" by simp_all
  then show ?thesis by (metis div_mult_mod_eq)
qed

lemma length_hex_byte [simp]: "length (hex_byte b) = 2"
  by (simp add: hex_byte_def)

lemma length_hex_Encode [simp]: "length (hex_EncodeToString bs) = 2 * length bs"
  by (simp add: hex_EncodeToString_def length_concat_map_const)

lemma length_fmt_x [simp]: "length (fmt_x bs) = 2 * length bs"
  by (simp add: fmt_x_def length_concat_map_const)

lemma inj_hex_Encode: "hex_EncodeToString a = hex_EncodeToString b \<longleftrightarrow> a = b"
proof
  assume eq: "hex_EncodeToString a = hex_EncodeToString b"
  then have "length a = length b"
    by (metis length_hex_Encode mult_cancel1 zero_neq_numeral)
  then show "a = b"
    using eq unfolding hex_EncodeToString_def
    by (elim concat_map_inj_const_length [rotated])
      (auto dest!: inj_hex_byte [rotated 2])
qed simp

lemma inj_fmt_x: "fmt_x a = fmt_x b \<longleftrightarrow> a = b"
proof
  have lt: "unat x < 256" for x :: byte
    using unsigned_less [of x, where ?'a = nat] by simp
  assume eq: "fmt_x a = fmt_x b"
  then have "length a = length b"
    by (metis length_fmt_x mult_cancel1 zero_neq_numeral)
  then show "a = b"
    using eq unfolding fmt_x_def
    by (elim concat_map_inj_const_length [rotated])
      (auto dest!: inj_hex_byte [rotated 2] simp: lt word_eq_iff_unsigned [where ?'a = nat])
qed simp

lemma fmt_x_digits: "list_all (\<lambda>c. byte_in 48 57 c \<or> byte_in 97 102 c) (fmt_x bs)"
proof -
  have "unat b div 16 < 16" for b :: byte
    using unsigned_less [of b, where ?'a = nat] by simp
  then show ?thesis
    using hex_digit_range by (auto simp: fmt_x_def hex_byte_def list_all_iff)
qed

section \<open>Query escaping\<close>

definition url_unreserved :: "char \<Rightarrow> bool" where
  "url_unreserved c \<longleftrightarrow>
     byte_in 48 57 c \<or> byte_in 65 90 c \<or> byte_in 97 122 c \<or> c \<in> set ''-_.~''"

definition hex_upper :: "nat \<Rightarrow> char" where
  "hex_upper d = (if d < 10 then char_of (48 + d) else char_of (55 + d))"

definition hex_upper_value :: "char \<Rightarrow> nat" where
  "hex_upper_value c = (if byte_in 48 57 c then of_char c - 48 else of_char c - 55)"

definition query_escape_char :: "char \<Rightarrow> string" where
  "query_escape_char c =
     (if url_unreserved c then [c]
      else if c = CHR '' '' then ''+''
      else [CHR ''%'', hex_upper (of_char c div 16), hex_upper (of_char c mod 16)])"

definition url_QueryEscape :: "string \<Rightarrow> string" where
  "url_QueryEscape s = concat (map query_escape_char s)"

text \<open>The decoder of a form value (\<open>url.QueryUnescape\<close>, defined on well-formed input).\<close>

fun url_QueryUnescape :: "string \<Rightarrow> string" where
  "url_QueryUnescape [] = []"
| "url_QueryUnescape (c # s) =
     (if c = CHR ''%'' then
        (case s of
           a # b # t \<Rightarrow> char_of (16 * hex_upper_value a + hex_upper_value b) # url_QueryUnescape t
         | _ \<Rightarrow> [])
      else (if c = CHR ''+'' then CHR '' '' else c) # url_QueryUnescape s)"

lemma hex_upper_value_upper [simp]: "d < 16 \<Longrightarrow> hex_upper_value (hex_upper d) = d"
  by (auto simp: hex_upper_value_def hex_upper_def byte_in_def)

lemma of_char_div_16 [simp]: "(of_char c :: nat) div 16 < 16"
  by (rule less_mult_imp_div_less) simp

lemma unreserved_not_special: "url_unreserved c \<Longrightarrow> c \<noteq> CHR ''%'' \<and> c \<noteq> CHR ''+''"
  by (auto simp: url_unreserved_def byte_in_def)

lemma unescape_escape_char:
  "url_QueryUnescape (query_escape_char c @ s) = c # url_QueryUnescape s"
proof -
  have "char_of (16 * (of_char c div 16) + of_char c mod 16 :: nat) = c"
    by (simp only: mult_div_mod_eq char_of_char)
  then show ?thesis
    using unreserved_not_special [of c] by (auto simp: query_escape_char_def)
qed

lemma unescape_escape [simp]: "url_QueryUnescape (url_QueryEscape s) = s"
  by (induction s) (simp_all add: url_QueryEscape_def unescape_escape_char)

lemma hex_upper_range: "d < 16 \<Longrightarrow> byte_in 48 57 (hex_upper d) \<or> byte_in 65 70 (hex_upper d)"
  by (auto simp: hex_upper_def byte_in_def)

lemma hex_upper_not_special:
  "hex_upper (of_char c div 16) \<notin> set ''+:&=''" "hex_upper (of_char c mod 16) \<notin> set ''+:&=''"
  using hex_upper_range [of "of_char c div 16"] hex_upper_range [of "of_char c mod 16"]
  by (auto simp: byte_in_def)

lemma QueryEscape_no_separator:
  "CHR ''&'' \<notin> set (url_QueryEscape s)" "CHR ''='' \<notin> set (url_QueryEscape s)"
proof -
  have "CHR ''&'' \<notin> set (query_escape_char c)" "CHR ''='' \<notin> set (query_escape_char c)" for c
    using hex_upper_not_special [of c]
    by (auto simp: query_escape_char_def url_unreserved_def byte_in_def)
  then show "CHR ''&'' \<notin> set (url_QueryEscape s)" "CHR ''='' \<notin> set (url_QueryEscape s)"
    by (auto simp: url_QueryEscape_def)
qed

lemma inj_QueryEscape: "url_QueryEscape a = url_QueryEscape b \<longleftrightarrow> a = b"
  by (metis unescape_escape)

section \<open>Base64\<close>

definition base64_char :: "nat \<Rightarrow> char" where
  "base64_char v =
     (if v < 26 then char_of (65 + v)
      else if v < 52 then char_of (71 + v)
      else if v < 62 then char_of (v - 4)
      else if v = 62 then CHR ''+'' else CHR ''/'')"

definition base64_value :: "char \<Rightarrow> nat" where
  "base64_value c =
     (if byte_in 65 90 c then of_char c - 65
      else if byte_in 97 122 c then of_char c - 71
      else if byte_in 48 57 c then of_char c + 4
      else if c = CHR ''+'' then 62 else 63)"

text \<open>\<open>base64.StdEncoding.EncodeToString\<close>: standard alphabet, padded.\<close>

fun base64_Encode :: "string \<Rightarrow> string" where
  "base64_Encode [] = []"
| "base64_Encode [a] =
     [base64_char (of_char a div 4), base64_char (of_char a mod 4 * 16), CHR ''='', CHR ''='']"
| "base64_Encode [a, b] =
     [base64_char (of_char a div 4), base64_char (of_char a mod 4 * 16 + of_char b div 16),
      base64_char (of_char b mod 16 * 4), CHR ''='']"
| "base64_Encode (a # b # c # s) =
     base64_char (of_char a div 4) # base64_char (of_char a mod 4 * 16 + of_char b div 16) #
     base64_char (of_char b mod 16 * 4 + of_char c div 64) # base64_char (of_char c mod 64) #
     base64_Encode s"

fun base64_Decode :: "string \<Rightarrow> string" where
  "base64_Decode (w # x # y # z # s) =
     (let w' = base64_value w; x' = base64_value x; y' = base64_value y; z' = base64_value z
      in if y = CHR ''='' then [char_of (w' * 4 + x' div 16)]
         else if z = CHR ''=''
         then [char_of (w' * 4 + x' div 16), char_of (x' mod 16 * 16 + y' div 4)]
         else char_of (w' * 4 + x' div 16) # char_of (x' mod 16 * 16 + y' div 4) #
              char_of (y' mod 4 * 64 + z') # base64_Decode s)"
| "base64_Decode _ = []"

lemma base64_value_char [simp]: "v < 64 \<Longrightarrow> base64_value (base64_char v) = v"
  by (auto simp: base64_value_def base64_char_def byte_in_def)

lemma of_char_base64_char:
  "v < 64 \<Longrightarrow> of_char (base64_char v) =
     (if v < 26 then 65 + v else if v < 52 then 71 + v else if v < 62 then v - 4
      else if v = 62 then 43 else 47)"
  by (simp add: base64_char_def)

lemma base64_char_not_pad [simp]:
  assumes "v < 64"
  shows "base64_char v \<noteq> CHR ''=''"
proof
  assume "base64_char v = CHR ''=''"
  then have "of_char (base64_char v) = (61 :: nat)" by simp
  with assms show False by (simp add: of_char_base64_char split: if_splits)
qed

lemma sextet_bounds [simp]:
  "(of_char a :: nat) div 4 < 64" "(of_char a :: nat) div 64 < 4"
  "(of_char a :: nat) mod 4 * 16 < 64" "(of_char b :: nat) mod 16 * 4 < 64"
  "(of_char a :: nat) mod 4 * 16 + of_char b div 16 < 64"
  "(of_char b :: nat) mod 16 * 4 + of_char c div 64 < 64"
proof -
  show d: "(of_char c :: nat) div 4 < 64" "(of_char c :: nat) div 64 < 4" for c
    by (rule less_mult_imp_div_less, simp)+
  have m: "(n :: nat) mod 4 \<le> 3" "n mod 16 \<le> 15" for n
    by presburger+
  show "(of_char a :: nat) mod 4 * 16 < 64" "(of_char b :: nat) mod 16 * 4 < 64"
    using m [of "of_char a"] m [of "of_char b"] by linarith+
  show "(of_char a :: nat) mod 4 * 16 + of_char b div 16 < 64"
    "(of_char b :: nat) mod 16 * 4 + of_char c div 64 < 64"
    using m [of "of_char a"] m [of "of_char b"] of_char_div_16 [of b] d [of c] by linarith+
qed

lemma base64_Decode_Encode [simp]: "base64_Decode (base64_Encode s) = s"
proof (induction s rule: base64_Encode.induct)
  case (2 a)
  have "of_char a div 4 * 4 + of_char a mod 4 = (of_char a :: nat)" by simp
  then show ?case by simp
next
  case (3 a b)
  have "of_char a div 4 * 4 + of_char a mod 4 = (of_char a :: nat)"
    and "of_char b div 16 * 16 + of_char b mod 16 = (of_char b :: nat)" by simp_all
  then show ?case by (simp add: Let_def)
next
  case (4 a b c s)
  have "of_char a div 4 * 4 + of_char a mod 4 = (of_char a :: nat)"
    and "of_char b div 16 * 16 + of_char b mod 16 = (of_char b :: nat)"
    and "of_char c div 64 * 64 + of_char c mod 64 = (of_char c :: nat)" by simp_all
  with "4" show ?case by (simp add: Let_def)
qed simp

end
