(* ===== verification/Go_JSON.thy ===== *)
theory Go_JSON
  imports Go_Encoding
begin

text \<open>
  What the program uses of \<open>encoding/json\<close> to write. Outgoing bodies are objects of strings, and
  \<open>json_Marshal\<close> writes them byte for byte as Go does, HTML-sensitive characters, line
  separators and invalid UTF-8 included. Decoding, and the proof that a decoder gets back what was
  written, are in the theory \<open>JSON_Decode\<close>.
\<close>

section \<open>Encoding is the inverse of decoding on well-formed code points\<close>

lemma low_bits:
  fixes x :: nat
  shows "x < 32 \<Longrightarrow> (192 + x) mod 32 = x" "x < 64 \<Longrightarrow> (128 + x) mod 64 = x"
    "x < 16 \<Longrightarrow> (224 + x) mod 16 = x" "x < 8 \<Longrightarrow> (240 + x) mod 8 = x"
  using mod_mult_self1 [of x 6 32] mod_mult_self1 [of x 2 64] mod_mult_self1 [of x 14 16]
    mod_mult_self1 [of x 30 8]
  by (simp_all add: add.commute)

lemma byte_offset:
  "byte_in lo hi c \<Longrightarrow> off \<le> lo \<Longrightarrow> \<exists>x. of_char c = off + x \<and> lo - off \<le> x \<and> x \<le> hi - off"
  by (intro exI [of _ "of_char c - off"]) (auto simp: byte_in_def)

lemma join_digits:
  fixes x y r :: nat
  shows "y < 64 \<Longrightarrow> (x * 64 + y) div 64 = x" "y < 64 \<Longrightarrow> (x * 64 + y) mod 64 = y"
    "r div 4096 = r div 64 div 64" "r div 262144 = r div 64 div 64 div 64"
  using div_mult2_eq [of r 64 64] div_mult2_eq [of r 4096 64] div_mult2_eq [of r 64 64]
  by simp_all

lemma encode_two:
  assumes "valid2 c0 c1"
  shows "utf8_EncodeRune (rune2 c0 c1) = [c0, c1]"
proof -
  from assms have b: "byte_in 0xC2 0xDF c0" "byte_in 0x80 0xBF c1"
    by (simp_all add: valid2_def)
  obtain x :: nat where x: "of_char c0 = 192 + x" "2 \<le> x" "x < 32"
    using byte_offset [OF b(1), of 192] by force
  obtain y :: nat where y: "of_char c1 = 128 + y" "y < 64"
    using byte_offset [OF b(2), of 128] by force
  show ?thesis
    using x y by (simp add: utf8_EncodeRune_def rune2_def low6_def low_bits join_digits
        char_of_byte [OF x(1)] char_of_byte [OF y(1)])
qed

lemma encode_three:
  assumes "valid3 c0 c1 c2"
  shows "utf8_EncodeRune (rune3 c0 c1 c2) = [c0, c1, c2]"
proof -
  from assms have b: "byte_in 0xE0 0xEF c0" "byte_in 0x80 0xBF c2" and sec: "second3 c0 c1"
    by (simp_all add: valid3_def)
  obtain x :: nat where x: "of_char c0 = 224 + x" "x < 16"
    using byte_offset [OF b(1), of 224] by force
  obtain y :: nat where y: "of_char c1 = 128 + y" "y < 64" "x = 0 \<Longrightarrow> 32 \<le> y" "x = 13 \<Longrightarrow> y < 32"
    using byte_offset [OF sec [unfolded second3_def], of 128] x by (force split: if_splits)
  obtain z :: nat where z: "of_char c2 = 128 + z" "z < 64"
    using byte_offset [OF b(2), of 128] by force
  define r where "r = (x * 64 + y) * 64 + z"
  have rune: "rune3 c0 c1 c2 = r"
    using x(2) y(2) z(2) by (simp add: r_def rune3_def low6_def low_bits x(1) y(1) z(1))
  have range: "\<not> r < 0x800" "\<not> r < 0x80" "\<not> (0xD800 \<le> r \<and> r \<le> 0xDFFF)" "r < 0x10000"
    using x y z unfolding r_def by (cases "x = 0"; cases "x < 13"; cases "x = 13"; simp)+
  have parts: "r div 64 = x * 64 + y" "r mod 64 = z"
    unfolding r_def using y(2) z(2) by (simp_all only: join_digits)
  then have "r div 64 div 64 = x" "r div 64 mod 64 = y" using y(2) by (simp_all add: join_digits)
  then show ?thesis
    using range parts unfolding rune utf8_EncodeRune_def join_digits(3)
    by (auto simp: char_of_byte [OF x(1)] char_of_byte [OF y(1)] char_of_byte [OF z(1)])
qed

lemma encode_four:
  assumes "valid4 c0 c1 c2 c3"
  shows "utf8_EncodeRune (rune4 c0 c1 c2 c3) = [c0, c1, c2, c3]"
proof -
  from assms have b: "byte_in 0xF0 0xF4 c0" "byte_in 0x80 0xBF c2" "byte_in 0x80 0xBF c3"
    and sec: "second4 c0 c1"
    by (simp_all add: valid4_def)
  obtain x :: nat where x: "of_char c0 = 240 + x" "x < 5"
    using byte_offset [OF b(1), of 240] by force
  obtain y :: nat where y: "of_char c1 = 128 + y" "y < 64" "x = 0 \<Longrightarrow> 16 \<le> y" "x = 4 \<Longrightarrow> y < 16"
    using byte_offset [OF sec [unfolded second4_def], of 128] x by (force split: if_splits)
  obtain z :: nat where z: "of_char c2 = 128 + z" "z < 64"
    using byte_offset [OF b(2), of 128] by force
  obtain u :: nat where u: "of_char c3 = 128 + u" "u < 64"
    using byte_offset [OF b(3), of 128] by force
  define r where "r = ((x * 64 + y) * 64 + z) * 64 + u"
  have rune: "rune4 c0 c1 c2 c3 = r"
    using x(2) y(2) z(2) u(2) by (simp add: r_def rune4_def low6_def low_bits x(1) y(1) z(1) u(1))
  have range: "\<not> r < 0x10000" "\<not> 0x10FFFF < r"
    using x y z u unfolding r_def by (cases "x = 0"; cases "x = 4"; simp)+
  have parts: "r div 64 = (x * 64 + y) * 64 + z" "r mod 64 = u"
    unfolding r_def using z(2) u(2) by (simp_all only: join_digits)
  have parts2: "r div 64 div 64 = x * 64 + y" "r div 64 mod 64 = z"
    unfolding parts using y(2) z(2) by (simp_all only: join_digits)
  have "r div 64 div 64 div 64 = x" "r div 64 div 64 mod 64 = y"
    unfolding parts2 using y(2) by (simp_all only: join_digits)
  then show ?thesis
    using range parts(2) parts2(2) unfolding rune utf8_EncodeRune_def join_digits(3,4)
    by (simp add: char_of_byte [OF x(1)] char_of_byte [OF y(1)] char_of_byte [OF z(1)]
        char_of_byte [OF u(1)])
qed

text \<open>What the decoder yields at the front of a string.\<close>

lemma DecodeRune_shape:
  assumes "s \<noteq> []" and "utf8_DecodeRune s = (r, n)"
  shows "(\<exists>c. take n s = [c] \<and> ascii c \<and> r = of_char c) \<or> (r = 0xFFFD \<and> n = 1) \<or>
         (list_all (\<lambda>c. \<not> ascii c) (take n s) \<and> 2 \<le> n \<and> utf8_EncodeRune r = take n s)"
  using assms
  by (cases s rule: utf8_DecodeRune.cases)
    (auto simp: encode_two encode_three encode_four dest: valid_high split: if_splits)

section \<open>Writing strings and objects\<close>

definition json_escape_rune :: "rune \<times> string \<Rightarrow> string" where
  "json_escape_rune p =
     (let (r, b) = p
      in if r < 0x80 then
           (if r = 0x22 \<or> r = 0x5C then [CHR 0x5C, char_of r]
            else if r = 8 then [CHR 0x5C, CHR ''b'']
            else if r = 12 then [CHR 0x5C, CHR ''f'']
            else if r = 10 then [CHR 0x5C, CHR ''n'']
            else if r = 13 then [CHR 0x5C, CHR ''r'']
            else if r = 9 then [CHR 0x5C, CHR ''t'']
            else if r < 0x20 \<or> r = 0x3C \<or> r = 0x3E \<or> r = 0x26
            then CHR 0x5C # ''u00'' @ hex_byte r
            else b)
         else if r = 0xFFFD \<and> length b = 1 then CHR 0x5C # ''ufffd''
         else if r = 0x2028 then CHR 0x5C # ''u2028''
         else if r = 0x2029 then CHR 0x5C # ''u2029''
         else b)"

definition json_quote :: "string \<Rightarrow> string" where
  "json_quote s =
     CHR 0x22 # concat (map json_escape_rune (utf8_runes s)) @ [CHR 0x22]"

text \<open>The bodies the program marshals: strings and objects, the keys in the order Go writes them.\<close>

datatype jbody = BStr string | BObj "(string \<times> jbody) list"

fun json_Marshal :: "jbody \<Rightarrow> string"
  and json_Marshal_fields :: "(string \<times> jbody) list \<Rightarrow> string" where
  "json_Marshal (BStr s) = json_quote s"
| "json_Marshal (BObj fs) = CHR ''{'' # json_Marshal_fields fs @ ''}''"
| "json_Marshal_fields [] = []"
| "json_Marshal_fields [(k, v)] = json_quote k @ '':'' @ json_Marshal v"
| "json_Marshal_fields ((k, v) # f # fs) =
     json_quote k @ '':'' @ json_Marshal v @ '','' @ json_Marshal_fields (f # fs)"

end
