(* ===== verification/JSON_Decode.thy ===== *)
theory JSON_Decode
  imports Go_JSON
begin

text \<open>
  Decoding as \<open>encoding/json\<close> does it: the scanner with its stack of open arrays and objects, the
  unquoting of string literals, numbers rounded to \<open>float64\<close>, and the two kinds of target the
  program decodes into, a \<open>struct\<close> with one field and a \<open>map[string]any\<close>. A decoder either yields
  a value or fails; the text of its errors is not modelled.
\<close>

section \<open>Tokens\<close>

text \<open>A document keeps its numbers as written, since a \<open>struct\<close> target skips them unconverted.\<close>

datatype json =
    JNull
  | JBool bool
  | JNum string
  | JStr string
  | JArr "json list"
  | JObj "(string \<times> json) list"

datatype jtoken =
    TOpenObj | TCloseObj | TOpenArr | TCloseArr | TColon | TComma
  | TLit json

definition json_space :: "char \<Rightarrow> bool" where
  "json_space c \<longleftrightarrow> c = CHR '' '' \<or> c = CHR 0x09 \<or> c = CHR 0x0A \<or> c = CHR 0x0D"

definition is_digit :: "char \<Rightarrow> bool" where
  "is_digit c \<longleftrightarrow> byte_in 48 57 c"

definition is_hex :: "char \<Rightarrow> bool" where
  "is_hex c \<longleftrightarrow> byte_in 48 57 c \<or> byte_in 65 70 c \<or> byte_in 97 102 c"

text \<open>
  The inside of a string literal is a sequence of raw bytes and of code units written with
  an escape. Raw bytes that are not UTF-8 and surrogates without a partner become U+FFFD.
\<close>

datatype piece = PByte char | PUnit nat

definition hexadecimal :: "char \<Rightarrow> nat" where
  "hexadecimal c = (if byte_in 65 70 c then of_char c - 55 else hex_value c)"

fun escape_unit :: "char \<Rightarrow> nat option" where
  "escape_unit c =
     (if c = CHR ''b'' then Some 8 else if c = CHR ''f'' then Some 12
      else if c = CHR ''n'' then Some 10 else if c = CHR ''r'' then Some 13
      else if c = CHR ''t'' then Some 9
      else if c = CHR 0x22 \<or> c = CHR 0x5C \<or> c = CHR ''/'' then Some (of_char c)
      else None)"

text \<open>Reads a literal after its opening quote: the pieces and what follows the closing quote.\<close>

fun lex_string :: "string \<Rightarrow> (piece list \<times> string) option" where
  "lex_string [] = None"
| "lex_string (c # s) =
     (if c = CHR 0x22 then Some ([], s)
      else if c = CHR 0x5C then
        (case s of
           [] \<Rightarrow> None
         | k # t \<Rightarrow>
             (if k = CHR ''u'' then
                (case t of
                   h0 # h1 # h2 # h3 # u \<Rightarrow>
                     (if is_hex h0 \<and> is_hex h1 \<and> is_hex h2 \<and> is_hex h3 then
                        map_option (\<lambda>(ps, r). (PUnit (((hexadecimal h0 * 16 + hexadecimal h1) * 16
                            + hexadecimal h2) * 16 + hexadecimal h3) # ps, r)) (lex_string u)
                      else None)
                 | _ \<Rightarrow> None)
              else (case escape_unit k of
                      None \<Rightarrow> None
                    | Some x \<Rightarrow> map_option (\<lambda>(ps, r). (PUnit x # ps, r)) (lex_string t))))
      else if of_char c < (0x20 :: nat) then None
      else map_option (\<lambda>(ps, r). (PByte c # ps, r)) (lex_string s))"

definition coerce_utf8 :: "string \<Rightarrow> string" where
  "coerce_utf8 s = concat (map (utf8_EncodeRune \<circ> fst) (utf8_runes s))"

fun unquote :: "piece list \<Rightarrow> string \<Rightarrow> string" where
  "unquote [] run = coerce_utf8 (rev run)"
| "unquote (PByte c # ps) run = unquote ps (c # run)"
| "unquote (PUnit h # PUnit l # ps) run =
     (if 0xD800 \<le> h \<and> h < 0xDC00 \<and> 0xDC00 \<le> l \<and> l < 0xE000
      then coerce_utf8 (rev run)
           @ utf8_EncodeRune ((h - 0xD800) * 0x400 + (l - 0xDC00) + 0x10000) @ unquote ps []
      else coerce_utf8 (rev run) @ utf8_EncodeRune h @ unquote (PUnit l # ps) [])"
| "unquote (PUnit h # ps) run = coerce_utf8 (rev run) @ utf8_EncodeRune h @ unquote ps []"

lemma lex_string_length: "lex_string s = Some (ps, r) \<Longrightarrow> length r < length s"
proof (induction s arbitrary: ps r rule: lex_string.induct)
  case (2 c s)
  show ?case
  proof (cases "c = CHR 0x22 \<or> c \<noteq> CHR 0x5C")
    case True
    with 2 show ?thesis by (auto split: if_splits intro: less_SucI)
  next
    case False
    with 2 show ?thesis
      by (fastforce split: if_splits list.splits option.splits simp del: escape_unit.simps)
  qed
qed simp

text \<open>
  A number: an optional minus, an integer part without leading zeros, an optional fraction and
  an optional exponent. The longest prefix of that form is taken; what cannot follow a number
  is refused later, by the parser.
\<close>

definition lex_frac :: "string \<Rightarrow> string" where
  "lex_frac s =
     (case s of
        c # d # t \<Rightarrow> if c = CHR ''.'' \<and> is_digit d then c # d # takeWhile is_digit t else []
      | _ \<Rightarrow> [])"

definition lex_exp :: "string \<Rightarrow> string" where
  "lex_exp s =
     (case s of
        c # d # t \<Rightarrow>
          if c = CHR ''e'' \<or> c = CHR ''E'' then
            (if is_digit d then c # d # takeWhile is_digit t
             else if (d = CHR ''+'' \<or> d = CHR ''-'') \<and> takeWhile is_digit t \<noteq> []
             then c # d # takeWhile is_digit t else [])
          else []
      | _ \<Rightarrow> [])"

definition lex_int :: "string \<Rightarrow> string" where
  "lex_int s =
     (case s of
        [] \<Rightarrow> []
      | c # t \<Rightarrow> if c = CHR ''0'' then [c] else takeWhile is_digit s)"

definition lex_number :: "string \<Rightarrow> string" where
  "lex_number s =
     (let sign = (if strings_HasPrefix s ''-'' then ''-'' else []);
          i = lex_int (drop (length sign) s);
          f = lex_frac (drop (length sign + length i) s);
          e = lex_exp (drop (length sign + length i + length f) s)
      in if i = [] then [] else sign @ i @ f @ e)"

function json_tokens :: "string \<Rightarrow> jtoken list option" where
  "json_tokens s =
     (case s of
        [] \<Rightarrow> Some []
      | c # t \<Rightarrow>
          if json_space c then json_tokens t
          else if c = CHR ''{'' then map_option ((#) TOpenObj) (json_tokens t)
          else if c = CHR ''}'' then map_option ((#) TCloseObj) (json_tokens t)
          else if c = CHR ''['' then map_option ((#) TOpenArr) (json_tokens t)
          else if c = CHR '']'' then map_option ((#) TCloseArr) (json_tokens t)
          else if c = CHR '':'' then map_option ((#) TColon) (json_tokens t)
          else if c = CHR '','' then map_option ((#) TComma) (json_tokens t)
          else if c = CHR 0x22 then
            (case lex_string t of
               None \<Rightarrow> None
             | Some (ps, r) \<Rightarrow> map_option ((#) (TLit (JStr (unquote ps [])))) (json_tokens r))
          else if strings_HasPrefix s ''true''
          then map_option ((#) (TLit (JBool True))) (json_tokens (drop 4 s))
          else if strings_HasPrefix s ''false''
          then map_option ((#) (TLit (JBool False))) (json_tokens (drop 5 s))
          else if strings_HasPrefix s ''null''
          then map_option ((#) (TLit JNull)) (json_tokens (drop 4 s))
          else if lex_number s \<noteq> []
          then map_option ((#) (TLit (JNum (lex_number s))))
                 (json_tokens (drop (length (lex_number s)) s))
          else None)"
  by pat_completeness auto
termination
  by (relation "measure length") (auto dest: lex_string_length simp: less_SucI)

declare json_tokens.simps [simp del]

section \<open>Documents\<close>

text \<open>
  The scanner keeps a stack of the arrays and objects it is in, at most 10000 of them; a frame
  holds what has been read of one, latest first, and for an object the key whose value comes next.
\<close>

datatype frame =
    InArr "json list"
  | InObj "(string \<times> json) list" string

definition maxNestingDepth :: nat where
  "maxNestingDepth = 10000"

fun parse_value :: "frame list \<Rightarrow> jtoken list \<Rightarrow> json option"
  and after_value :: "frame list \<Rightarrow> json \<Rightarrow> jtoken list \<Rightarrow> json option" where
  "parse_value st (TLit v # ts) = after_value st v ts"
| "parse_value st (TOpenArr # ts) =
     (if length st \<ge> maxNestingDepth then None
      else case ts of
             TCloseArr # us \<Rightarrow> after_value st (JArr []) us
           | _ \<Rightarrow> parse_value (InArr [] # st) ts)"
| "parse_value st (TOpenObj # ts) =
     (if length st \<ge> maxNestingDepth then None
      else case ts of
             TCloseObj # us \<Rightarrow> after_value st (JObj []) us
           | TLit (JStr k) # TColon # us \<Rightarrow> parse_value (InObj [] k # st) us
           | _ \<Rightarrow> None)"
| "parse_value st ts = None"
| "after_value [] v ts = (if ts = [] then Some v else None)"
| "after_value (InArr vs # st) v ts =
     (case ts of
        TComma # us \<Rightarrow> parse_value (InArr (v # vs) # st) us
      | TCloseArr # us \<Rightarrow> after_value st (JArr (rev (v # vs))) us
      | _ \<Rightarrow> None)"
| "after_value (InObj kvs k # st) v ts =
     (case ts of
        TComma # TLit (JStr k') # TColon # us \<Rightarrow> parse_value (InObj ((k, v) # kvs) k' # st) us
      | TCloseObj # us \<Rightarrow> after_value st (JObj (rev ((k, v) # kvs))) us
      | _ \<Rightarrow> None)"

definition json_parse :: "string \<Rightarrow> json option" where
  "json_parse s = Option.bind (json_tokens s) (parse_value [])"

section \<open>Targets\<close>

text \<open>
  Go compares the keys of a document with the name of a \<open>struct\<close> field without regard to case.
  For an ASCII name the code points that fold to one of its letters are the letter in either
  case, the long s (U+017F) and the Kelvin sign (U+212A).
\<close>

definition fold_rune :: "rune \<Rightarrow> rune" where
  "fold_rune r =
     (if 97 \<le> r \<and> r \<le> 122 then r - 32
      else if r = 0x17F then 83
      else if r = 0x212A then 75
      else r)"

definition json_key_matches :: "string \<Rightarrow> string \<Rightarrow> bool" where
  "json_key_matches name k \<longleftrightarrow>
     map (fold_rune \<circ> fst) (utf8_runes k) = map (fold_rune \<circ> fst) (utf8_runes name)"

lemma json_key_matches_refl [simp]: "json_key_matches name name"
  by (simp add: json_key_matches_def)

text \<open>
  \<open>json.Unmarshal\<close> into a \<open>struct\<close> with one field: every key that is the field's name, or equals
  it without regard to case, is stored in turn, so the last one decides; one value of the wrong
  type makes the whole call fail, whatever follows. \<open>store\<close> is what one value does to the field,
  \<open>None\<close> for a type error. A document that is \<open>null\<close> leaves the target as it was, any other one
  that is not an object is a type error.
\<close>

fun unmarshal_field ::
  "string \<Rightarrow> (json \<Rightarrow> 'f \<Rightarrow> 'f option) \<Rightarrow> (string \<times> json) list \<Rightarrow> 'f \<Rightarrow> 'f option" where
  "unmarshal_field name store [] f = Some f"
| "unmarshal_field name store ((k, v) # kvs) f =
     (if json_key_matches name k
      then Option.bind (store v f) (unmarshal_field name store kvs)
      else unmarshal_field name store kvs f)"

definition unmarshal_struct ::
  "string \<Rightarrow> (json \<Rightarrow> 'f \<Rightarrow> 'f option) \<Rightarrow> string \<Rightarrow> 'f \<Rightarrow> 'f option" where
  "unmarshal_struct name store body f =
     (case json_parse body of
        None \<Rightarrow> None
      | Some JNull \<Rightarrow> Some f
      | Some (JObj kvs) \<Rightarrow> unmarshal_field name store kvs f
      | Some _ \<Rightarrow> None)"

text \<open>The values of the keys that match, in the order of the document; they alone decide.\<close>

definition field_values :: "string \<Rightarrow> (string \<times> json) list \<Rightarrow> json list" where
  "field_values name kvs = map snd (filter (\<lambda>(k, v). json_key_matches name k) kvs)"

lemma field_values_snoc:
  "field_values name (kvs @ [(k, v)]) =
     field_values name kvs @ (if json_key_matches name k then [v] else [])"
  by (simp add: field_values_def)

lemma unmarshal_field_snoc:
  "unmarshal_field name store (kvs @ [(k, v)]) f =
     Option.bind (unmarshal_field name store kvs f)
       (\<lambda>g. if json_key_matches name k then store v g else Some g)"
proof (induction kvs arbitrary: f)
  case Nil
  then show ?case by (cases "store v f") auto
next
  case (Cons p kvs)
  then show ?case by (cases p; cases "store (snd p) f") auto
qed

subsection \<open>Numbers and interface values\<close>

text \<open>
  A \<open>float64\<close> that is finite is \<open>m * 2 ^ e\<close> for integers \<open>m\<close> and \<open>e\<close>; the two zeros, which Go's
  comparison and conversions do not tell apart, are one value here.
\<close>

datatype float64 = F64 (mantissa: int) (exponent: int)

text \<open>A ratio rounded to the nearest integer, ties to even.\<close>

definition round_even :: "nat \<Rightarrow> nat \<Rightarrow> nat" where
  "round_even n d =
     (let q = n div d; r = n mod d
      in if 2 * r < d then q else if d < 2 * r then Suc q else q + q mod 2)"

fun floor_log2 :: "nat \<Rightarrow> nat" where
  "floor_log2 n = (if n < 2 then 0 else Suc (floor_log2 (n div 2)))"

declare floor_log2.simps [simp del]

text \<open>
  \<open>num / den\<close> rounded to 53 bits: a first exponent puts the quotient between \<open>2 ^ 52\<close> and
  \<open>2 ^ 54\<close>, and the second is one more when the quotient has 54 bits; no exponent is below -1074.
  The result is \<open>None\<close> beyond the largest finite value.
\<close>

definition scale_ratio :: "nat \<Rightarrow> nat \<Rightarrow> int \<Rightarrow> nat \<times> nat" where
  "scale_ratio num den e =
     (if 0 \<le> e then (num, den * 2 ^ nat e) else (num * 2 ^ nat (- e), den))"

definition round_float :: "nat \<Rightarrow> nat \<Rightarrow> (nat \<times> int) option" where
  "round_float num den =
     (if num = 0 then Some (0, 0)
      else let e0 = int (floor_log2 num) - int (floor_log2 den) - 53;
               (a, b) = scale_ratio num den e0;
               e = max (if a div b < 2 ^ 53 then e0 else e0 + 1) (- 1074);
               (a', b') = scale_ratio num den e;
               m = round_even a' b'
           in if 971 < e \<or> (e = 971 \<and> 2 ^ 53 \<le> m) then None else Some (m, e))"

definition read_digits :: "string \<Rightarrow> nat" where
  "read_digits s = read_nat (filter is_digit s)"

text \<open>\<open>strconv.ParseFloat\<close> on the literal of a JSON number; \<open>None\<close> is the range error.\<close>

definition ParseFloat :: "string \<Rightarrow> float64 option" where
  "ParseFloat s =
     (let neg = strings_HasPrefix s ''-'';
          mant = takeWhile (\<lambda>c. c \<noteq> CHR ''e'' \<and> c \<noteq> CHR ''E'') s;
          ex = drop (Suc (length mant)) s;
          e10 = (if strings_HasPrefix ex ''-'' then - int (read_digits ex) else int (read_digits ex))
                - int (length (filter is_digit (dropWhile (\<lambda>c. c \<noteq> CHR ''.'') mant)));
          n = read_digits mant
      in map_option (\<lambda>(m, e). F64 (if neg then - int m else int m) e)
           (if 0 \<le> e10 then round_float (n * 10 ^ nat e10) 1
            else round_float n (10 ^ nat (- e10))))"

text \<open>The integer part, rounded towards zero as Go's conversion to an integer type does.\<close>

definition float_trunc :: "float64 \<Rightarrow> int" where
  "float_trunc f =
     (if 0 \<le> exponent f then mantissa f * 2 ^ nat (exponent f)
      else sgn (mantissa f) * (\<bar>mantissa f\<bar> div 2 ^ nat (- exponent f)))"

text \<open>
  What decoding stores in a variable of type \<open>any\<close>. A \<open>map[string]any\<close> is an association list
  with distinct keys: of a key that the document repeats, the last value stays.
\<close>

datatype any =
    AnyNil
  | AnyBool bool
  | AnyFloat float64
  | AnyString string
  | AnySlice "any list"
  | AnyMap "(string \<times> any) list"

definition last_bindings :: "(string \<times> 'v) list \<Rightarrow> (string \<times> 'v) list" where
  "last_bindings kvs = AList.clearjunk (rev kvs)"

fun interface_value :: "json \<Rightarrow> any option"
  and interface_values :: "json list \<Rightarrow> any list option"
  and interface_fields :: "(string \<times> json) list \<Rightarrow> (string \<times> any) list option" where
  "interface_value JNull = Some AnyNil"
| "interface_value (JBool b) = Some (AnyBool b)"
| "interface_value (JNum l) = map_option AnyFloat (ParseFloat l)"
| "interface_value (JStr s) = Some (AnyString s)"
| "interface_value (JArr vs) = map_option AnySlice (interface_values vs)"
| "interface_value (JObj kvs) = map_option (AnyMap \<circ> last_bindings) (interface_fields kvs)"
| "interface_values [] = Some []"
| "interface_values (v # vs) =
     Option.bind (interface_value v) (\<lambda>x. map_option ((#) x) (interface_values vs))"
| "interface_fields [] = Some []"
| "interface_fields ((k, v) # kvs) =
     Option.bind (interface_value v) (\<lambda>x. map_option ((#) (k, x)) (interface_fields kvs))"

text \<open>\<open>json.Unmarshal\<close> into a \<open>map[string]any\<close> that is \<open>nil\<close>.\<close>

definition unmarshal_map :: "string \<Rightarrow> (string \<rightharpoonup> any) option" where
  "unmarshal_map body =
     (case json_parse body of
        None \<Rightarrow> None
      | Some JNull \<Rightarrow> Some Map.empty
      | Some (JObj kvs) \<Rightarrow> map_option (map_of \<circ> last_bindings) (interface_fields kvs)
      | Some _ \<Rightarrow> None)"

lemma map_of_last_bindings: "map_of (last_bindings kvs) = map_of (rev kvs)"
  by (simp add: last_bindings_def map_of_clearjunk)

section \<open>Reading back what was written\<close>

subsection \<open>Code points delimit themselves\<close>

definition well_encoded :: "rune \<times> string \<Rightarrow> bool" where
  "well_encoded p \<longleftrightarrow>
     (\<exists>c. p = (of_char c, [c]) \<and> ascii c) \<or>
     (list_all (\<lambda>c. \<not> ascii c) (snd p) \<and> 2 \<le> length (snd p) \<and> utf8_EncodeRune (fst p) = snd p \<and>
      (\<forall>t. utf8_DecodeRune (snd p @ t) = (fst p, length (snd p))))"

definition bad_byte :: "rune \<times> string \<Rightarrow> bool" where
  "bad_byte p \<longleftrightarrow> fst p = 0xFFFD \<and> length (snd p) = 1"

lemma Decode_two: "valid2 c0 c1 \<Longrightarrow> utf8_DecodeRune (c0 # c1 # t) = (rune2 c0 c1, 2)"
  by (cases "c0 # c1 # t" rule: utf8_DecodeRune.cases) (auto dest: valid_high)

lemma Decode_three:
  "\<not> valid2 c0 c1 \<Longrightarrow> valid3 c0 c1 c2 \<Longrightarrow> utf8_DecodeRune (c0 # c1 # c2 # t) = (rune3 c0 c1 c2, 3)"
  by (cases "c0 # c1 # c2 # t" rule: utf8_DecodeRune.cases) (auto dest: valid_high)

lemma Decode_well:
  assumes "s \<noteq> []" and "utf8_DecodeRune s = (r, n)"
  shows "well_encoded (r, take n s) \<or> bad_byte (r, take n s)"
  using assms
  by (cases s rule: utf8_DecodeRune.cases)
    (auto simp: well_encoded_def bad_byte_def encode_two encode_three encode_four
      Decode_two Decode_three dest: valid_high split: if_splits)

lemma utf8_runes_shape: "p \<in> set (utf8_runes s) \<Longrightarrow> well_encoded p \<or> bad_byte p"
proof (induction s rule: utf8_runes.induct)
  case (1 s)
  show ?case
  proof (cases "s = []")
    case False
    obtain r n where rn: "utf8_DecodeRune s = (r, n)" by fastforce
    with False "1" Decode_well [OF False rn] show ?thesis by (auto simp: utf8_runes_step)
  qed (use "1" in simp)
qed

lemma utf8_runes_concat: "list_all well_encoded rs \<Longrightarrow> utf8_runes (concat (map snd rs)) = rs"
proof (induction rs)
  case (Cons p rs)
  then consider c where "p = (of_char c, [c])" "ascii c"
    | "2 \<le> length (snd p)" "utf8_DecodeRune (snd p @ concat (map snd rs)) = (fst p, length (snd p))"
    by (auto simp: well_encoded_def)
  then show ?case
  proof cases
    case 2
    with Cons show ?thesis by (subst utf8_runes_step) auto
  qed (use Cons in auto)
qed simp

lemma well_encoded_Encode: "well_encoded p \<Longrightarrow> utf8_EncodeRune (fst p) = snd p"
  by (auto simp: well_encoded_def utf8_EncodeRune_def ascii_def byte_in_def)

lemma coerce_utf8_valid: "utf8_Valid s \<Longrightarrow> coerce_utf8 s = s"
proof -
  assume "utf8_Valid s"
  then have "utf8_EncodeRune (fst p) = snd p" if "p \<in> set (utf8_runes s)" for p
    using utf8_runes_shape [OF that] that
    by (auto simp: utf8_Valid_def bad_byte_def list_all_iff well_encoded_Encode)
  then have "map (utf8_EncodeRune \<circ> fst) (utf8_runes s) = map snd (utf8_runes s)" by simp
  then show ?thesis by (simp only: coerce_utf8_def utf8_runes_bytes)
qed

subsection \<open>String literals\<close>

definition pieces_of :: "rune \<times> string \<Rightarrow> piece list" where
  "pieces_of p = (if json_escape_rune p = snd p then map PByte (snd p) else [PUnit (fst p)])"

lemma hexadecimal_digit: "d < 16 \<Longrightarrow> hexadecimal (hex_digit d) = d \<and> is_hex (hex_digit d)"
  using hex_digit_range [of d]
  by (auto simp: hexadecimal_def is_hex_def byte_in_def)

lemma lex_plain:
  assumes "list_all (\<lambda>c. \<not> ascii c) b"
  shows "lex_string (b @ t) = map_option (\<lambda>(ps, x). (map PByte b @ ps, x)) (lex_string t)"
  using assms
proof (induction b)
  case (Cons c b)
  then have "c \<noteq> CHR 0x22" "c \<noteq> CHR 0x5C" "\<not> of_char c < (0x20 :: nat)"
    by (auto simp: ascii_def byte_in_def)
  with Cons show ?case by (auto simp: option.map_comp comp_def case_prod_unfold)
qed (simp add: case_prod_unfold option.map_ident)

lemma lex_unicode:
  assumes "r < 0x100"
  shows "lex_string (CHR 0x5C # ''u00'' @ hex_byte r @ t) =
         map_option (\<lambda>(ps, x). (PUnit r # ps, x)) (lex_string t)"
proof -
  have "hexadecimal CHR ''0'' = 0" "is_hex CHR ''0''"
    by (simp_all add: hexadecimal_def is_hex_def byte_in_def hex_value_def)
  then show ?thesis
    using assms hexadecimal_digit [of "r div 16"] hexadecimal_digit [of "r mod 16"]
    by (simp add: hex_byte_def)
qed

lemma lex_escape_ascii:
  assumes "ascii c"
  shows "lex_string (json_escape_rune (of_char c, [c]) @ t) =
         map_option (\<lambda>(ps, x). (pieces_of (of_char c, [c]) @ ps, x)) (lex_string t)"
proof -
  define r where "r = (of_char c :: nat)"
  have r: "r < 0x80" "c = char_of r" using assms by (simp_all add: r_def ascii_def byte_in_def)
  consider "r \<in> {0x22, 0x5C, 8, 12, 10, 13, 9}"
    | "r \<notin> {0x22, 0x5C, 8, 12, 10, 13, 9}" "r < 0x20 \<or> r = 0x3C \<or> r = 0x3E \<or> r = 0x26"
    | "r \<notin> {0x22, 0x5C, 8, 12, 10, 13, 9}" "\<not> (r < 0x20 \<or> r = 0x3C \<or> r = 0x3E \<or> r = 0x26)"
    by blast
  then show ?thesis
  proof cases
    case 1
    have "char_of (34 :: nat) = CHR 0x22" "char_of (92 :: nat) = CHR 0x5C" by code_simp+
    with 1 have "lex_string (json_escape_rune (r, [char_of r]) @ t) =
        map_option (\<lambda>(ps, x). (pieces_of (r, [char_of r]) @ ps, x)) (lex_string t)"
      by (elim insertE emptyE) (simp_all add: json_escape_rune_def pieces_of_def)
    then show ?thesis by (simp add: r_def)
  next
    case 2
    then have "json_escape_rune (r, [c]) = CHR 0x5C # ''u00'' @ hex_byte r"
      using r by (auto simp: json_escape_rune_def)
    then show ?thesis
      using lex_unicode [of r t] r(1) by (simp add: r_def pieces_of_def)
  next
    case 3
    then have "json_escape_rune (r, [c]) = [c]" using r by (auto simp: json_escape_rune_def)
    moreover have "c \<noteq> CHR 0x22" "c \<noteq> CHR 0x5C" "\<not> of_char c < (0x20 :: nat)"
      using 3 by (auto simp: r_def)
    ultimately show ?thesis by (simp add: r_def pieces_of_def)
  qed
qed

lemma lex_escape:
  assumes "well_encoded p \<or> bad_byte p"
  shows "lex_string (json_escape_rune p @ t) =
         map_option (\<lambda>(ps, x). (pieces_of p @ ps, x)) (lex_string t)"
proof -
  obtain r b where p: "p = (r, b)" by fastforce
  have u: "lex_string (CHR 0x5C # ''ufffd'' @ t) = map_option (\<lambda>(ps, x). (PUnit 0xFFFD # ps, x)) (lex_string t)"
    "lex_string (CHR 0x5C # ''u2028'' @ t) = map_option (\<lambda>(ps, x). (PUnit 0x2028 # ps, x)) (lex_string t)"
    "lex_string (CHR 0x5C # ''u2029'' @ t) = map_option (\<lambda>(ps, x). (PUnit 0x2029 # ps, x)) (lex_string t)"
    by (simp_all add: is_hex_def hexadecimal_def hex_value_def byte_in_def)
  consider (ascii) c where "p = (of_char c, [c])" "ascii c"
    | (bad) "r = 0xFFFD" "length b = 1"
    | (high) "list_all (\<lambda>c. \<not> ascii c) b" "2 \<le> length b" "utf8_EncodeRune r = b"
    using assms by (auto simp: well_encoded_def bad_byte_def p)
  then show ?thesis
  proof cases
    case ascii
    then show ?thesis by (simp only: lex_escape_ascii)
  next
    case bad
    then have "json_escape_rune p = CHR 0x5C # ''ufffd''"
      by (simp add: p json_escape_rune_def)
    moreover from bad have "CHR 0x5C # ''ufffd'' \<noteq> b" by auto
    ultimately show ?thesis using u(1) bad by (simp add: p pieces_of_def)
  next
    case high
    have esc: "CHR 0x5C # x \<noteq> b" for x
      using high(1) by (auto simp: ascii_def byte_in_def)
    have "\<not> r < 0x80" using high(2,3) by (auto simp: utf8_EncodeRune_def split: if_splits)
    with high esc u(2,3) show ?thesis
      by (auto simp: p json_escape_rune_def pieces_of_def lex_plain simp del: lex_string.simps)
  qed
qed

lemma unquote_bytes: "unquote (map PByte b @ ps) run = unquote ps (rev b @ run)"
  by (induction b arbitrary: run) auto

lemma unquote_unit:
  "\<not> (0xD800 \<le> h \<and> h < 0xDC00) \<Longrightarrow>
   unquote (PUnit h # ps) run = coerce_utf8 (rev run) @ utf8_EncodeRune h @ unquote ps []"
  by (cases "(PUnit h # ps, run)" rule: unquote.cases) auto

lemma escaped_no_surrogate:
  assumes "well_encoded p \<or> bad_byte p" and "json_escape_rune p \<noteq> snd p"
  shows "\<not> (0xD800 \<le> fst p \<and> fst p < 0xDC00)"
  using assms
  by (auto simp: well_encoded_def bad_byte_def json_escape_rune_def case_prod_unfold
      ascii_def byte_in_def split: if_splits)

lemma raw_not_bad: "json_escape_rune p = snd p \<Longrightarrow> \<not> bad_byte p"
  by (auto simp: json_escape_rune_def bad_byte_def case_prod_unfold dest: arg_cong [where f = length])

lemma unquote_pieces:
  assumes "list_all (\<lambda>p. well_encoded p \<or> bad_byte p) rs" and "list_all well_encoded rs0"
  shows "unquote (concat (map pieces_of rs)) (rev (concat (map snd rs0))) =
         concat (map (utf8_EncodeRune \<circ> fst) (rs0 @ rs))"
  using assms
proof (induction rs arbitrary: rs0)
  case Nil
  then show ?case by (simp add: coerce_utf8_def utf8_runes_concat comp_def)
next
  case (Cons p rs)
  show ?case
  proof (cases "json_escape_rune p = snd p")
    case True
    with Cons.prems raw_not_bad have "list_all well_encoded (rs0 @ [p])" by auto
    from Cons.IH [OF _ this] Cons.prems True show ?thesis
      by (simp add: pieces_of_def unquote_bytes)
  next
    case False
    from Cons.prems have p: "well_encoded p \<or> bad_byte p" by simp
    from Cons.IH [of "[]"] Cons.prems escaped_no_surrogate [OF p False] False
    show ?thesis
      by (simp add: pieces_of_def unquote_unit coerce_utf8_def utf8_runes_concat comp_def)
  qed
qed

lemma lex_quoted:
  assumes "list_all (\<lambda>p. well_encoded p \<or> bad_byte p) rs"
  shows "lex_string (concat (map json_escape_rune rs) @ CHR 0x22 # t) =
         Some (concat (map pieces_of rs), t)"
  using assms by (induction rs) (simp_all add: lex_escape del: lex_string.simps, simp)

lemma json_tokens_quote:
  "json_tokens (json_quote s @ t) = map_option ((#) (TLit (JStr (coerce_utf8 s)))) (json_tokens t)"
proof -
  have rs: "list_all (\<lambda>p. well_encoded p \<or> bad_byte p) (utf8_runes s)"
    using utf8_runes_shape by (auto simp: list_all_iff)
  have "unquote (concat (map pieces_of (utf8_runes s))) [] = coerce_utf8 s"
    using unquote_pieces [OF rs, of "[]"] by (simp add: coerce_utf8_def)
  then show ?thesis
    by (simp add: json_quote_def json_tokens.simps [of "CHR 0x22 # _"] json_space_def
        lex_quoted [OF rs])
qed

subsection \<open>Bodies\<close>

text \<open>The document a body denotes; bytes that are not UTF-8 arrive as U+FFFD.\<close>

fun json_of :: "jbody \<Rightarrow> json" where
  "json_of (BStr s) = JStr (coerce_utf8 s)"
| "json_of (BObj fs) = JObj (map (\<lambda>(k, v). (coerce_utf8 k, json_of v)) fs)"

fun body_tokens :: "jbody \<Rightarrow> jtoken list"
  and field_tokens :: "(string \<times> jbody) list \<Rightarrow> jtoken list" where
  "body_tokens (BStr s) = [TLit (JStr (coerce_utf8 s))]"
| "body_tokens (BObj fs) = TOpenObj # field_tokens fs @ [TCloseObj]"
| "field_tokens [] = []"
| "field_tokens [(k, v)] = TLit (JStr (coerce_utf8 k)) # TColon # body_tokens v"
| "field_tokens ((k, v) # f # fs) =
     TLit (JStr (coerce_utf8 k)) # TColon # body_tokens v @ TComma # field_tokens (f # fs)"

fun body_depth :: "jbody \<Rightarrow> nat"
  and fields_depth :: "(string \<times> jbody) list \<Rightarrow> nat" where
  "body_depth (BStr s) = 0"
| "body_depth (BObj fs) = Suc (fields_depth fs)"
| "fields_depth [] = 0"
| "fields_depth ((k, v) # fs) = max (body_depth v) (fields_depth fs)"

lemma json_tokens_punct:
  "json_tokens (CHR ''{'' # t) = map_option ((#) TOpenObj) (json_tokens t)"
  "json_tokens (CHR ''}'' # t) = map_option ((#) TCloseObj) (json_tokens t)"
  "json_tokens (CHR '':'' # t) = map_option ((#) TColon) (json_tokens t)"
  "json_tokens (CHR '','' # t) = map_option ((#) TComma) (json_tokens t)"
  by (simp_all add: json_tokens.simps [of "_ # _"] json_space_def)

lemma append_fun: "((@) (x # xs)) = (\<lambda>ys. x # xs @ ys)" "((@) []) = (\<lambda>ys. ys)"
  by (simp_all add: fun_eq_iff)

lemma json_tokens_Marshal:
  "json_tokens (json_Marshal b @ t) = map_option ((@) (body_tokens b)) (json_tokens t)"
  "json_tokens (json_Marshal_fields fs @ t) = map_option ((@) (field_tokens fs)) (json_tokens t)"
proof (induction b and fs arbitrary: t and t rule: json_Marshal_json_Marshal_fields.induct)
qed (simp_all add: json_tokens_quote json_tokens_punct option.map_comp comp_def append_fun
    option.map_ident)

lemma parse_body:
  "length st + body_depth b \<le> maxNestingDepth \<Longrightarrow>
   parse_value st (body_tokens b @ ts) = after_value st (json_of b) ts"
  "f # fs = gs \<Longrightarrow> Suc (length st + fields_depth gs) \<le> maxNestingDepth \<Longrightarrow>
   parse_value (InObj kvs (coerce_utf8 (fst f)) # st) (tl (tl (field_tokens gs)) @ TCloseObj # ts) =
     after_value st (JObj (rev kvs @ map (\<lambda>(k, v). (coerce_utf8 k, json_of v)) gs)) ts"
proof (induction b and gs arbitrary: st ts and f fs kvs st ts
    rule: json_Marshal_json_Marshal_fields.induct)
  case (2 gs)
  show ?case
  proof (cases gs)
    case (Cons f fs)
    with "2.prems" "2.IH" [of f fs st "[]" ts] show ?thesis
      by (cases f; cases fs) auto
  qed (use "2.prems" in simp)
next
  case (5 k v g gs)
  then show ?case by (cases g; cases gs) auto
qed auto

lemma json_parse_Marshal:
  "body_depth b \<le> maxNestingDepth \<Longrightarrow> json_parse (json_Marshal b) = Some (json_of b)"
  using json_tokens_Marshal(1) [of b "[]"] parse_body(1) [of "[]" b "[]"]
  by (simp add: json_parse_def json_tokens.simps [of "[]"])

text \<open>ASCII strings, such as the field names of the program's bodies, are written as they are.\<close>

lemma coerce_utf8_ascii: "list_all ascii s \<Longrightarrow> coerce_utf8 s = s"
  by (simp add: coerce_utf8_valid utf8_Valid_ascii)

lemma coerce_field_names [simp]:
  "coerce_utf8 ''resource'' = ''resource''" "coerce_utf8 ''action'' = ''action''"
  "coerce_utf8 ''token'' = ''token''" "coerce_utf8 ''input'' = ''input''"
  "coerce_utf8 ''principal'' = ''principal''" "coerce_utf8 ''context'' = ''context''"
  by (rule coerce_utf8_ascii; simp add: ascii_def byte_in_def)+

declare json_Marshal.simps [simp del] json_Marshal_fields.simps [simp del]

end
