(* ===== verification/Go_URL.thy ===== *)
theory Go_URL
  imports Go_Encoding
begin

text \<open>
  \<open>url.Parse\<close> and \<open>URL.String\<close> of package \<open>net/url\<close> (Go 1.25), with which the endpoints complete the base
  URL they are given and with which \<open>http.NewRequest\<close> accepts or refuses a URL. Hosts with an opening
  bracket (IP literals) are validated by \<open>net/netip\<close>, in a way that differs between patch releases:
  what becomes of such a host is an argument. Strings are bytes, and every separator is a single
  byte.
\<close>

section \<open>Escaping\<close>

datatype url_mode = encodePath | encodeHost | encodeUserPassword | encodeFragment

definition url_alnum :: "char \<Rightarrow> bool" where
  "url_alnum c \<longleftrightarrow> byte_in 97 122 c \<or> byte_in 65 90 c \<or> byte_in 48 57 c"

definition shouldEscape :: "url_mode \<Rightarrow> char \<Rightarrow> bool" where
  "shouldEscape m c =
     (if url_alnum c then False
      else if m = encodeHost \<and> (c \<in> set ''!$&()*+,;=:[]<>'' \<or> c = CHR 0x27 \<or> c = CHR 0x22) then False
      else if c \<in> set ''-_.~'' then False
      else if c \<in> set ''$&+,/:;=?@'' \<and> m = encodePath then c = CHR ''?''
      else if c \<in> set ''$&+,/:;=?@'' \<and> m = encodeUserPassword then c \<in> set ''@/?:''
      else if c \<in> set ''$&+,/:;=?@'' \<and> m = encodeFragment then False
      else if m = encodeFragment \<and> c \<in> set ''!()*'' then False
      else True)"

definition escape_char :: "url_mode \<Rightarrow> char \<Rightarrow> string" where
  "escape_char m c =
     (if shouldEscape m c then [CHR ''%'', hex_upper (of_char c div 16), hex_upper (of_char c mod 16)]
      else [c])"

definition url_escape :: "url_mode \<Rightarrow> string \<Rightarrow> string" where
  "url_escape m s = concat (map (escape_char m) s)"

datatype url_error =
    InvalidControlCharacter
  | MissingProtocolScheme
  | ColonInFirstSegment
  | InvalidUserinfo
  | InvalidPort string
  | InvalidLiteral string
  | EscapeError string
  | InvalidHostError string

definition ishex :: "char \<Rightarrow> bool" where
  "ishex c \<longleftrightarrow> byte_in 48 57 c \<or> byte_in 97 102 c \<or> byte_in 65 70 c"

definition unhex :: "char \<Rightarrow> nat" where
  "unhex c =
     (if byte_in 48 57 c then of_char c - 48
      else if byte_in 97 102 c then of_char c - 87 else of_char c - 55)"

text \<open>
  In a host only bytes that are not ASCII may be escaped, and \<open>%25\<close>. The first offending position gives
  the error.
\<close>

definition escape_refused :: "url_mode \<Rightarrow> char \<Rightarrow> char \<Rightarrow> bool" where
  "escape_refused m a b \<longleftrightarrow> m = encodeHost \<and> unhex a < 8 \<and> [a, b] \<noteq> ''25''"

definition char_refused :: "url_mode \<Rightarrow> char \<Rightarrow> bool" where
  "char_refused m c \<longleftrightarrow> m = encodeHost \<and> ascii c \<and> shouldEscape m c"

fun url_unescape :: "url_mode \<Rightarrow> string \<Rightarrow> url_error + string" where
  "url_unescape m [] = Inr []"
| "url_unescape m (c # s) =
     (if c = CHR ''%'' then
        (case s of
           a # b # t \<Rightarrow>
             if \<not> ishex a \<or> \<not> ishex b \<or> escape_refused m a b then Inl (EscapeError [c, a, b])
             else map_sum id (Cons (char_of (16 * unhex a + unhex b))) (url_unescape m t)
         | _ \<Rightarrow> Inl (EscapeError (c # s)))
      else if char_refused m c then Inl (InvalidHostError [c])
      else map_sum id (Cons c) (url_unescape m s))"

section \<open>The structure \<open>URL\<close>\<close>

text \<open>The user is its name and, if one was set, its password.\<close>

record URL =
  url_Scheme :: string
  url_Opaque :: string
  url_User :: "(string \<times> string option) option"
  url_Host :: string
  url_Path :: string
  url_RawPath :: string
  url_OmitHost :: bool
  url_ForceQuery :: bool
  url_RawQuery :: string
  url_Fragment :: string
  url_RawFragment :: string

definition new_URL :: URL where
  "new_URL = \<lparr>url_Scheme = [], url_Opaque = [], url_User = None, url_Host = [], url_Path = [],
     url_RawPath = [], url_OmitHost = False, url_ForceQuery = False, url_RawQuery = [],
     url_Fragment = [], url_RawFragment = []\<rparr>"

section \<open>Parsing\<close>

text \<open>\<open>strings.Cut\<close> at the first, and a cut at the last occurrence of a byte.\<close>

definition cut_at :: "char \<Rightarrow> string \<Rightarrow> string \<times> string" where
  "cut_at c s = (takeWhile (\<lambda>x. x \<noteq> c) s, tl (dropWhile (\<lambda>x. x \<noteq> c) s))"

definition cut_last :: "char \<Rightarrow> string \<Rightarrow> (string \<times> string) option" where
  "cut_last c s =
     (if c \<in> set s
      then Some (rev (tl (dropWhile (\<lambda>x. x \<noteq> c) (rev s))), rev (takeWhile (\<lambda>x. x \<noteq> c) (rev s)))
      else None)"

definition ctl_byte :: "char \<Rightarrow> bool" where
  "ctl_byte c \<longleftrightarrow> of_char c < (32 :: nat) \<or> of_char c = (127 :: nat)"

fun getScheme :: "string \<Rightarrow> string \<Rightarrow> url_error + string \<times> string" where
  "getScheme seen [] = Inr ([], seen)"
| "getScheme seen (c # s) =
     (if byte_in 97 122 c \<or> byte_in 65 90 c then getScheme (seen @ [c]) s
      else if byte_in 48 57 c \<or> c \<in> set ''+-.'' then
        (if seen = [] then Inr ([], c # s) else getScheme (seen @ [c]) s)
      else if c = CHR '':'' then
        (if seen = [] then Inl MissingProtocolScheme else Inr (seen, s))
      else Inr ([], seen @ c # s))"

definition validOptionalPort :: "string \<Rightarrow> bool" where
  "validOptionalPort port \<longleftrightarrow> port = [] \<or> hd port = CHR '':'' \<and> list_all (byte_in 48 57) (tl port)"

definition validUserinfo :: "string \<Rightarrow> bool" where
  "validUserinfo s \<longleftrightarrow>
     list_all (\<lambda>c. url_alnum c \<or> c \<in> set ''-._:~!$&()*+,;=%@'' \<or> c = CHR 0x27) s"

definition parseHost :: "(string \<Rightarrow> url_error + string) \<Rightarrow> string \<Rightarrow> url_error + string" where
  "parseHost literal host =
     (if CHR ''['' \<in> set host then literal host
      else case cut_last CHR '':'' host of
          Some (_, port) \<Rightarrow>
            if \<not> validOptionalPort (CHR '':'' # port) then Inl (InvalidPort (CHR '':'' # port))
            else url_unescape encodeHost host
        | None \<Rightarrow> url_unescape encodeHost host)"

definition parseUser :: "string \<Rightarrow> url_error + string \<times> string option" where
  "parseUser userinfo =
     (if \<not> validUserinfo userinfo then Inl InvalidUserinfo
      else if CHR '':'' \<notin> set userinfo
      then map_sum id (\<lambda>u. (u, None)) (url_unescape encodeUserPassword userinfo)
      else (let (username, password) = cut_at CHR '':'' userinfo
            in case url_unescape encodeUserPassword username of
                Inl e \<Rightarrow> Inl e
              | Inr u \<Rightarrow> map_sum id (\<lambda>p. (u, Some p)) (url_unescape encodeUserPassword password)))"

definition parseAuthority ::
  "(string \<Rightarrow> url_error + string) \<Rightarrow> string \<Rightarrow> url_error + (string \<times> string option) option \<times> string" where
  "parseAuthority literal authority =
     (case cut_last CHR ''@'' authority of
        None \<Rightarrow> map_sum id (Pair None) (parseHost literal authority)
      | Some (userinfo, host) \<Rightarrow>
          (case parseHost literal host of
             Inl e \<Rightarrow> Inl e
           | Inr h \<Rightarrow> map_sum id (\<lambda>u. (Some u, h)) (parseUser userinfo)))"

definition setPath :: "string \<Rightarrow> URL \<Rightarrow> url_error + URL" where
  "setPath p u =
     map_sum id (\<lambda>path. u\<lparr>url_Path := path,
         url_RawPath := (if p = url_escape encodePath path then [] else p)\<rparr>)
       (url_unescape encodePath p)"

definition setFragment :: "string \<Rightarrow> URL \<Rightarrow> url_error + URL" where
  "setFragment f u =
     map_sum id (\<lambda>frag. u\<lparr>url_Fragment := frag,
         url_RawFragment := (if f = url_escape encodeFragment frag then [] else f)\<rparr>)
       (url_unescape encodeFragment f)"

text \<open>Splitting off the query: a single question mark at the end only sets a flag.\<close>

definition cut_query :: "string \<Rightarrow> URL \<Rightarrow> string \<times> URL" where
  "cut_query rest u =
     (if strings_HasSuffix rest ''?'' \<and> count_list rest CHR ''?'' = 1
      then (butlast rest, u\<lparr>url_ForceQuery := True\<rparr>)
      else (fst (cut_at CHR ''?'' rest), u\<lparr>url_RawQuery := snd (cut_at CHR ''?'' rest)\<rparr>))"

definition parse_rest :: "(string \<Rightarrow> url_error + string) \<Rightarrow> string \<Rightarrow> URL \<Rightarrow> url_error + URL" where
  "parse_rest literal rest u =
     (if \<not> strings_HasPrefix rest ''/'' \<and> url_Scheme u \<noteq> [] then Inr (u\<lparr>url_Opaque := rest\<rparr>)
      else if \<not> strings_HasPrefix rest ''/'' \<and> CHR '':'' \<in> set (fst (cut_at CHR ''/'' rest))
      then Inl ColonInFirstSegment
      else if (url_Scheme u \<noteq> [] \<or> \<not> strings_HasPrefix rest ''///'') \<and> strings_HasPrefix rest ''//''
      then (let authority = drop 2 rest
            in case parseAuthority literal (takeWhile (\<lambda>c. c \<noteq> CHR ''/'') authority) of
                Inl e \<Rightarrow> Inl e
              | Inr (user, host) \<Rightarrow>
                  setPath (dropWhile (\<lambda>c. c \<noteq> CHR ''/'') authority) (u\<lparr>url_User := user, url_Host := host\<rparr>))
      else setPath rest
        (if url_Scheme u \<noteq> [] \<and> strings_HasPrefix rest ''/'' then u\<lparr>url_OmitHost := True\<rparr> else u))"

definition parse_url :: "(string \<Rightarrow> url_error + string) \<Rightarrow> string \<Rightarrow> url_error + URL" where
  "parse_url literal rawURL =
     (if list_ex ctl_byte rawURL then Inl InvalidControlCharacter
      else if rawURL = ''*'' then Inr (new_URL\<lparr>url_Path := ''*''\<rparr>)
      else case getScheme [] rawURL of
          Inl e \<Rightarrow> Inl e
        | Inr (scheme, rest) \<Rightarrow>
            (let (rest, u) = cut_query rest (new_URL\<lparr>url_Scheme := map ascii_lower scheme\<rparr>)
             in parse_rest literal rest u))"

text \<open>The error of \<open>url.Parse\<close> also names the URL: without the fragment, unless the fragment is at fault.\<close>

definition url_Parse :: "(string \<Rightarrow> url_error + string) \<Rightarrow> string \<Rightarrow> (string \<times> url_error) + URL" where
  "url_Parse literal rawURL =
     (let (u, frag) = cut_at CHR ''#'' rawURL
      in case parse_url literal u of
          Inl e \<Rightarrow> Inl (u, e)
        | Inr url \<Rightarrow>
            if frag = [] then Inr url
            else case setFragment frag url of Inl e \<Rightarrow> Inl (rawURL, e) | Inr url \<Rightarrow> Inr url)"

section \<open>Printing\<close>

definition validEncoded :: "url_mode \<Rightarrow> string \<Rightarrow> bool" where
  "validEncoded m s \<longleftrightarrow>
     list_all (\<lambda>c. c \<in> set ''!$&()*+,;=:@[]%'' \<or> c = CHR 0x27 \<or> \<not> shouldEscape m c) s"

definition EscapedPath :: "URL \<Rightarrow> string" where
  "EscapedPath u =
     (if url_RawPath u \<noteq> [] \<and> validEncoded encodePath (url_RawPath u) \<and>
        url_unescape encodePath (url_RawPath u) = Inr (url_Path u) then url_RawPath u
      else if url_Path u = ''*'' then ''*''
      else url_escape encodePath (url_Path u))"

definition EscapedFragment :: "URL \<Rightarrow> string" where
  "EscapedFragment u =
     (if url_RawFragment u \<noteq> [] \<and> validEncoded encodeFragment (url_RawFragment u) \<and>
        url_unescape encodeFragment (url_RawFragment u) = Inr (url_Fragment u) then url_RawFragment u
      else url_escape encodeFragment (url_Fragment u))"

definition Userinfo_String :: "string \<times> string option \<Rightarrow> string" where
  "Userinfo_String ui =
     (case ui of (username, password) \<Rightarrow>
        if username \<noteq> [] \<or> (password \<noteq> None \<and> password \<noteq> Some [])
        then url_escape encodeUserPassword username @
          (case password of None \<Rightarrow> [] | Some p \<Rightarrow> CHR '':'' # url_escape encodeUserPassword p)
        else [])"

definition url_authority :: "URL \<Rightarrow> string" where
  "url_authority u =
     (if (url_Scheme u \<noteq> [] \<or> url_Host u \<noteq> [] \<or> url_User u \<noteq> None) \<and>
        \<not> (url_OmitHost u \<and> url_Host u = [] \<and> url_User u = None)
      then (if url_Host u \<noteq> [] \<or> url_Path u \<noteq> [] \<or> url_User u \<noteq> None then ''//'' else []) @
        (case url_User u of None \<Rightarrow> [] | Some ui \<Rightarrow> Userinfo_String ui @ ''@'') @
        url_escape encodeHost (url_Host u)
      else [])"

definition url_hierarchy :: "URL \<Rightarrow> string" where
  "url_hierarchy u =
     (let scheme = (if url_Scheme u \<noteq> [] then url_Scheme u @ '':'' else []);
          front = scheme @ url_authority u;
          path = EscapedPath u;
          front = (if path \<noteq> [] \<and> hd path \<noteq> CHR ''/'' \<and> url_Host u \<noteq> [] then front @ ''/'' else front);
          front = (if front = [] \<and> CHR '':'' \<in> set (fst (cut_at CHR ''/'' path)) then ''./'' else front)
      in front @ path)"

definition url_String :: "URL \<Rightarrow> string" where
  "url_String u =
     (if url_Opaque u \<noteq> []
      then (if url_Scheme u \<noteq> [] then url_Scheme u @ '':'' else []) @ url_Opaque u
      else url_hierarchy u) @
     (if url_ForceQuery u \<or> url_RawQuery u \<noteq> [] then CHR ''?'' # url_RawQuery u else []) @
     (if url_Fragment u \<noteq> [] then CHR ''#'' # EscapedFragment u else [])"

section \<open>Escaping and unescaping\<close>

lemma map_sum_Inr_iff: "map_sum id f x = Inr y \<longleftrightarrow> (\<exists>z. x = Inr z \<and> y = f z)"
  by (cases x) auto

lemma unhex_upper [simp]: "d < 16 \<Longrightarrow> unhex (hex_upper d) = d"
  by (auto simp: unhex_def hex_upper_def byte_in_def)

lemma ishex_upper [simp]: "d < 16 \<Longrightarrow> ishex (hex_upper d)"
  using hex_upper_range by (auto simp: ishex_def)

lemma url_alnum_hex_upper [simp]: "d < 16 \<Longrightarrow> url_alnum (hex_upper d)"
  using hex_upper_range [of d] by (auto simp: url_alnum_def byte_in_def)

lemma of_char_mod_16 [simp]: "(of_char c :: nat) mod 16 < 16"
  by simp

lemma char_of_nibbles [simp]: "char_of (16 * (of_char c div 16) + of_char c mod 16 :: nat) = c"
  by (simp only: mult_div_mod_eq char_of_char)

lemma shouldEscape_percent [simp]: "shouldEscape m CHR ''%''"
  by (cases m) (simp_all add: shouldEscape_def url_alnum_def byte_in_def)

text \<open>A byte that printing and reading back as part of a component keeps.\<close>

definition url_keeps :: "url_mode \<Rightarrow> char \<Rightarrow> bool" where
  "url_keeps m c \<longleftrightarrow> m = encodeHost \<longrightarrow> \<not> ascii c \<or> c = CHR ''%'' \<or> \<not> shouldEscape m c"

lemma not_ascii_nibble: "\<not> ascii c \<Longrightarrow> 8 \<le> (of_char c :: nat) div 16"
  by (simp add: ascii_def byte_in_def)

lemma url_unescape_escape_char:
  assumes "url_keeps m c"
  shows "url_unescape m (escape_char m c @ s) = map_sum id (Cons c) (url_unescape m s)"
proof (cases "shouldEscape m c")
  case True
  have p: "hex_upper (of_char CHR ''%'' div 16) = CHR ''2''" "hex_upper (of_char CHR ''%'' mod 16) = CHR ''5''"
    by (simp_all add: hex_upper_def char_of_byte [of "CHR ''2''"] char_of_byte [of "CHR ''5''"])
  have "\<not> escape_refused m (hex_upper (of_char c div 16)) (hex_upper (of_char c mod 16))"
    using assms True not_ascii_nibble [of c] p by (auto simp: escape_refused_def url_keeps_def)
  with True show ?thesis by (simp add: escape_char_def)
next
  case False
  then have "c \<noteq> CHR ''%''" by auto
  with False show ?thesis by (simp add: escape_char_def char_refused_def)
qed

lemma url_unescape_escape:
  "list_all (url_keeps m) s \<Longrightarrow> url_unescape m (url_escape m s) = Inr s"
  by (induction s) (simp_all add: url_escape_def url_unescape_escape_char)

lemma keeps_all: "m \<noteq> encodeHost \<Longrightarrow> list_all (url_keeps m) s"
  by (simp add: url_keeps_def list_all_iff)

lemma set_escape:
  "c \<in> set (url_escape m s) \<Longrightarrow> c = CHR ''%'' \<or> url_alnum c \<or> c \<in> set s \<and> \<not> shouldEscape m c"
  by (auto simp: url_escape_def escape_char_def split: if_splits)

lemma escape_absent:
  assumes "shouldEscape m c" "\<not> url_alnum c" "c \<noteq> CHR ''%''"
  shows "c \<notin> set (url_escape m s)"
  using set_escape [of c m s] assms by auto

lemma escape_append: "url_escape m (s @ t) = url_escape m s @ url_escape m t"
  by (simp add: url_escape_def)

lemma escape_Cons: "url_escape m (c # s) = escape_char m c @ url_escape m s"
  by (simp add: url_escape_def)

lemma escape_empty [simp]: "url_escape m s = [] \<longleftrightarrow> s = []"
  by (cases s) (simp_all add: url_escape_def escape_char_def)

lemma escape_safe: "list_all (\<lambda>c. \<not> shouldEscape m c) s \<Longrightarrow> url_escape m s = s"
  by (induction s) (simp_all add: url_escape_def escape_char_def)

lemma ctl_escaped:
  assumes "ctl_byte c"
  shows "shouldEscape m c"
proof -
  have "c \<notin> set ''!$&()*+,;=:[]<>'' \<and> c \<noteq> CHR 0x27 \<and> c \<noteq> CHR 0x22 \<and> c \<notin> set ''-_.~'' \<and> c \<notin> set ''$&+,/:;=?@''"
    using assms by (auto simp: ctl_byte_def)
  moreover have "c \<notin> set ''!()*''" "\<not> url_alnum c"
    using assms by (auto simp: ctl_byte_def url_alnum_def byte_in_def)
  ultimately show ?thesis unfolding shouldEscape_def by presburger
qed

lemma ctl_plain: "ctl_byte c \<Longrightarrow> \<not> url_alnum c \<and> c \<noteq> CHR ''%''"
  by (auto simp: ctl_byte_def url_alnum_def byte_in_def)

lemma escape_no_ctl: "\<not> list_ex ctl_byte (url_escape m s)"
  using escape_absent ctl_escaped ctl_plain by (fastforce simp: list_ex_iff)

text \<open>What unescaping a host can yield: bytes of the text, a percent sign, and bytes that are not ASCII.\<close>

lemma escaped_host_byte:
  assumes "ishex a" "ishex b" "\<not> escape_refused encodeHost a b"
  defines "v \<equiv> char_of (16 * unhex a + unhex b) :: char"
  shows "\<not> ascii v \<or> v = CHR ''%''"
proof (cases "[a, b] = ''25''")
  case True
  then have "v = CHR ''%''" by (simp add: v_def unhex_def byte_in_def char_of_byte [of "CHR ''%''"])
  then show ?thesis by simp
next
  case False
  with assms(3) have "8 \<le> unhex a" by (auto simp: escape_refused_def)
  moreover have "unhex a < 16" "unhex b < 16" using assms(1,2) by (auto simp: unhex_def ishex_def byte_in_def)
  ultimately show ?thesis by (simp add: v_def ascii_def byte_in_def)
qed

lemma unescape_host_keeps: "url_unescape encodeHost s = Inr h \<Longrightarrow> list_all (url_keeps encodeHost) h"
proof (induction encodeHost s arbitrary: h rule: url_unescape.induct)
  case (2 c s)
  show ?case
  proof (cases "c = CHR ''%''")
    case True
    with 2(3) obtain a b t z where s: "s = a # b # t" "ishex a" "ishex b" "\<not> escape_refused encodeHost a b"
      "url_unescape encodeHost t = Inr z" "h = char_of (16 * unhex a + unhex b) # z"
      by (auto simp: map_sum_Inr_iff split: list.splits if_splits)
    from 2(1) [OF True s(1) refl] escaped_host_byte [OF s(2-4)] s show ?thesis by (auto simp: url_keeps_def)
  next
    case False
    with 2(3) obtain z where "url_unescape encodeHost s = Inr z" "h = c # z" "\<not> char_refused encodeHost c"
      by (auto simp: map_sum_Inr_iff split: if_splits)
    with 2(2) False show ?thesis by (auto simp: url_keeps_def char_refused_def)
  qed
qed simp

lemma unescape_ascii_subset:
  assumes "url_unescape encodeHost s = Inr h" "c \<in> set h" "ascii c" "c \<noteq> CHR ''%''"
  shows "c \<in> set s"
  using assms
proof (induction encodeHost s arbitrary: h rule: url_unescape.induct)
  case (2 d s)
  show ?case
  proof (cases "d = CHR ''%''")
    case True
    with 2(3) obtain a b t z where s: "s = a # b # t" "ishex a" "ishex b" "\<not> escape_refused encodeHost a b"
      "url_unescape encodeHost t = Inr z" "h = char_of (16 * unhex a + unhex b) # z"
      by (auto simp: map_sum_Inr_iff split: list.splits if_splits)
    have "c \<noteq> char_of (16 * unhex a + unhex b)"
      using 2(5,6) escaped_host_byte [OF s(2-4)] by auto
    with 2(1) [OF True s(1) refl] s 2(4-6) show ?thesis by auto
  next
    case False
    with 2(3) obtain z where "url_unescape encodeHost s = Inr z" "h = d # z" "\<not> char_refused encodeHost d"
      by (auto simp: map_sum_Inr_iff split: if_splits)
    with 2(2) False 2(4-6) show ?thesis by (auto simp: char_refused_def)
  qed
qed simp

text \<open>Unescaping stops neither before nor across a byte that is no hexadecimal digit.\<close>

lemma unescape_split:
  assumes "url_unescape m (a @ c # b) = Inr h" "\<not> ishex c" "c \<noteq> CHR ''%''"
  shows "\<exists>x y. h = x @ c # y \<and> url_unescape m a = Inr x \<and> url_unescape m b = Inr y"
  using assms
proof (induction m a arbitrary: h rule: url_unescape.induct)
  case (1 m)
  then show ?case by (auto simp: map_sum_Inr_iff split: if_splits)
next
  case (2 m d s)
  show ?case
  proof (cases "d = CHR ''%''")
    case True
    with 2(3,4,5) obtain p q t where s: "s = p # q # t"
      by (cases s rule: remdups_adj.cases) (auto split: if_splits list.splits)
    with True 2(3) obtain z where "ishex p" "ishex q" "\<not> escape_refused m p q"
      "url_unescape m (t @ c # b) = Inr z" "h = char_of (16 * unhex p + unhex q) # z"
      by (auto simp: map_sum_Inr_iff split: if_splits)
    with 2(1) [OF True s refl _ this(4) 2(4,5)] True s show ?thesis by (force simp: map_sum_Inr_iff)
  next
    case False
    with 2(3) obtain z where "url_unescape m (s @ c # b) = Inr z" "h = d # z" "\<not> char_refused m d"
      by (auto simp: map_sum_Inr_iff split: if_splits)
    with 2(2) [OF False _ this(1) 2(4,5)] False show ?thesis by (force simp: map_sum_Inr_iff)
  qed
qed

lemma unescape_plain:
  "CHR ''%'' \<notin> set s \<Longrightarrow> \<not> list_ex (char_refused m) s \<Longrightarrow> url_unescape m s = Inr s"
  by (induction s) auto

lemma digit_plain: "byte_in 48 57 c \<Longrightarrow> c \<noteq> CHR ''%'' \<and> \<not> shouldEscape m c \<and> c \<noteq> CHR '':''"
  by (auto simp: byte_in_def shouldEscape_def url_alnum_def)

lemma unescape_digits: "list_all (byte_in 48 57) s \<Longrightarrow> url_unescape m s = Inr s"
  using digit_plain by (intro unescape_plain) (auto simp: list_all_iff list_ex_iff char_refused_def)

section \<open>Cutting\<close>

lemma cut_at_split [simp]: "c \<notin> set a \<Longrightarrow> cut_at c (a @ c # b) = (a, b)"
  by (induction a) (auto simp: cut_at_def)

lemma cut_at_absent [simp]: "c \<notin> set a \<Longrightarrow> cut_at c a = (a, [])"
  by (induction a) (auto simp: cut_at_def)

lemma cut_at_cases:
  obtains "c \<notin> set s" "cut_at c s = (s, [])" | a b where "s = a @ c # b" "c \<notin> set a" "cut_at c s = (a, b)"
  by (cases "c \<in> set s") (auto dest: split_list_first)

lemma cut_last_absent [simp]: "c \<notin> set s \<Longrightarrow> cut_last c s = None"
  by (simp add: cut_last_def)

lemma cut_last_split [simp]:
  assumes "c \<notin> set b"
  shows "cut_last c (a @ c # b) = Some (a, b)"
proof -
  have "takeWhile (\<lambda>x. x \<noteq> c) (rev b @ c # rev a) = rev b"
    "dropWhile (\<lambda>x. x \<noteq> c) (rev b @ c # rev a) = c # rev a"
    using assms by (auto simp: takeWhile_append dropWhile_append)
  then show ?thesis by (simp add: cut_last_def)
qed

lemma cut_last_cases:
  obtains "c \<notin> set s" "cut_last c s = None" | a b where "s = a @ c # b" "c \<notin> set b" "cut_last c s = Some (a, b)"
  by (cases "c \<in> set s") (auto dest: split_list_last)

section \<open>Authorities\<close>

text \<open>A host as parsing leaves it: what follows its last colon is a number.\<close>

definition host_parsed :: "string \<Rightarrow> bool" where
  "host_parsed h \<longleftrightarrow>
     list_all (url_keeps encodeHost) h \<and> CHR ''['' \<notin> set h \<and>
     (case cut_last CHR '':'' h of None \<Rightarrow> True | Some (_, p) \<Rightarrow> list_all (byte_in 48 57) p)"

lemma colon_plain: "\<not> ishex CHR '':''" "\<not> shouldEscape encodeHost CHR '':''" "ascii CHR '':''"
  by (simp_all add: ishex_def shouldEscape_def ascii_def byte_in_def)

lemma parseHost_parsed:
  assumes "parseHost literal s = Inr h" "CHR ''['' \<notin> set s"
  shows "host_parsed h"
proof -
  have un: "url_unescape encodeHost s = Inr h"
    using assms by (auto simp: parseHost_def split: option.splits if_splits)
  have keep: "list_all (url_keeps encodeHost) h" by (rule unescape_host_keeps [OF un])
  have "CHR ''['' \<notin> set h"
    using unescape_ascii_subset [OF un, of "CHR ''[''"] assms(2) by (auto simp: ascii_def byte_in_def)
  moreover have "case cut_last CHR '':'' h of None \<Rightarrow> True | Some (_, p) \<Rightarrow> list_all (byte_in 48 57) p"
  proof (cases rule: cut_last_cases [of "CHR '':''" s])
    case 1
    then have "CHR '':'' \<notin> set h"
      using unescape_ascii_subset [OF un, of "CHR '':''"] colon_plain(3) by auto
    then show ?thesis by simp
  next
    case (2 a p)
    with assms have d: "list_all (byte_in 48 57) p"
      by (auto simp: parseHost_def validOptionalPort_def split: if_splits)
    from un 2(1) unescape_split [of encodeHost a "CHR '':''" p h] colon_plain(1)
    obtain x y where "h = x @ CHR '':'' # y" "url_unescape encodeHost p = Inr y" by auto
    with d 2(2) show ?thesis by (simp add: unescape_digits)
  qed
  ultimately show ?thesis using keep by (simp add: host_parsed_def)
qed

lemma parseHost_escape:
  assumes "host_parsed h"
  shows "parseHost literal (url_escape encodeHost h) = Inr h"
proof -
  have un: "url_unescape encodeHost (url_escape encodeHost h) = Inr h"
    using assms by (intro url_unescape_escape) (simp add: host_parsed_def)
  have "CHR ''['' \<notin> set (url_escape encodeHost h)"
    using set_escape [of "CHR ''[''" encodeHost h] assms by (auto simp: host_parsed_def url_alnum_def byte_in_def)
  moreover have "case cut_last CHR '':'' (url_escape encodeHost h) of
      None \<Rightarrow> True | Some (_, p) \<Rightarrow> list_all (byte_in 48 57) p"
  proof (cases rule: cut_last_cases [of "CHR '':''" h])
    case 1
    then have "CHR '':'' \<notin> set (url_escape encodeHost h)"
      using set_escape [of "CHR '':''" encodeHost h] by (auto simp: url_alnum_def byte_in_def)
    then show ?thesis by simp
  next
    case (2 a p)
    then have d: "list_all (byte_in 48 57) p" using assms by (simp add: host_parsed_def)
    then have p: "url_escape encodeHost p = p"
      using digit_plain by (intro escape_safe) (auto simp: list_all_iff)
    have "url_escape encodeHost h = url_escape encodeHost a @ CHR '':'' # p"
      using 2 colon_plain(2) by (simp add: escape_append escape_Cons p escape_char_def)
    with d 2(2) show ?thesis by simp
  qed
  ultimately show ?thesis
    using un by (auto simp: parseHost_def validOptionalPort_def split: option.splits prod.splits)
qed

lemma escaped_user_chars:
  assumes "c \<in> set (url_escape encodeUserPassword s)"
  shows "url_alnum c \<or> c \<in> set ''-._~$&+,;=%''"
  using set_escape [OF assms] by (auto simp: shouldEscape_def split: if_splits)

lemma user_separators:
  "CHR '':'' \<notin> set (url_escape encodeUserPassword s)" "CHR ''@'' \<notin> set (url_escape encodeUserPassword s)"
  "CHR ''/'' \<notin> set (url_escape encodeUserPassword s)" "CHR ''?'' \<notin> set (url_escape encodeUserPassword s)"
  "CHR ''#'' \<notin> set (url_escape encodeUserPassword s)"
  using escaped_user_chars [of _ s] by (fastforce simp: url_alnum_def byte_in_def)+

lemma parseUser_String: "\<exists>u. parseUser (Userinfo_String ui) = Inr u"
proof -
  obtain n p where ui: "ui = (n, p)" by (cases ui)
  have v: "validUserinfo (url_escape encodeUserPassword s)" for s
    using escaped_user_chars [of _ s] by (fastforce simp: validUserinfo_def list_all_iff)
  note un = url_unescape_escape [OF keeps_all, of encodeUserPassword]
  show ?thesis
    using v [of n] v user_separators(1)
    by (cases p) (auto simp: ui Userinfo_String_def parseUser_def un validUserinfo_def)
qed

text \<open>What printing puts between the slashes of the authority and the path.\<close>

definition print_authority :: "(string \<times> string option) option \<Rightarrow> string \<Rightarrow> string" where
  "print_authority user h =
     (case user of None \<Rightarrow> [] | Some ui \<Rightarrow> Userinfo_String ui @ ''@'') @ url_escape encodeHost h"

lemma separator_escaped:
  "shouldEscape encodeHost CHR ''@''" "shouldEscape encodeHost CHR ''/''" "shouldEscape encodeHost CHR ''?''"
  "shouldEscape encodeHost CHR ''#''" "shouldEscape encodePath CHR ''?''" "shouldEscape encodePath CHR ''#''"
  "shouldEscape encodeFragment CHR ''#''" "\<not> shouldEscape encodePath CHR ''/''"
  by (simp_all add: shouldEscape_def url_alnum_def byte_in_def)

lemma separator_not_alnum:
  "\<not> url_alnum CHR ''@''" "\<not> url_alnum CHR ''/''" "\<not> url_alnum CHR ''?''" "\<not> url_alnum CHR ''#''"
  by (simp_all add: url_alnum_def byte_in_def)

lemma host_separators:
  assumes "c \<in> set ''@/?#''"
  shows "c \<notin> set (url_escape encodeHost h)"
proof -
  have "shouldEscape encodeHost c \<and> \<not> url_alnum c \<and> c \<noteq> CHR ''%''"
    using assms separator_escaped(1-4) separator_not_alnum by auto
  then show ?thesis by (intro escape_absent) auto
qed

lemma path_separators: "CHR ''?'' \<notin> set (url_escape encodePath s)" "CHR ''#'' \<notin> set (url_escape encodePath s)"
  using separator_escaped(5,6) separator_not_alnum by (simp_all add: escape_absent)

lemma parseAuthority_print:
  assumes "host_parsed h"
  shows "\<exists>u. parseAuthority literal (print_authority user h) = Inr (u, h)"
proof -
  have at: "CHR ''@'' \<notin> set (url_escape encodeHost h)"
    using assms by (intro host_separators) auto
  show ?thesis
  proof (cases user)
    case None
    with at assms show ?thesis by (simp add: print_authority_def parseAuthority_def parseHost_escape)
  next
    case (Some ui)
    with at assms parseUser_String [of ui] show ?thesis
      by (auto simp: print_authority_def parseAuthority_def parseHost_escape)
  qed
qed

lemma print_authority_separators:
  assumes "host_parsed h" "c \<in> set ''/?#''"
  shows "c \<notin> set (print_authority user h)"
proof -
  have "c \<notin> set (url_escape encodeHost h)"
    using assms by (intro host_separators) auto
  moreover have "c \<notin> set (Userinfo_String ui)" for ui
    using assms(2) user_separators by (auto simp: Userinfo_String_def split: prod.splits option.splits)
  ultimately show ?thesis using assms(2) by (auto simp: print_authority_def split: option.splits)
qed

lemma print_authority_no_ctl: "\<not> list_ex ctl_byte (print_authority user h)"
proof -
  have "\<not> ctl_byte CHR ''@''" "\<not> ctl_byte CHR '':''" by (simp_all add: ctl_byte_def)
  with escape_no_ctl show ?thesis
    by (auto simp: print_authority_def Userinfo_String_def split: option.splits prod.splits)
qed

section \<open>URLs with the schemes of the program\<close>

text \<open>
  Every URL the program parses starts with \<open>http://\<close> or \<open>https://\<close>. The query of such a URL is printed the
  way it is read.
\<close>

definition print_query :: "bool \<Rightarrow> string \<Rightarrow> string" where
  "print_query force q = (if force \<or> q \<noteq> [] then CHR ''?'' # q else [])"

lemma getScheme_http:
  "scheme \<in> {''http'', ''https''} \<Longrightarrow> getScheme [] (scheme @ '':'' @ r) = Inr (scheme, r)"
  by (auto simp: byte_in_def)

lemma lower_http: "scheme \<in> {''http'', ''https''} \<Longrightarrow> map ascii_lower scheme = scheme"
  by (auto simp: ascii_lower_def byte_in_def)

lemma cut_query_print:
  assumes "CHR ''?'' \<notin> set a" "force \<Longrightarrow> q = []"
  shows "cut_query (a @ print_query force q) u =
    (a, if force then u\<lparr>url_ForceQuery := True\<rparr> else u\<lparr>url_RawQuery := q\<rparr>)"
proof (cases "force \<or> q = []")
  case True
  with assms have "\<not> strings_HasSuffix a ''?''" by (auto simp: HasSuffix_iff)
  moreover have "strings_HasSuffix (a @ ''?'') ''?''" by (auto simp: HasSuffix_iff)
  moreover have "count_list (a @ ''?'') CHR ''?'' = 1" using assms(1) by (simp add: count_list_0_iff)
  ultimately show ?thesis using True assms by (auto simp: cut_query_def print_query_def)
next
  case False
  have "\<not> (strings_HasSuffix (a @ CHR ''?'' # q) ''?'' \<and> count_list (a @ CHR ''?'' # q) CHR ''?'' = 1)"
  proof
    assume h: "strings_HasSuffix (a @ CHR ''?'' # q) ''?'' \<and> count_list (a @ CHR ''?'' # q) CHR ''?'' = 1"
    then obtain t where "a @ CHR ''?'' # q = t @ ''?''" by (auto simp: HasSuffix_iff)
    from arg_cong [OF this, of last] have "last (a @ CHR ''?'' # q) = CHR ''?''" by simp
    with False have "CHR ''?'' \<in> set q" by (metis last_in_set last_ConsR last_appendR list.distinct(1))
    with h show False by (auto simp: count_list_0_iff)
  qed
  with False assms(1) show ?thesis by (auto simp: cut_query_def print_query_def)
qed

lemma cut_query_cases:
  obtains q force where "rest = fst (cut_query rest u) @ print_query force q" "force \<longrightarrow> q = []"
    "CHR ''?'' \<notin> set (fst (cut_query rest u))"
    "snd (cut_query rest u) = (if force then u\<lparr>url_ForceQuery := True\<rparr> else u\<lparr>url_RawQuery := q\<rparr>)"
proof (cases "strings_HasSuffix rest ''?'' \<and> count_list rest CHR ''?'' = 1")
  case True
  then obtain a where a: "rest = a @ ''?''" by (auto simp: HasSuffix_iff)
  with True have "CHR ''?'' \<notin> set a" by (simp add: count_list_0_iff)
  with a True that [of True "[]"] show ?thesis by (simp add: cut_query_def print_query_def)
next
  case False
  then have f: "cut_query rest u = (fst (cut_at CHR ''?'' rest), u\<lparr>url_RawQuery := snd (cut_at CHR ''?'' rest)\<rparr>)"
    by (auto simp: cut_query_def)
  show ?thesis
  proof (cases rule: cut_at_cases [of "CHR ''?''" rest])
    case 1
    with f that [of False "[]"] show ?thesis by (simp add: print_query_def)
  next
    case (2 a q)
    have "q \<noteq> []"
    proof
      assume "q = []"
      with 2 have "strings_HasSuffix rest ''?''" "count_list rest CHR ''?'' = 1"
        by (auto simp: HasSuffix_iff count_list_0_iff)
      with False show False by blast
    qed
    with 2 f that [of False q] show ?thesis by (simp add: print_query_def)
  qed
qed

text \<open>The URL that parsing puts together from its parts, before the path is set.\<close>

definition url_front :: "string \<Rightarrow> bool \<Rightarrow> string \<Rightarrow> (string \<times> string option) option \<Rightarrow> string \<Rightarrow> URL" where
  "url_front scheme force q user host =
     new_URL\<lparr>url_Scheme := scheme, url_ForceQuery := force, url_RawQuery := q,
       url_User := user, url_Host := host\<rparr>"

definition url_parts :: "string \<Rightarrow> string \<Rightarrow> bool \<Rightarrow> string \<Rightarrow> bool" where
  "url_parts auth path force q \<longleftrightarrow>
     CHR ''/'' \<notin> set auth \<and> CHR ''?'' \<notin> set auth \<and> (path = [] \<or> hd path = CHR ''/'') \<and>
     CHR ''?'' \<notin> set path \<and> (force \<longrightarrow> q = [])"

lemma url_parts_exist: "\<exists>auth path force q. r = auth @ path @ print_query force q \<and> url_parts auth path force q"
proof -
  obtain q force where q: "r = fst (cut_query r new_URL) @ print_query force q" "force \<longrightarrow> q = []"
    "CHR ''?'' \<notin> set (fst (cut_query r new_URL))"
    by (rule cut_query_cases [of r new_URL])
  define a where "a = fst (cut_query r new_URL)"
  have "url_parts (takeWhile (\<lambda>c. c \<noteq> CHR ''/'') a) (dropWhile (\<lambda>c. c \<noteq> CHR ''/'') a) force q"
    using q(2,3) hd_dropWhile [of "\<lambda>c. c \<noteq> CHR ''/''" a]
    by (auto simp: url_parts_def a_def dest: set_takeWhileD set_dropWhileD)
  moreover have "r = takeWhile (\<lambda>c. c \<noteq> CHR ''/'') a @ dropWhile (\<lambda>c. c \<noteq> CHR ''/'') a @ print_query force q"
    using q(1) by (metis a_def append.assoc takeWhile_dropWhile_id)
  ultimately show ?thesis by blast
qed

lemma parse_http:
  assumes "scheme \<in> {''http'', ''https''}" "url_parts auth path force q"
  shows "parse_url literal (scheme @ '':'' @ ''//'' @ auth @ path @ print_query force q) =
    (if list_ex ctl_byte (auth @ path @ q) then Inl InvalidControlCharacter
     else case parseAuthority literal auth of
         Inl e \<Rightarrow> Inl e
       | Inr (user, host) \<Rightarrow> setPath path (url_front scheme force q user host))"
proof -
  let ?u = "new_URL\<lparr>url_Scheme := scheme\<rparr>" and ?r = "''//'' @ auth @ path"
  have c: "list_ex ctl_byte (scheme @ '':'' @ ''//'' @ auth @ path @ print_query force q) \<longleftrightarrow>
      list_ex ctl_byte (auth @ path @ q)"
    using assms(1) assms(2) by (auto simp: print_query_def ctl_byte_def url_parts_def)
  have q: "cut_query (?r @ print_query force q) ?u =
      (?r, if force then ?u\<lparr>url_ForceQuery := True\<rparr> else ?u\<lparr>url_RawQuery := q\<rparr>)"
    using assms(2) by (intro cut_query_print) (auto simp: url_parts_def)
  have t: "takeWhile (\<lambda>c. c \<noteq> CHR ''/'') (auth @ path) = auth" "dropWhile (\<lambda>c. c \<noteq> CHR ''/'') (auth @ path) = path"
    using assms(2) by (cases path; auto simp: url_parts_def takeWhile_append dropWhile_append)+
  have p: "parse_rest literal ?r u = (case parseAuthority literal auth of
      Inl e \<Rightarrow> Inl e | Inr (user, host) \<Rightarrow> setPath path (u\<lparr>url_User := user, url_Host := host\<rparr>))"
    if "url_Scheme u \<noteq> []" for u
    using that by (simp add: parse_rest_def HasPrefix_iff t split: sum.split)
  have f: "(if force then ?u\<lparr>url_ForceQuery := True\<rparr> else ?u\<lparr>url_RawQuery := q\<rparr>)\<lparr>url_User := user, url_Host := host\<rparr> =
      url_front scheme force q user host" for user host
    using assms(2) by (simp add: url_front_def url_parts_def new_URL_def)
  have ne: "scheme @ '':'' @ ''//'' @ auth @ path @ print_query force q \<noteq> ''*''" "scheme \<noteq> []"
    using assms(1) by auto
  have g: "getScheme [] (scheme @ '':'' @ ''//'' @ auth @ path @ print_query force q) =
      Inr (scheme, ?r @ print_query force q)"
    using getScheme_http [OF assms(1), of "?r @ print_query force q"] by simp
  have s: "url_Scheme (if force then ?u\<lparr>url_ForceQuery := True\<rparr> else ?u\<lparr>url_RawQuery := q\<rparr>) \<noteq> []"
    using ne(2) by simp
  show ?thesis
    unfolding parse_url_def c g sum.case prod.case lower_http [OF assms(1)] q Let_def p [OF s] f
    using ne(1) by simp
qed

section \<open>Reading back a printed URL\<close>

text \<open>A parsed URL whose path is replaced by an absolute one is printed from its escaped parts.\<close>

lemma url_String_http:
  assumes "hd P = CHR ''/''" "P \<noteq> []" "scheme \<noteq> []" "url_unescape encodePath (url_RawPath u) \<noteq> Inr P"
    "url_Opaque u = []" "url_OmitHost u = False" "url_Scheme u = scheme"
  shows "url_String (u\<lparr>url_Path := P\<rparr>) =
    (scheme @ '':'' @ ''//'' @ print_authority (url_User u) (url_Host u) @ url_escape encodePath P @
      print_query (url_ForceQuery u) (url_RawQuery u)) @
    (if url_Fragment u \<noteq> [] then CHR ''#'' # EscapedFragment u else [])"
proof -
  obtain t where P: "P = CHR ''/'' # t" using assms(1,2) by (cases P) auto
  then have e: "url_escape encodePath P = CHR ''/'' # url_escape encodePath t"
    by (simp add: escape_Cons escape_char_def separator_escaped)
  have "EscapedPath (u\<lparr>url_Path := P\<rparr>) = url_escape encodePath P"
    using assms(4) P by (simp add: EscapedPath_def)
  moreover have "EscapedFragment (u\<lparr>url_Path := P\<rparr>) = EscapedFragment u" by (simp add: EscapedFragment_def)
  ultimately show ?thesis
    using assms e P
    by (simp add: url_String_def url_hierarchy_def url_authority_def print_authority_def print_query_def Let_def)
qed

lemma unescape_EscapedFragment:
  assumes "url_Fragment u \<noteq> []"
  shows "url_unescape encodeFragment (EscapedFragment u) = Inr (url_Fragment u)" "EscapedFragment u \<noteq> []"
  using assms url_unescape_escape [OF keeps_all, of encodeFragment "url_Fragment u"]
  by (simp_all add: EscapedFragment_def)

text \<open>What a successful parse of such a URL guarantees.\<close>

definition url_good :: "string \<Rightarrow> URL \<Rightarrow> bool" where
  "url_good scheme u \<longleftrightarrow>
     url_Scheme u = scheme \<and> url_Opaque u = [] \<and> \<not> url_OmitHost u \<and> host_parsed (url_Host u) \<and>
     (url_Path u = [] \<or> hd (url_Path u) = CHR ''/'') \<and>
     (url_RawPath u = [] \<or> url_unescape encodePath (url_RawPath u) = Inr (url_Path u)) \<and>
     (url_ForceQuery u \<longrightarrow> url_RawQuery u = []) \<and>
     CHR ''#'' \<notin> set (url_RawQuery u) \<and> \<not> list_ex ctl_byte (url_RawQuery u)"

lemma setPath_good:
  assumes "setPath path (url_front scheme force q user host) = Inr u" "path = [] \<or> hd path = CHR ''/''"
    "host_parsed host" "force \<longrightarrow> q = []" "CHR ''#'' \<notin> set q" "\<not> list_ex ctl_byte q"
  shows "url_good scheme u"
proof -
  from assms(1) obtain p where p: "url_unescape encodePath path = Inr p"
    "u = (url_front scheme force q user host)\<lparr>url_Path := p,
       url_RawPath := (if path = url_escape encodePath p then [] else path)\<rparr>"
    by (auto simp: setPath_def map_sum_Inr_iff)
  have "p = [] \<or> hd p = CHR ''/''"
    using p(1) assms(2) by (cases path) (auto simp: map_sum_Inr_iff split: if_splits)
  with p assms(3-6) show ?thesis by (simp add: url_good_def url_front_def new_URL_def)
qed

lemma parseAuthority_host:
  assumes "parseAuthority literal auth = Inr (user, host)" "CHR ''['' \<notin> set auth"
  shows "host_parsed host"
proof (cases rule: cut_last_cases [of "CHR ''@''" auth])
  case 1
  with assms show ?thesis
    by (auto simp: parseAuthority_def map_sum_Inr_iff intro: parseHost_parsed)
next
  case (2 a b)
  with assms show ?thesis
    by (auto simp: parseAuthority_def map_sum_Inr_iff split: sum.splits intro: parseHost_parsed)
qed

lemma parse_http_good:
  assumes "scheme \<in> {''http'', ''https''}" "parse_url literal (scheme @ '':'' @ ''//'' @ r) = Inr u"
    "CHR ''['' \<notin> set r" "CHR ''#'' \<notin> set r"
  shows "url_good scheme u"
proof -
  obtain auth path force q where r: "r = auth @ path @ print_query force q" "url_parts auth path force q"
    using url_parts_exist by blast
  from assms(2) [unfolded r(1) parse_http [OF assms(1) r(2)]]
  obtain user host where "parseAuthority literal auth = Inr (user, host)"
    "setPath path (url_front scheme force q user host) = Inr u" "\<not> list_ex ctl_byte (auth @ path @ q)"
    by (auto split: if_splits sum.splits)
  moreover have "CHR ''['' \<notin> set auth" "CHR ''#'' \<notin> set q"
    using assms(3,4) r(1) by (auto simp: print_query_def split: if_splits)
  ultimately show ?thesis
    using r(2) by (intro setPath_good parseAuthority_host) (auto simp: url_parts_def)
qed

lemma url_Parse_good:
  assumes "scheme \<in> {''http'', ''https''}" "url_Parse literal (scheme @ '':'' @ ''//'' @ r) = Inr u"
    "CHR ''['' \<notin> set r"
  shows "url_good scheme u"
proof -
  let ?raw = "scheme @ '':'' @ ''//'' @ r"
  have "\<exists>r1. fst (cut_at CHR ''#'' ?raw) = scheme @ '':'' @ ''//'' @ r1 \<and> CHR ''#'' \<notin> set r1 \<and> CHR ''['' \<notin> set r1"
  proof (cases rule: cut_at_cases [of "CHR ''#''" r])
    case 1
    moreover from this assms(1) have "CHR ''#'' \<notin> set ?raw" by auto
    from cut_at_absent [OF this] have "fst (cut_at CHR ''#'' ?raw) = ?raw" by simp
    ultimately show ?thesis using assms(3) by blast
  next
    case (2 a b)
    then have "CHR ''#'' \<notin> set (scheme @ '':'' @ ''//'' @ a)" using assms(1) by auto
    from cut_at_split [OF this, of b] 2 assms(3) show ?thesis by (intro exI [of _ a]) simp
  qed
  then obtain r1 where r1: "fst (cut_at CHR ''#'' ?raw) = scheme @ '':'' @ ''//'' @ r1"
    "CHR ''#'' \<notin> set r1" "CHR ''['' \<notin> set r1" by blast
  from assms(2) obtain v where v: "parse_url literal (scheme @ '':'' @ ''//'' @ r1) = Inr v"
    "u = v \<or> (\<exists>f g. u = v\<lparr>url_Fragment := f, url_RawFragment := g\<rparr>)"
    unfolding url_Parse_def r1(1) [symmetric]
    by (auto simp: setFragment_def map_sum_Inr_iff split: prod.splits sum.splits if_splits)
  have "url_good scheme v" by (rule parse_http_good [OF assms(1) v(1) r1(3,2)])
  with v(2) show ?thesis by (auto simp: url_good_def)
qed

text \<open>
  The round trip the endpoints rely on: parse a base URL, replace its path, print it, and parse
  again. The second parse succeeds and finds the new path, whatever bytes it has, beside the
  scheme, host, query and fragment of the base.
\<close>

lemma reparse_with_path:
  assumes "scheme \<in> {''http'', ''https''}" "url_good scheme u"
    and P: "hd P = CHR ''/''" "P \<noteq> []" "P \<noteq> url_Path u"
  shows "\<exists>v. url_Parse literal (url_String (u\<lparr>url_Path := P\<rparr>)) = Inr v \<and> url_Path v = P \<and>
    url_Scheme v = scheme \<and> url_Host v = url_Host u \<and> url_RawQuery v = url_RawQuery u \<and>
    url_Fragment v = url_Fragment u"
proof -
  let ?a = "print_authority (url_User u) (url_Host u)" and ?p = "url_escape encodePath P"
  let ?f = "url_ForceQuery u" and ?q = "url_RawQuery u"
  let ?main = "scheme @ '':'' @ ''//'' @ ?a @ ?p @ print_query ?f ?q"
  have g: "url_Scheme u = scheme" "url_Opaque u = []" "url_OmitHost u = False" "host_parsed (url_Host u)"
    "url_RawPath u = [] \<or> url_unescape encodePath (url_RawPath u) = Inr (url_Path u)"
    "?f \<longrightarrow> ?q = []" "CHR ''#'' \<notin> set ?q" "\<not> list_ex ctl_byte ?q"
    using assms(2) by (auto simp: url_good_def)
  have "url_unescape encodePath (url_RawPath u) \<noteq> Inr P" using g(5) P(2,3) by auto
  then have str: "url_String (u\<lparr>url_Path := P\<rparr>) =
      ?main @ (if url_Fragment u \<noteq> [] then CHR ''#'' # EscapedFragment u else [])"
    using P assms(1) g by (intro url_String_http) auto
  obtain t where "P = CHR ''/'' # t" using P by (cases P) auto
  then have "url_parts ?a ?p ?f ?q"
    using g(6) print_authority_separators [OF g(4), of _ "url_User u"] path_separators [of P]
    by (simp add: url_parts_def escape_Cons escape_char_def separator_escaped)
  note main = parse_http [OF assms(1) this]
  obtain user where "parseAuthority literal ?a = Inr (user, url_Host u)"
    using parseAuthority_print [OF g(4)] by blast
  then have p: "parse_url literal ?main = Inr ((url_front scheme ?f ?q user (url_Host u))\<lparr>url_Path := P, url_RawPath := []\<rparr>)"
    using g(8) url_unescape_escape [OF keeps_all, of encodePath P]
    unfolding main by (simp add: print_authority_no_ctl escape_no_ctl setPath_def)
  have h: "CHR ''#'' \<notin> set ?main"
    using assms(1) g(7) print_authority_separators [OF g(4), of "CHR ''#''" "url_User u"] path_separators [of P]
    by (auto simp: print_query_def)
  show ?thesis
  proof (cases "url_Fragment u = []")
    case True
    then have s: "url_String (u\<lparr>url_Path := P\<rparr>) = ?main" by (simp only: str) simp
    show ?thesis unfolding s url_Parse_def cut_at_absent [OF h] Let_def prod.case p
      by (simp add: url_front_def new_URL_def True)
  next
    case False
    then have s: "url_String (u\<lparr>url_Path := P\<rparr>) = ?main @ CHR ''#'' # EscapedFragment u" by (simp only: str) simp
    show ?thesis unfolding s url_Parse_def cut_at_split [OF h] Let_def prod.case p
      by (simp add: unescape_EscapedFragment [OF False] setFragment_def url_front_def new_URL_def)
  qed
qed

end
