(* ===== verification/Go_Runtime.thy ===== *)
theory Go_Runtime
  imports JSON_Decode Go_URL
begin

text \<open>
  The values that cross package boundaries at run time: instants and durations of package
  \<open>time\<close>, errors and gRPC status codes, the request context with the values the packages of
  the repository put into it, and HTTP messages. Code that runs outside the repository (the
  gRPC handler, a backend, the network) acts on a world of type \<open>'w\<close> that is threaded through
  every call, so the order of such calls and what each of them saw are part of every result.
  Log calls are left out of the operations: nothing reads their output back.
\<close>

section \<open>Errors and status codes\<close>

datatype code =
    codes_OK | codes_Canceled | codes_Unknown | codes_InvalidArgument | codes_DeadlineExceeded
  | codes_NotFound | codes_PermissionDenied | codes_Internal | codes_Unavailable
  | codes_Unauthenticated | codes_Other nat

text \<open>
  An error is known by its text and by what \<open>status.FromError\<close> reports for it: \<open>Some c\<close> for an
  error that carries a gRPC status with code \<open>c\<close>, \<open>None\<close> for any other error.
\<close>

record go_error =
  err_status :: "code option"
  err_msg :: string

definition status_Error :: "code \<Rightarrow> string \<Rightarrow> go_error" where
  "status_Error c msg = \<lparr>err_status = Some c, err_msg = msg\<rparr>"

definition fmt_Errorf :: "string \<Rightarrow> go_error" where
  "fmt_Errorf msg = \<lparr>err_status = None, err_msg = msg\<rparr>"

lemma err_status_Error [simp]: "err_status (status_Error c m) = Some c"
  by (simp add: status_Error_def)

lemma err_msg_Error [simp]: "err_msg (status_Error c m) = m"
  by (simp add: status_Error_def)

lemma err_status_Errorf [simp]: "err_status (fmt_Errorf m) = None"
  by (simp add: fmt_Errorf_def)

lemma err_msg_Errorf [simp]: "err_msg (fmt_Errorf m) = m"
  by (simp add: fmt_Errorf_def)

section \<open>Time\<close>

text \<open>
  A \<open>time.Time\<close> is a wall clock reading, in nanoseconds since the first instant of year 1 UTC,
  and, for values derived from \<open>time.Now\<close>, a monotonic clock reading. Comparisons use the
  monotonic readings when both values have one. The zero \<open>Time\<close> is wall reading 0 without
  a monotonic reading. A duration is an \<open>int64\<close> number of nanoseconds.
\<close>

record time =
  wall :: int
  mono :: "int option"

definition time_Before :: "time \<Rightarrow> time \<Rightarrow> bool" where
  "time_Before t u =
     (case (mono t, mono u) of
        (Some a, Some b) \<Rightarrow> a < b
      | _ \<Rightarrow> wall t < wall u)"

definition time_After :: "time \<Rightarrow> time \<Rightarrow> bool" where
  "time_After t u = time_Before u t"

definition time_IsZero :: "time \<Rightarrow> bool" where
  "time_IsZero t \<longleftrightarrow> wall t = 0"

definition zero_time :: time where
  "zero_time = \<lparr>wall = 0, mono = None\<rparr>"

text \<open>
  A value with a monotonic reading keeps its wall seconds in 33 bits counted from 1885; \<open>Add\<close>
  drops the monotonic reading when the sum leaves that range or overflows an \<open>int64\<close>.
\<close>

definition wall_fits_mono :: "int \<Rightarrow> bool" where
  "wall_fits_mono w \<longleftrightarrow>
     59453308800 \<le> w div 1000000000 \<and> w div 1000000000 < 59453308800 + 2 ^ 33"

definition time_Add :: "time \<Rightarrow> int \<Rightarrow> time" where
  "time_Add t d =
     \<lparr>wall = wall t + d,
      mono = (case mono t of
                None \<Rightarrow> None
              | Some m \<Rightarrow> if wall_fits_mono (wall t + d) \<and> in_int64 (m + d)
                           then Some (m + d) else None)\<rparr>"

text \<open>\<open>time.Unix(sec, 0).UTC()\<close>: the seconds are shifted to year 1 in \<open>int64\<close> arithmetic.\<close>

definition time_Unix :: "int \<Rightarrow> time" where
  "time_Unix sec = \<lparr>wall = int64_wrap (sec + 62135596800) * 1000000000, mono = None\<rparr>"

text \<open>\<open>Duration.String\<close>, which \<open>%v\<close> prints: the fraction of the leading unit loses its trailing zeros.\<close>

definition fmt_frac :: "nat \<Rightarrow> nat \<Rightarrow> string" where
  "fmt_frac prec v =
     (let f = rev (dropWhile (\<lambda>c. c = CHR ''0'') (rev (fmt_pad prec (v mod 10 ^ prec))))
      in if f = [] then [] else CHR ''.'' # f)"

definition duration_String :: "int \<Rightarrow> string" where
  "duration_String d =
     (let u = nat \<bar>d\<bar>; s = u div 10 ^ 9
      in (if d < 0 then ''-'' else []) @
         (if u = 0 then ''0s''
          else if u < 10 ^ 3 then fmt_nat u @ ''ns''
          else if u < 10 ^ 6 then fmt_nat (u div 10 ^ 3) @ fmt_frac 3 u @ [CHR 0xC2, CHR 0xB5, CHR ''s'']
          else if u < 10 ^ 9 then fmt_nat (u div 10 ^ 6) @ fmt_frac 6 u @ ''ms''
          else (if 3600 \<le> s then fmt_nat (s div 3600) @ ''h'' else []) @
               (if 60 \<le> s then fmt_nat (s div 60 mod 60) @ ''m'' else []) @
               fmt_nat (s mod 60) @ fmt_frac 9 u @ ''s''))"

lemma wall_Add [simp]: "wall (time_Add t d) = wall t + d"
  by (simp add: time_Add_def)

lemma mono_Unix [simp]: "mono (time_Unix s) = None"
  by (simp add: time_Unix_def)

lemma time_Before_irrefl [simp]: "\<not> time_Before t t"
  by (simp add: time_Before_def split: option.split)

section \<open>The request context\<close>

text \<open>
  The values the packages store in a context. \<open>policy\<close> is \<open>Policy\<close> of package
  \<open>protobuf_policy_option\<close>, \<open>IntrospectionResult\<close> the struct of package \<open>token_introspection\<close>.
\<close>

record Policy =
  Resource :: string
  Action :: string

record IntrospectionResult =
  Subject :: string
  Scopes :: "string list"
  ExpiresAt :: time
  TokenType :: string
  Claims :: "string \<rightharpoonup> any"

text \<open>
  A context key is a value of a private type of the package that uses it, so keys of different
  packages never meet: \<open>ctxKey\<close> is \<open>protobuf_policy_option\<close>'s string type, the two \<open>contextKey\<close>
  structs are those of \<open>request_tracking\<close> and \<open>token_introspection\<close>, and everything else is foreign.
\<close>

datatype ctx_key =
    ctxKey string
  | rt_contextKey
  | ti_contextKey
  | foreign_key string

datatype ctx_val =
    VBool bool
  | VString string
  | VPolicy Policy
  | VResult "IntrospectionResult option"
  | VForeign string

text \<open>
  \<open>ctx_values\<close> are the values added by \<open>context.WithValue\<close>, the latest first. \<open>ctx_incoming\<close> is the
  request metadata that \<open>metadata.FromIncomingContext\<close> reports: gRPC sets it before any
  interceptor runs, and adding a value leaves it in place. A missing key of the metadata and a
  key without values look alike to the program, which only indexes it.
\<close>

type_synonym metadata = "string \<Rightarrow> string list"

record go_ctx =
  ctx_values :: "(ctx_key \<times> ctx_val) list"
  ctx_incoming :: "metadata option"

definition context_WithValue :: "go_ctx \<Rightarrow> ctx_key \<Rightarrow> ctx_val \<Rightarrow> go_ctx" where
  "context_WithValue ctx k v = ctx\<lparr>ctx_values := (k, v) # ctx_values ctx\<rparr>"

definition context_Value :: "go_ctx \<Rightarrow> ctx_key \<Rightarrow> ctx_val option" where
  "context_Value ctx k = map_of (ctx_values ctx) k"

lemma Value_WithValue [ctx_simps]:
  "context_Value (context_WithValue ctx k v) k' = (if k' = k then Some v else context_Value ctx k')"
  by (simp add: context_Value_def context_WithValue_def)

lemma incoming_WithValue [ctx_simps]: "ctx_incoming (context_WithValue ctx k v) = ctx_incoming ctx"
  by (simp add: context_WithValue_def)

section \<open>gRPC calls\<close>

text \<open>
  A unary handler takes the context and the request and answers with a response and an error;
  an interceptor gets the next handler as an argument. \<open>'q\<close> and \<open>'p\<close> are the request and response
  types; a \<open>nil\<close> response is \<open>None\<close>.
\<close>

type_synonym 'p reply = "'p option \<times> go_error option"
type_synonym ('q, 'p, 'w) unary_handler = "go_ctx \<Rightarrow> 'q \<Rightarrow> 'w \<Rightarrow> 'p reply \<times> 'w"

text \<open>
  A \<open>grpc.ServerStream\<close>: its context, the next message (or the error that ended the stream) and
  sending. A wrapper that embeds a stream and overrides a method is an update of that field. The
  stream handler receives the stream and returns an error or \<open>nil\<close>; the service value \<open>srv\<close>, which
  every interceptor passes on untouched, is part of the handler.
\<close>

record ('m, 'w) ServerStream =
  ss_Context :: go_ctx
  ss_RecvMsg :: "'w \<Rightarrow> (go_error + 'm) \<times> 'w"
  ss_SendMsg :: "'m \<Rightarrow> 'w \<Rightarrow> go_error option \<times> 'w"

type_synonym ('m, 'w) stream_handler = "('m, 'w) ServerStream \<Rightarrow> 'w \<Rightarrow> go_error option \<times> 'w"

text \<open>What a verifier endpoint offers: \<open>Verify(ctx, resource, action) error\<close>.\<close>

type_synonym 'w verifier = "go_ctx \<Rightarrow> string \<Rightarrow> string \<Rightarrow> 'w \<Rightarrow> go_error option \<times> 'w"

section \<open>HTTP\<close>

text \<open>Header names are canonicalised by \<open>Header.Set\<close>: upper case at the start and after a hyphen.\<close>

definition header_token_char :: "char \<Rightarrow> bool" where
  "header_token_char c \<longleftrightarrow>
     byte_in 48 57 c \<or> byte_in 65 90 c \<or> byte_in 97 122 c \<or>
     c \<in> set ''!#$%&*+-.^_`|~'' \<or> c = CHR 0x27"

definition ascii_upper :: "char \<Rightarrow> char" where
  "ascii_upper c = (if byte_in 97 122 c then char_of (of_char c - 32 :: nat) else c)"

fun canonical_from :: "bool \<Rightarrow> string \<Rightarrow> string" where
  "canonical_from up [] = []"
| "canonical_from up (c # s) =
     (if up then ascii_upper c else ascii_lower c) # canonical_from (c = CHR ''-'') s"

definition CanonicalHeaderKey :: "string \<Rightarrow> string" where
  "CanonicalHeaderKey k = (if list_all header_token_char k then canonical_from True k else k)"

type_synonym header = "string \<rightharpoonup> string"

definition Header_Set :: "header \<Rightarrow> string \<Rightarrow> string \<Rightarrow> header" where
  "Header_Set h k v = h(CanonicalHeaderKey k \<mapsto> v)"

lemma Header_Set_same [simp]: "Header_Set h k v (CanonicalHeaderKey k) = Some v"
  by (simp add: Header_Set_def)

lemma Header_Set_other:
  "k' \<noteq> CanonicalHeaderKey k \<Longrightarrow> Header_Set h k v k' = h k'"
  by (simp add: Header_Set_def)

record http_request =
  req_method :: string
  req_url :: string
  req_header :: header
  req_body :: string

text \<open>
  A response body delivers some bytes and then ends, or fails with an error. \<open>read_limited\<close> is
  \<open>io.ReadAll(io.LimitReader(body, n))\<close>: at most \<open>n\<close> bytes, nothing for \<open>n \<le> 0\<close>, and an error only
  if it comes before the limit is reached.
\<close>

record http_body =
  body_data :: string
  body_error :: "string option"

record http_response =
  StatusCode :: int
  Body :: http_body

definition read_limited :: "http_body \<Rightarrow> int \<Rightarrow> string \<times> string option" where
  "read_limited b n =
     (take (nat n) (body_data b),
      if int (length (body_data b)) < n then body_error b else None)"

lemma read_limited_length: "length (fst (read_limited b n)) \<le> nat n"
  by (simp add: read_limited_def)

text \<open>
  What lies outside the process, and the texts of library errors, are gathered in records of
  functions, arguments of the definitions that use them: what becomes of IP literals in a URL and
  how a URL error reads, sending a request (with the client's timeout and the caller's context), and
  what the JSON decoder says about a body it refuses. An \<open>Inl\<close> is the text of the error.
\<close>

record url_env =
  url_literal :: "string \<Rightarrow> url_error + string"
  url_error_text :: "string \<Rightarrow> url_error \<Rightarrow> string"

record 'w net = url_env +
  http_Do :: "int \<Rightarrow> go_ctx \<Rightarrow> http_request \<Rightarrow> 'w \<Rightarrow> (string + http_response) \<times> 'w"
  json_error :: "string \<Rightarrow> string"

definition parse_base :: "'z url_env_scheme \<Rightarrow> string \<Rightarrow> string + URL" where
  "parse_base L raw =
     (case url_Parse (url_literal L) raw of
        Inl (u, e) \<Rightarrow> Inl (url_error_text L u e)
      | Inr u \<Rightarrow> Inr u)"

definition http_url_error :: "'z url_env_scheme \<Rightarrow> string \<Rightarrow> string option" where
  "http_url_error n url = (case parse_base n url of Inl e \<Rightarrow> Some e | Inr _ \<Rightarrow> None)"

lemma http_url_error_Do [simp]: "http_url_error (n\<lparr>http_Do := d\<rparr>) u = http_url_error n u"
  by (simp add: http_url_error_def parse_base_def split: sum.split)

text \<open>
  Every constructor of a client completes a URL that has no scheme; the comparison is case
  sensitive.
\<close>

definition complete_scheme :: "string \<Rightarrow> string \<Rightarrow> string" where
  "complete_scheme scheme raw =
     (if \<not> strings_HasPrefix raw ''http://'' \<and> \<not> strings_HasPrefix raw ''https://''
      then scheme @ raw else raw)"

text \<open>\<open>http.NewRequestWithContext(ctx, "POST", url, body)\<close>, which fails when the URL does not parse.\<close>

definition http_NewRequest :: "'w net \<Rightarrow> string \<Rightarrow> string \<Rightarrow> string + http_request" where
  "http_NewRequest n url body =
     (case http_url_error n url of
        Some e \<Rightarrow> Inl e
      | None \<Rightarrow> Inr \<lparr>req_method = ''POST'', req_url = url, req_header = Map.empty, req_body = body\<rparr>)"

text \<open>The header that forwards a request identifier, when a key and a function for it are configured.\<close>

definition forward_request_id ::
  "string \<Rightarrow> (go_ctx \<Rightarrow> string) option \<Rightarrow> go_ctx \<Rightarrow> header \<Rightarrow> header" where
  "forward_request_id key fn ctx h =
     (case fn of
        Some f \<Rightarrow> if key \<noteq> [] \<and> f ctx \<noteq> [] then Header_Set h key (f ctx) else h
      | None \<Rightarrow> h)"

lemma forward_request_id_other:
  "k \<noteq> CanonicalHeaderKey key \<Longrightarrow> forward_request_id key fn ctx h k = h k"
  by (simp add: forward_request_id_def Header_Set_other split: option.split)

lemma forward_request_id_self:
  "key \<noteq> [] \<Longrightarrow> f ctx \<noteq> [] \<Longrightarrow>
   forward_request_id key (Some f) ctx h (CanonicalHeaderKey key) = Some (f ctx)"
  by (simp add: forward_request_id_def)

text \<open>The body as the program uses it: what was read, or nothing after a read error.\<close>

definition read_or_nil :: "http_body \<Rightarrow> int \<Rightarrow> string" where
  "read_or_nil b n = (case read_limited b n of (data, None) \<Rightarrow> data | (_, Some _) \<Rightarrow> [])"

definition is_2xx :: "int \<Rightarrow> bool" where
  "is_2xx c \<longleftrightarrow> 200 \<le> c \<and> c < 300"

text \<open>
  Replacing the path of a completed base URL yields a URL that a request accepts, with the new path
  and everything else as the base has it.
\<close>

lemma complete_scheme_cases:
  obtains scheme r where "scheme \<in> {''http'', ''https''}"
    "complete_scheme ''http://'' raw = scheme @ '':'' @ ''//'' @ r" "set r \<subseteq> set raw"
proof (cases "strings_HasPrefix raw ''http://'' \<or> strings_HasPrefix raw ''https://''")
  case False
  then show ?thesis using that [of "''http''" raw] by (simp add: complete_scheme_def)
next
  case True
  then consider r where "raw = ''http://'' @ r" | r where "raw = ''https://'' @ r" by (auto simp: HasPrefix_iff)
  then show ?thesis
  proof cases
    case (1 r)
    then have "set r \<subseteq> set raw" by auto
    moreover have "complete_scheme ''http://'' raw = raw" using True by (auto simp: complete_scheme_def)
    ultimately show ?thesis using 1 that [of "''http''" r] by simp
  next
    case (2 r)
    then have "set r \<subseteq> set raw" by auto
    moreover have "complete_scheme ''http://'' raw = raw" using True by (auto simp: complete_scheme_def)
    ultimately show ?thesis using 2 that [of "''https''" r] by simp
  qed
qed

lemma TrimSuffix_slash:
  assumes "p = [] \<or> hd p = CHR ''/''"
  shows "hd (strings_TrimSuffix p ''/'' @ CHR ''/'' # t) = CHR ''/''"
proof (cases "strings_HasSuffix p ''/''")
  case True
  then obtain q where "p = q @ ''/''" by (auto simp: HasSuffix_iff)
  then have "strings_TrimSuffix p ''/'' = q" "q = [] \<or> hd q = CHR ''/''"
    using assms TrimSuffix_append [of q "''/''"] by (simp, cases q, auto)
  then show ?thesis by (cases q) simp_all
next
  case False
  with assms show ?thesis by (cases p) simp_all
qed

lemma parse_base_with_path:
  assumes "parse_base L (complete_scheme ''http://'' raw) = Inr u" "CHR ''['' \<notin> set raw"
    and P: "P = strings_TrimSuffix (url_Path u) ''/'' @ CHR ''/'' # t" "t \<noteq> []"
  shows "\<exists>v. parse_base L (url_String (u\<lparr>url_Path := P\<rparr>)) = Inr v \<and> url_Path v = P \<and>
    url_Scheme v = url_Scheme u \<and> url_Host v = url_Host u \<and> url_RawQuery v = url_RawQuery u \<and>
    url_Fragment v = url_Fragment u"
proof -
  obtain scheme r where s: "scheme \<in> {''http'', ''https''}"
    "complete_scheme ''http://'' raw = scheme @ '':'' @ ''//'' @ r" "set r \<subseteq> set raw"
    by (rule complete_scheme_cases)
  have "url_Parse (url_literal L) (scheme @ '':'' @ ''//'' @ r) = Inr u"
    using assms(1) unfolding parse_base_def s(2) by (auto split: sum.splits prod.splits)
  moreover have "CHR ''['' \<notin> set r" using s(3) assms(2) by auto
  ultimately have g: "url_good scheme u" by (rule url_Parse_good [OF s(1)])
  have "hd P = CHR ''/''" unfolding P using g by (intro TrimSuffix_slash) (simp add: url_good_def)
  moreover have "P \<noteq> url_Path u"
  proof
    assume "P = url_Path u"
    then have "length P = length (url_Path u)" by simp
    with P show False by (cases t) (auto simp: strings_TrimSuffix_def split: if_splits)
  qed
  ultimately show ?thesis
    using reparse_with_path [OF s(1) g, of P "url_literal L"] P g
    by (auto simp: parse_base_def url_good_def)
qed

text \<open>The same network with other response bodies.\<close>

definition replace_body :: "(http_response \<Rightarrow> http_body) \<Rightarrow> 'w net \<Rightarrow> 'w net" where
  "replace_body f n =
     n\<lparr>http_Do := (\<lambda>timeout ctx req w.
          map_prod (map_sum id (\<lambda>resp. resp\<lparr>Body := f resp\<rparr>)) id (http_Do n timeout ctx req w))\<rparr>"

end
