(* ===== verification/Request_Tracking.thy ===== *)
theory Request_Tracking
  imports Go_Runtime
begin

text \<open>
  Package \<open>request_tracking\<close>: generation of request identifiers (\<open>generate.go\<close>), their place in the
  context (\<open>context.go\<close>), the unary and stream interceptors (\<open>interceptor.go\<close>) and the log
  handler that adds the identifier to every record (\<open>handler.go\<close>). The clock reading and the
  random bytes of one call are the arguments \<open>now\<close> and \<open>rnd\<close>.
\<close>

unbundle bit_operations_syntax

section \<open>generate.go\<close>

text \<open>\<open>time.Now().UTC()\<close> by its calendar fields.\<close>

record civil =
  year :: nat
  month :: nat
  day :: nat
  hour :: nat
  minute :: nat
  second :: nat

definition civil_valid :: "civil \<Rightarrow> bool" where
  "civil_valid t \<longleftrightarrow> year t < 10000 \<and> 1 \<le> month t \<and> month t \<le> 12 \<and> 1 \<le> day t \<and> day t \<le> 31 \<and>
     hour t < 24 \<and> minute t < 60 \<and> second t < 60"

text \<open>\<open>now.Format("20060102150405")\<close>.\<close>

definition format_timestamp :: "civil \<Rightarrow> string" where
  "format_timestamp t =
     fmt_pad 4 (year t) @ fmt_pad 2 (month t) @ fmt_pad 2 (day t) @
     fmt_pad 2 (hour t) @ fmt_pad 2 (minute t) @ fmt_pad 2 (second t)"

definition uuid_bits :: "byte list \<Rightarrow> byte list" where
  "uuid_bits b =
     (let b = b[6 := (b ! 6 AND 0x0f) OR 0x40]
      in b[8 := (b ! 8 AND 0x3f) OR 0x80])"

definition generateRequestID :: "civil \<Rightarrow> byte list \<Rightarrow> string" where
  "generateRequestID now rnd = format_timestamp now @ ''_'' @ fmt_x (uuid_bits rnd)"

section \<open>context.go\<close>

definition WithRequestID :: "go_ctx \<Rightarrow> string \<Rightarrow> go_ctx" where
  "WithRequestID ctx requestID = context_WithValue ctx rt_contextKey (VString requestID)"

definition RequestIDFromContext :: "go_ctx \<Rightarrow> string" where
  "RequestIDFromContext ctx =
     (case context_Value ctx rt_contextKey of Some (VString v) \<Rightarrow> v | _ \<Rightarrow> [])"

section \<open>interceptor.go\<close>

record rt_config =
  rt_logLevel :: int
  rt_metadataKey :: string

definition rt_WithLogLevel :: "int \<Rightarrow> rt_config \<Rightarrow> rt_config" where
  "rt_WithLogLevel level c = c\<lparr>rt_logLevel := level\<rparr>"

definition rt_WithMetadataKey :: "(rune \<Rightarrow> rune) \<Rightarrow> string \<Rightarrow> rt_config \<Rightarrow> rt_config" where
  "rt_WithMetadataKey ulower key c = c\<lparr>rt_metadataKey := strings_ToLower ulower key\<rparr>"

text \<open>The value of \<open>slog.LevelError\<close>.\<close>

abbreviation LevelError :: int where
  "LevelError \<equiv> 8"

definition applyOptions :: "(rt_config \<Rightarrow> rt_config) list \<Rightarrow> int \<times> string" where
  "applyOptions opts =
     (let cfg = apply_opts opts \<lparr>rt_logLevel = LevelError, rt_metadataKey = ''x-request-id''\<rparr>
      in (rt_logLevel cfg, rt_metadataKey cfg))"

definition extractOrGenerateRequestID :: "go_ctx \<Rightarrow> string \<Rightarrow> civil \<Rightarrow> byte list \<Rightarrow> string" where
  "extractOrGenerateRequestID ctx metadataKey now rnd =
     (case ctx_incoming ctx of
        Some md \<Rightarrow>
          (case md metadataKey of
             v # _ \<Rightarrow> if v \<noteq> [] then v else generateRequestID now rnd
           | [] \<Rightarrow> generateRequestID now rnd)
      | None \<Rightarrow> generateRequestID now rnd)"

text \<open>
  The interceptors pass on whatever the handler does, so the type of its outcome is left open, and
  so is the world in which the messages of a stream arrive.
\<close>

definition rt_Interceptor ::
  "(rt_config \<Rightarrow> rt_config) list \<Rightarrow> civil \<Rightarrow> byte list \<Rightarrow> go_ctx \<Rightarrow> 'q \<Rightarrow>
   (go_ctx \<Rightarrow> 'q \<Rightarrow> 'w \<Rightarrow> 'r) \<Rightarrow> 'w \<Rightarrow> 'r" where
  "rt_Interceptor opts now rnd ctx req handler w =
     (let metadataKey = snd (applyOptions opts);
          requestID = RequestIDFromContext ctx;
          ctx = (if requestID = []
                 then WithRequestID ctx (extractOrGenerateRequestID ctx metadataKey now rnd)
                 else ctx)
      in handler ctx req w)"

text \<open>\<open>requestIDStream\<close> embeds a stream and overrides its \<open>Context\<close>.\<close>

definition rt_requestIDStream :: "('m, 'v) ServerStream \<Rightarrow> go_ctx \<Rightarrow> ('m, 'v) ServerStream" where
  "rt_requestIDStream ss ctx = ss\<lparr>ss_Context := ctx\<rparr>"

definition rt_StreamInterceptor ::
  "(rt_config \<Rightarrow> rt_config) list \<Rightarrow> civil \<Rightarrow> byte list \<Rightarrow> ('m, 'v) ServerStream \<Rightarrow>
   (('m, 'v) ServerStream \<Rightarrow> 'w \<Rightarrow> 'r) \<Rightarrow> 'w \<Rightarrow> 'r" where
  "rt_StreamInterceptor opts now rnd ss handler w =
     (let metadataKey = snd (applyOptions opts);
          ctx = ss_Context ss;
          requestID = RequestIDFromContext ctx;
          ctx = (if requestID = []
                 then WithRequestID ctx (extractOrGenerateRequestID ctx metadataKey now rnd)
                 else ctx)
      in handler (rt_requestIDStream ss ctx) w)"

section \<open>handler.go\<close>

record slog_record =
  log_level :: int
  log_message :: string
  log_attrs :: "(string \<times> string) list"

text \<open>
  The interface \<open>slog.Handler\<close> over a type \<open>'h\<close> of handlers: deriving a handler yields one of the
  same type.
\<close>

record ('h, 'w) slog_Handler =
  Enabled :: "'h \<Rightarrow> go_ctx \<Rightarrow> int \<Rightarrow> bool"
  Handle :: "'h \<Rightarrow> go_ctx \<Rightarrow> slog_record \<Rightarrow> 'w \<Rightarrow> go_error option \<times> 'w"
  WithAttrs :: "'h \<Rightarrow> (string \<times> string) list \<Rightarrow> 'h"
  WithGroup :: "'h \<Rightarrow> string \<Rightarrow> 'h"

record handlerConfig =
  cfg_attributeKey :: string

definition WithAttributeKey :: "string \<Rightarrow> handlerConfig \<Rightarrow> handlerConfig" where
  "WithAttributeKey key c = c\<lparr>cfg_attributeKey := key\<rparr>"

record 'h requestIDHandler =
  next_handler :: 'h
  attributeKey :: string

definition NewRequestIDHandler ::
  "'h \<Rightarrow> (handlerConfig \<Rightarrow> handlerConfig) list \<Rightarrow> 'h requestIDHandler" where
  "NewRequestIDHandler nxt opts =
     (let cfg = apply_opts opts \<lparr>cfg_attributeKey = ''x-request-id''\<rparr>
      in \<lparr>next_handler = nxt, attributeKey = cfg_attributeKey cfg\<rparr>)"

definition requestIDHandler_Enabled ::
  "('h, 'w) slog_Handler \<Rightarrow> 'h requestIDHandler \<Rightarrow> go_ctx \<Rightarrow> int \<Rightarrow> bool" where
  "requestIDHandler_Enabled ops h ctx level = Enabled ops (next_handler h) ctx level"

definition requestIDHandler_Handle ::
  "('h, 'w) slog_Handler \<Rightarrow> 'h requestIDHandler \<Rightarrow> go_ctx \<Rightarrow> slog_record \<Rightarrow> 'w \<Rightarrow>
   go_error option \<times> 'w" where
  "requestIDHandler_Handle ops h ctx r w =
     (let id = RequestIDFromContext ctx;
          r = (if id \<noteq> [] then r\<lparr>log_attrs := log_attrs r @ [(attributeKey h, id)]\<rparr> else r)
      in Handle ops (next_handler h) ctx r w)"

definition requestIDHandler_WithAttrs ::
  "('h, 'w) slog_Handler \<Rightarrow> 'h requestIDHandler \<Rightarrow> (string \<times> string) list \<Rightarrow> 'h requestIDHandler" where
  "requestIDHandler_WithAttrs ops h attrs =
     \<lparr>next_handler = WithAttrs ops (next_handler h) attrs, attributeKey = attributeKey h\<rparr>"

definition requestIDHandler_WithGroup ::
  "('h, 'w) slog_Handler \<Rightarrow> 'h requestIDHandler \<Rightarrow> string \<Rightarrow> 'h requestIDHandler" where
  "requestIDHandler_WithGroup ops h name =
     \<lparr>next_handler = WithGroup ops (next_handler h) name, attributeKey = attributeKey h\<rparr>"

text \<open>The four methods of \<open>requestIDHandler\<close> as an implementation of \<open>slog.Handler\<close>.\<close>

definition requestIDHandler_impl :: "('h, 'w) slog_Handler \<Rightarrow> ('h requestIDHandler, 'w) slog_Handler" where
  "requestIDHandler_impl ops =
     \<lparr>Enabled = requestIDHandler_Enabled ops, Handle = requestIDHandler_Handle ops,
      WithAttrs = requestIDHandler_WithAttrs ops, WithGroup = requestIDHandler_WithGroup ops\<rparr>"

text \<open>A program derives handlers by any sequence of \<open>WithAttrs\<close> and \<open>WithGroup\<close> calls.\<close>

datatype derivation = DAttrs "(string \<times> string) list" | DGroup string

fun derive :: "('h, 'w) slog_Handler \<Rightarrow> 'h \<Rightarrow> derivation list \<Rightarrow> 'h" where
  "derive ops h [] = h"
| "derive ops h (DAttrs as # ds) = derive ops (WithAttrs ops h as) ds"
| "derive ops h (DGroup n # ds) = derive ops (WithGroup ops h n) ds"

section \<open>Identifiers\<close>

lemma length_uuid_bits [simp]: "length (uuid_bits b) = length b"
  by (simp add: uuid_bits_def Let_def)

lemma nth_uuid_bits:
  "length b = 16 \<Longrightarrow> i < 16 \<Longrightarrow>
   uuid_bits b ! i =
     (if i = 6 then (b ! 6 AND 0x0f) OR 0x40
      else if i = 8 then (b ! 8 AND 0x3f) OR 0x80 else b ! i)"
  by (simp add: uuid_bits_def Let_def nth_list_update)

lemma length_timestamp: "civil_valid t \<Longrightarrow> length (format_timestamp t) = 14"
  by (simp add: format_timestamp_def civil_valid_def length_fmt_pad)

lemma timestamp_digits: "list_all (byte_in 48 57) (format_timestamp t)"
  by (simp add: format_timestamp_def fmt_pad_digits)

lemma inj_timestamp:
  assumes "civil_valid t" "civil_valid u"
  shows "format_timestamp t = format_timestamp u \<longleftrightarrow> t = u"
proof
  assume "format_timestamp t = format_timestamp u"
  with assms have "year t = year u" "month t = month u" "day t = day u"
    "hour t = hour u" "minute t = minute u" "second t = second u"
    by (simp_all add: format_timestamp_def civil_valid_def length_fmt_pad inj_fmt_pad)
  then show "t = u" by simp
qed simp

lemma nth_fmt_x:
  "i < length bs \<Longrightarrow>
   fmt_x bs ! (2 * i) = hex_digit (unat (bs ! i) div 16) \<and>
   fmt_x bs ! Suc (2 * i) = hex_digit (unat (bs ! i) mod 16)"
proof (induction bs arbitrary: i)
  case (Cons b bs)
  then show ?case by (cases i) (auto simp: fmt_x_def hex_byte_def)
qed simp

lemma high_nibble: "unat w div 16 = unat (drop_bit 4 w)" for w :: byte
  unfolding unat_drop_bit_eq by (simp add: drop_bit_eq_div)

lemma version_nibble: "unat ((x AND 0x0f) OR 0x40 :: byte) div 16 = 4"
  unfolding high_nibble by (simp add: drop_bit_or drop_bit_and)

lemma variant_nibble: "unat ((x AND 0x3f) OR 0x80 :: byte) div 16 \<in> {8, 9, 10, 11}"
proof -
  define y where "y = drop_bit 4 x AND (3 :: byte)"
  have "drop_bit 4 ((x AND 0x3f) OR 0x80) = y OR 8"
    by (simp add: drop_bit_or drop_bit_and y_def)
  moreover have "y \<in> {0, 1, 2, 3}"
  proof -
    have "y \<le> 3" unfolding y_def by (rule word_and_le1)
    then have "unat y \<le> 3" by (simp add: word_le_nat_alt)
    then have "unat y \<in> {0, 1, 2, 3}" by auto
    then have "of_nat (unat y) \<in> (of_nat ` {0, 1, 2, 3} :: byte set)" by (rule imageI)
    then show ?thesis by simp
  qed
  ultimately show ?thesis unfolding high_nibble by auto
qed

lemma clear_set_bits:
  fixes x y :: byte
  shows "(x AND 0x0f) OR 0x40 = (y AND 0x0f) OR 0x40 \<longleftrightarrow> x AND 0x0f = y AND 0x0f"
    and "(x AND 0x3f) OR 0x80 = (y AND 0x3f) OR 0x80 \<longleftrightarrow> x AND 0x3f = y AND 0x3f"
proof -
  have "((x AND 0x0f) OR 0x40) AND 0x0f = x AND 0x0f" for x :: byte
    by (simp add: bit.conj_disj_distrib2 and.assoc)
  then show "(x AND 0x0f) OR 0x40 = (y AND 0x0f) OR 0x40 \<longleftrightarrow> x AND 0x0f = y AND 0x0f" by metis
  have "((x AND 0x3f) OR 0x80) AND 0x3f = x AND 0x3f" for x :: byte
    by (simp add: bit.conj_disj_distrib2 and.assoc)
  then show "(x AND 0x3f) OR 0x80 = (y AND 0x3f) OR 0x80 \<longleftrightarrow> x AND 0x3f = y AND 0x3f" by metis
qed

definition random_bits :: "byte list \<Rightarrow> byte list" where
  "random_bits b = b[6 := b ! 6 AND 0x0f, 8 := b ! 8 AND 0x3f]"

lemma uuid_bits_eq_iff:
  assumes "length a = 16" "length b = 16"
  shows "uuid_bits a = uuid_bits b \<longleftrightarrow> random_bits a = random_bits b"
proof -
  have "uuid_bits a ! i = uuid_bits b ! i \<longleftrightarrow> random_bits a ! i = random_bits b ! i" if "i < 16" for i
    using assms that by (simp add: nth_uuid_bits random_bits_def nth_list_update clear_set_bits)
  then show ?thesis
    using assms by (simp add: list_eq_iff_nth_eq) (simp add: random_bits_def)
qed

text \<open>The shape documented for identifiers: \<open>YYYYMMDDHHmmss_<uuid-v4-no-dashes>\<close>.\<close>

definition request_id_format :: "string \<Rightarrow> bool" where
  "request_id_format s \<longleftrightarrow>
     length s = 47 \<and> list_all (byte_in 48 57) (take 14 s) \<and> s ! 14 = CHR ''_'' \<and>
     list_all (\<lambda>c. byte_in 48 57 c \<or> byte_in 97 102 c) (drop 15 s) \<and>
     s ! 27 = CHR ''4'' \<and> s ! 31 \<in> set ''89ab''"

text \<open>
  Every generated identifier has the documented format: 14 decimal digits, an underscore
  and 32 lower-case hexadecimal digits, of which the version digit is 4 and the variant digit is
  8, 9, a or b.
\<close>

theorem generateRequestID_format:
  assumes "civil_valid now" and "length rnd = 16"
  shows "request_id_format (generateRequestID now rnd)"
proof -
  let ?t = "format_timestamp now" and ?x = "fmt_x (uuid_bits rnd)"
  have t: "length ?t = 14" by (rule length_timestamp [OF assms(1)])
  have "?x ! 12 = hex_digit (unat (uuid_bits rnd ! 6) div 16)"
    and "?x ! 16 = hex_digit (unat (uuid_bits rnd ! 8) div 16)"
    using nth_fmt_x [of 6 "uuid_bits rnd"] nth_fmt_x [of 8 "uuid_bits rnd"] assms(2) by simp_all
  moreover have "hex_digit 4 = CHR ''4''" "hex_digit 8 = CHR ''8''" "hex_digit 9 = CHR ''9''"
    "hex_digit 10 = CHR ''a''" "hex_digit 11 = CHR ''b''"
    by (simp add: hex_digit_def, rule char_of_byte, simp)+
  ultimately have "?x ! 12 = CHR ''4''" and "?x ! 16 \<in> set ''89ab''"
    using variant_nibble [of "rnd ! 8"] assms(2) by (auto simp: nth_uuid_bits version_nibble)
  then show ?thesis
    using t assms(2) timestamp_digits [of now] fmt_x_digits [of "uuid_bits rnd"]
    by (simp add: request_id_format_def generateRequestID_def nth_append)
qed

theorem generateRequestID_format_witness:
  "request_id_format (generateRequestID
     \<lparr>year = 2026, month = 3, day = 31, hour = 12, minute = 0, second = 0\<rparr> (replicate 16 255))"
  by (rule generateRequestID_format) (simp_all add: civil_valid_def)

text \<open>
  Two generated identifiers are equal only if they were generated in the same second from
  the same random bits: all of the 122 bits that the version and variant fields leave free
  count, so distinct draws never collide.
\<close>

theorem generateRequestID_unique:
  assumes "civil_valid t" "civil_valid u" and "length a = 16" "length b = 16"
  shows "generateRequestID t a = generateRequestID u b \<longleftrightarrow> t = u \<and> random_bits a = random_bits b"
proof -
  have "generateRequestID t a = generateRequestID u b \<longleftrightarrow>
      format_timestamp t = format_timestamp u \<and> fmt_x (uuid_bits a) = fmt_x (uuid_bits b)"
    using assms by (simp add: generateRequestID_def length_timestamp)
  then show ?thesis using assms by (simp add: inj_timestamp inj_fmt_x uuid_bits_eq_iff)
qed

theorem generateRequestID_unique_witness:
  "generateRequestID \<lparr>year = 2026, month = 1, day = 2, hour = 3, minute = 4, second = 5\<rparr> (replicate 16 0)
   \<noteq> generateRequestID \<lparr>year = 2026, month = 1, day = 2, hour = 3, minute = 4, second = 5\<rparr> (replicate 16 1)"
  by (subst generateRequestID_unique)
    (simp_all add: civil_valid_def random_bits_def numeral_eq_Suc)

section \<open>Context and interceptors\<close>

lemma RequestID_WithRequestID [ctx_simps]:
  "RequestIDFromContext (WithRequestID ctx i) = i"
  by (simp add: RequestIDFromContext_def WithRequestID_def ctx_simps)

lemma incoming_WithRequestID [ctx_simps]: "ctx_incoming (WithRequestID ctx i) = ctx_incoming ctx"
  by (simp add: WithRequestID_def ctx_simps)

lemma Value_WithRequestID [ctx_simps]:
  "k \<noteq> rt_contextKey \<Longrightarrow> context_Value (WithRequestID ctx i) k = context_Value ctx k"
  by (simp add: WithRequestID_def ctx_simps)

lemma generateRequestID_nonempty [simp]: "generateRequestID now rnd \<noteq> []"
  by (simp add: generateRequestID_def)

lemma extractOrGenerate_nonempty [simp]: "extractOrGenerateRequestID ctx k now rnd \<noteq> []"
  by (simp add: extractOrGenerateRequestID_def split: option.split list.split)

text \<open>The context both interceptors pass on.\<close>

definition tracked :: "string \<Rightarrow> civil \<Rightarrow> byte list \<Rightarrow> go_ctx \<Rightarrow> go_ctx" where
  "tracked key now rnd ctx =
     (if RequestIDFromContext ctx = []
      then WithRequestID ctx (extractOrGenerateRequestID ctx key now rnd) else ctx)"

lemma rt_Interceptor_tracked:
  "rt_Interceptor opts now rnd ctx req handler w =
   handler (tracked (snd (applyOptions opts)) now rnd ctx) req w"
  by (simp add: rt_Interceptor_def tracked_def Let_def)

lemma rt_StreamInterceptor_tracked:
  "rt_StreamInterceptor opts now rnd ss handler w =
   handler (ss\<lparr>ss_Context := tracked (snd (applyOptions opts)) now rnd (ss_Context ss)\<rparr>) w"
  by (simp add: rt_StreamInterceptor_def rt_requestIDStream_def tracked_def Let_def)

lemma tracked_simps [ctx_simps]:
  "RequestIDFromContext (tracked key now rnd ctx) \<noteq> []"
  "ctx_incoming (tracked key now rnd ctx) = ctx_incoming ctx"
  "k \<noteq> rt_contextKey \<Longrightarrow> context_Value (tracked key now rnd ctx) k = context_Value ctx k"
  by (simp_all add: tracked_def ctx_simps)

lemma tracked_present: "RequestIDFromContext ctx \<noteq> [] \<Longrightarrow> tracked key now rnd ctx = ctx"
  by (simp add: tracked_def)


text \<open>
  Tracking is idempotent: a second tracking interceptor further down the chain, whatever its
  options, clock and random bytes, leaves the identifier chosen by the first one in place.
\<close>

theorem rt_Interceptor_idempotent:
  "rt_Interceptor opts now rnd ctx req
     (\<lambda>ctx req. rt_Interceptor opts' now' rnd' ctx req handler) w =
   rt_Interceptor opts now rnd ctx req handler w"
  by (simp add: rt_Interceptor_tracked tracked_present ctx_simps)

section \<open>The log handler\<close>

lemma derive_requestIDHandler:
  "derive (requestIDHandler_impl ops) h ds =
     \<lparr>next_handler = derive ops (next_handler h) ds, attributeKey = attributeKey h\<rparr>"
  by (induction "requestIDHandler_impl ops" h ds rule: derive.induct)
    (simp_all add: requestIDHandler_impl_def requestIDHandler_WithAttrs_def
      requestIDHandler_WithGroup_def)

text \<open>
  Wrapping commutes with deriving: a record handled by any handler derived from the wrapper
  reaches the correspondingly derived inner handler, with the request identifier of the context
  appended once under the configured key, and unchanged when the context has none.
\<close>

theorem slog_derived_handlers_keep_id:
  "Handle (requestIDHandler_impl ops)
     (derive (requestIDHandler_impl ops) (NewRequestIDHandler nxt opts) ds) ctx r w =
   Handle ops (derive ops nxt ds) ctx
     (if RequestIDFromContext ctx = [] then r
      else r\<lparr>log_attrs := log_attrs r @
        [(cfg_attributeKey (apply_opts opts \<lparr>cfg_attributeKey = ''x-request-id''\<rparr>),
          RequestIDFromContext ctx)]\<rparr>) w"
proof -
  have "Handle (requestIDHandler_impl ops) = requestIDHandler_Handle ops"
    by (simp add: requestIDHandler_impl_def)
  then show ?thesis
    by (simp add: derive_requestIDHandler requestIDHandler_Handle_def NewRequestIDHandler_def Let_def)
qed

end
