(* ===== verification/RFC7662.thy ===== *)
theory RFC7662
  imports Request_Tracking
begin

text \<open>
  \<open>token_introspection/introspector.go\<close> and \<open>rfc7662.go\<close>: the interface of an introspector, and the one
  that asks an OAuth 2.0 token introspection endpoint. A conversion of a floating point number
  that does not fit an \<open>int64\<close> yields a value that the Go specification leaves open; it is the
  argument \<open>oor\<close>.
\<close>

section \<open>introspector.go\<close>

record 'w Introspector =
  Scheme :: string
  Introspect :: "go_ctx \<Rightarrow> string \<Rightarrow> 'w \<Rightarrow> (IntrospectionResult option \<times> go_error option) \<times> 'w"

text \<open>
  The documented contract: a result and no error, or no result and a status error that says
  either that the credential is invalid or that the backend failed.
\<close>

locale introspector =
  fixes I :: "'w Introspector"
  assumes outcome:
    "Introspect I ctx credential w = ((res, err), w') \<Longrightarrow>
       (\<exists>r. res = Some r \<and> err = None) \<or>
       (\<exists>e. res = None \<and> err = Some e \<and>
            (err_status e = Some codes_Unauthenticated \<or> err_status e = Some codes_Internal))"
begin

lemma never_nil_nil: "fst (Introspect I ctx credential w) \<noteq> (None, None)"
  using outcome by (metis eq_fst_iff option.distinct(1))

end

section \<open>Configuration\<close>

definition rfc_defaultTimeout :: int where
  "rfc_defaultTimeout = 10 * 10 ^ 9"

definition rfc_defaultMaxResponseBodySize :: int where
  "rfc_defaultMaxResponseBodySize = 1024 * 1024"

type_synonym authFunc = "string \<Rightarrow> string \<times> string"

record rfc7662Config =
  rfcc_timeout :: int
  rfcc_maxResponseBodySize :: int
  rfcc_logger :: int
  rfcc_requestIDFunc :: "(go_ctx \<Rightarrow> string) option"
  rfcc_requestIDHeaderKey :: string
  rfcc_authFunc :: "authFunc option"
  rfcc_useJSONBody :: bool

type_synonym RFC7662Option = "rfc7662Config \<Rightarrow> rfc7662Config"

definition rfc_WithTimeout :: "int \<Rightarrow> RFC7662Option outcome" where
  "rfc_WithTimeout d =
     (if d \<le> 0 then Panic (''timeout must be positive, got '' @ duration_String d)
      else Return (\<lambda>c. c\<lparr>rfcc_timeout := d\<rparr>))"

definition rfc_WithRequestIDFunc :: "(go_ctx \<Rightarrow> string) option \<Rightarrow> RFC7662Option" where
  "rfc_WithRequestIDFunc fn = (\<lambda>c. c\<lparr>rfcc_requestIDFunc := fn\<rparr>)"

definition rfc_WithRequestIDHeaderKey :: "string \<Rightarrow> RFC7662Option" where
  "rfc_WithRequestIDHeaderKey key = (\<lambda>c. c\<lparr>rfcc_requestIDHeaderKey := key\<rparr>)"

definition rfc_WithMaxResponseBodySize :: "int \<Rightarrow> RFC7662Option outcome" where
  "rfc_WithMaxResponseBodySize sz =
     (if sz \<le> 0 then Panic (''maxResponseBodySize must be positive, got '' @ fmt_d sz)
      else Return (\<lambda>c. c\<lparr>rfcc_maxResponseBodySize := sz\<rparr>))"

definition pctEncode :: "string \<Rightarrow> string" where
  "pctEncode s = strings_ReplaceAll (url_QueryEscape s) ''+'' ''%20''"

definition WithClientCredentials :: "string \<Rightarrow> string \<Rightarrow> RFC7662Option outcome" where
  "WithClientCredentials clientID clientSecret =
     (if clientID = [] then Panic ''clientID must not be empty''
      else if clientSecret = [] then Panic ''clientSecret must not be empty''
      else let encoded = base64_Encode (pctEncode clientID @ '':'' @ pctEncode clientSecret)
           in Return (\<lambda>c. c\<lparr>rfcc_authFunc := Some (\<lambda>_. (''Authorization'', ''Basic '' @ encoded))\<rparr>))"

definition WithBearerAuth :: "string \<Rightarrow> RFC7662Option outcome" where
  "WithBearerAuth token =
     (if token = [] then Panic ''token must not be empty''
      else Return (\<lambda>c. c\<lparr>rfcc_authFunc := Some (\<lambda>_. (''Authorization'', ''Bearer '' @ token))\<rparr>))"

definition WithSelfIntrospect :: RFC7662Option where
  "WithSelfIntrospect =
     (\<lambda>c. c\<lparr>rfcc_authFunc := Some (\<lambda>credential. (''Authorization'', ''Bearer '' @ credential))\<rparr>)"

definition WithJSONBody :: RFC7662Option where
  "WithJSONBody = (\<lambda>c. c\<lparr>rfcc_useJSONBody := True\<rparr>)"

definition WithRFC7662LogLevel :: "int \<Rightarrow> RFC7662Option" where
  "WithRFC7662LogLevel level = (\<lambda>c. c\<lparr>rfcc_logger := level\<rparr>)"

record rfc7662Introspector =
  rfc_httpClient :: int
  rfc_introspectURL :: string
  rfc_maxResponseBodySize :: int
  rfc_logger :: int
  rfc_requestIDFunc :: "(go_ctx \<Rightarrow> string) option"
  rfc_requestIDHeaderKey :: string
  rfc_authFunc :: "authFunc option"
  rfc_useJSONBody :: bool

definition NewRFC7662Introspector :: "string \<Rightarrow> RFC7662Option list \<Rightarrow> go_error + rfc7662Introspector" where
  "NewRFC7662Introspector introspectURL opts =
     (let raw = strings_TrimSpace introspectURL
      in if raw = [] then Inl (fmt_Errorf ''introspectURL must not be empty'')
         else let raw = complete_scheme ''https://'' raw;
                  cfg = apply_opts opts
                    \<lparr>rfcc_timeout = rfc_defaultTimeout,
                     rfcc_maxResponseBodySize = rfc_defaultMaxResponseBodySize,
                     rfcc_logger = LevelError, rfcc_requestIDFunc = None,
                     rfcc_requestIDHeaderKey = ''x-request-id'', rfcc_authFunc = None,
                     rfcc_useJSONBody = False\<rparr>
              in Inr \<lparr>rfc_httpClient = rfcc_timeout cfg, rfc_introspectURL = raw,
                      rfc_maxResponseBodySize = rfcc_maxResponseBodySize cfg,
                      rfc_logger = rfcc_logger cfg, rfc_requestIDFunc = rfcc_requestIDFunc cfg,
                      rfc_requestIDHeaderKey = rfcc_requestIDHeaderKey cfg,
                      rfc_authFunc = rfcc_authFunc cfg, rfc_useJSONBody = rfcc_useJSONBody cfg\<rparr>)"

definition rfc_Scheme :: "rfc7662Introspector \<Rightarrow> string" where
  "rfc_Scheme i = ''bearer''"

section \<open>Introspect\<close>

definition rfc_body :: "rfc7662Introspector \<Rightarrow> string \<Rightarrow> string \<times> string" where
  "rfc_body i credential =
     (if rfc_useJSONBody i
      then (json_Marshal (BObj [(''token'', BStr credential)]), ''application/json'')
      else (''token='' @ url_QueryEscape credential, ''application/x-www-form-urlencoded''))"

definition rfc_headers :: "rfc7662Introspector \<Rightarrow> go_ctx \<Rightarrow> string \<Rightarrow> string \<Rightarrow> header \<Rightarrow> header" where
  "rfc_headers i ctx contentType credential h =
     (let h = Header_Set h ''Content-Type'' contentType;
          h = Header_Set h ''Accept'' ''application/json'';
          h = (case rfc_authFunc i of
                 None \<Rightarrow> h
               | Some f \<Rightarrow> Header_Set h (fst (f credential)) (snd (f credential)))
      in forward_request_id (rfc_requestIDHeaderKey i) (rfc_requestIDFunc i) ctx h)"

text \<open>\<open>int64(exp)\<close> for a \<open>float64\<close>.\<close>

definition int64_of_float :: "(float64 \<Rightarrow> int) \<Rightarrow> float64 \<Rightarrow> int" where
  "int64_of_float oor f = (if in_int64 (float_trunc f) then float_trunc f else int64_wrap (oor f))"

definition promoted :: "string \<Rightarrow> bool" where
  "promoted k \<longleftrightarrow>
     k = ''active'' \<or> k = ''sub'' \<or> k = ''scope'' \<or> k = ''scopes'' \<or> k = ''exp'' \<or> k = ''token_type''"

definition rfc_active :: "(string \<rightharpoonup> any) \<Rightarrow> bool" where
  "rfc_active raw = (case raw ''active'' of Some (AnyBool b) \<Rightarrow> b | _ \<Rightarrow> False)"

definition rfc_result :: "(float64 \<Rightarrow> int) \<Rightarrow> (string \<rightharpoonup> any) \<Rightarrow> IntrospectionResult" where
  "rfc_result oor raw =
     \<lparr>Subject = (case raw ''sub'' of Some (AnyString sub) \<Rightarrow> sub | _ \<Rightarrow> []),
      Scopes = (case raw ''scope'' of
                  Some (AnyString s) \<Rightarrow> if s \<noteq> [] then strings_Fields s else []
                | _ \<Rightarrow> []),
      ExpiresAt = (case raw ''exp'' of
                     Some (AnyFloat f) \<Rightarrow> time_Unix (int64_of_float oor f)
                   | _ \<Rightarrow> zero_time),
      TokenType = (case raw ''token_type'' of Some (AnyString tt) \<Rightarrow> tt | _ \<Rightarrow> []),
      Claims = (\<lambda>k. if promoted k then None else raw k)\<rparr>"

definition rfc_evaluate ::
  "'w net \<Rightarrow> (float64 \<Rightarrow> int) \<Rightarrow> rfc7662Introspector \<Rightarrow> http_response \<Rightarrow> go_error + IntrospectionResult" where
  "rfc_evaluate n oor i resp =
     (case read_limited (Body resp) (int64_wrap (rfc_maxResponseBodySize i + 1)) of
        (_, Some err) \<Rightarrow>
          Inl (status_Error codes_Internal (''failed to read introspection response: '' @ err))
      | (respBody, None) \<Rightarrow>
          (if int (length respBody) > rfc_maxResponseBodySize i
           then Inl (status_Error codes_Internal ''introspection response body exceeds size limit'')
           else if StatusCode resp < 200 \<or> StatusCode resp \<ge> 300
           then (if StatusCode resp = 401
                 then Inl (status_Error codes_Unauthenticated ''token rejected by introspection endpoint'')
                 else Inl (status_Error codes_Internal
                             (''introspection endpoint returned '' @ fmt_d (StatusCode resp))))
           else case unmarshal_map respBody of
               None \<Rightarrow> Inl (status_Error codes_Internal
                         (''failed to parse introspection response: '' @ json_error n respBody))
             | Some raw \<Rightarrow>
                 (if \<not> rfc_active raw
                  then Inl (status_Error codes_Unauthenticated ''token is not active'')
                  else Inr (rfc_result oor raw))))"

definition rfc_Introspect ::
  "'w net \<Rightarrow> (float64 \<Rightarrow> int) \<Rightarrow> rfc7662Introspector \<Rightarrow> go_ctx \<Rightarrow> string \<Rightarrow> 'w \<Rightarrow>
   (IntrospectionResult option \<times> go_error option) \<times> 'w" where
  "rfc_Introspect n oor i ctx credential w =
     (let (reqBody, contentType) = rfc_body i credential
      in case http_NewRequest n (rfc_introspectURL i) reqBody of
          Inl err \<Rightarrow>
            ((None, Some (status_Error codes_Internal (''failed to create request: '' @ err))), w)
        | Inr req \<Rightarrow>
            (case http_Do n (rfc_httpClient i) ctx
                    (req\<lparr>req_header := rfc_headers i ctx contentType credential (req_header req)\<rparr>) w of
               (Inl err, w') \<Rightarrow>
                 ((None, Some (status_Error codes_Internal (''introspection request failed: '' @ err))), w')
             | (Inr resp, w') \<Rightarrow>
                 (case rfc_evaluate n oor i resp of
                    Inl e \<Rightarrow> ((None, Some e), w')
                  | Inr r \<Rightarrow> ((Some r, None), w'))))"

definition rfc_impl :: "'w net \<Rightarrow> (float64 \<Rightarrow> int) \<Rightarrow> rfc7662Introspector \<Rightarrow> 'w Introspector" where
  "rfc_impl n oor i = \<lparr>Scheme = rfc_Scheme i, Introspect = rfc_Introspect n oor i\<rparr>"

lemma rfc_evaluate_error:
  "rfc_evaluate n oor i resp = Inl e \<Longrightarrow>
   err_status e = Some codes_Unauthenticated \<or> err_status e = Some codes_Internal"
  by (auto simp: rfc_evaluate_def split: prod.splits option.splits if_splits)

interpretation rfc: introspector "rfc_impl n oor i" for n oor i
  by unfold_locales
    (auto simp: rfc_impl_def rfc_Introspect_def Let_def dest: rfc_evaluate_error
      split: prod.splits sum.splits)

section \<open>Properties\<close>

text \<open>The one request an introspection sends.\<close>

definition rfc_request :: "rfc7662Introspector \<Rightarrow> go_ctx \<Rightarrow> string \<Rightarrow> http_request" where
  "rfc_request i ctx credential =
     \<lparr>req_method = ''POST'', req_url = rfc_introspectURL i,
      req_header = rfc_headers i ctx (snd (rfc_body i credential)) credential Map.empty,
      req_body = fst (rfc_body i credential)\<rparr>"

text \<open>A response whose body arrives whole and within the limit.\<close>

definition body_within :: "int \<Rightarrow> http_body \<Rightarrow> bool" where
  "body_within limit b \<longleftrightarrow> body_error b = None \<and> int (length (body_data b)) \<le> limit"

lemma rfc_Introspect_unfold:
  "rfc_Introspect n oor i ctx credential w =
     (case http_url_error n (rfc_introspectURL i) of
        Some err \<Rightarrow> ((None, Some (status_Error codes_Internal (''failed to create request: '' @ err))), w)
      | None \<Rightarrow>
          (case http_Do n (rfc_httpClient i) ctx (rfc_request i ctx credential) w of
             (Inl err, w') \<Rightarrow>
               ((None, Some (status_Error codes_Internal (''introspection request failed: '' @ err))), w')
           | (Inr resp, w') \<Rightarrow>
               (case rfc_evaluate n oor i resp of
                  Inl e \<Rightarrow> ((None, Some e), w')
                | Inr r \<Rightarrow> ((Some r, None), w'))))"
  by (simp add: rfc_Introspect_def http_NewRequest_def rfc_request_def case_prod_beta split: option.split)

lemma rfc_Introspect_success:
  "rfc_Introspect n oor i ctx credential w = ((Some r, None), w') \<longleftrightarrow>
     http_url_error n (rfc_introspectURL i) = None \<and>
     (\<exists>resp. http_Do n (rfc_httpClient i) ctx (rfc_request i ctx credential) w = (Inr resp, w') \<and>
             rfc_evaluate n oor i resp = Inr r)"
  by (auto simp: rfc_Introspect_unfold split: option.splits prod.splits sum.splits)

lemma rfc_Introspect_unauthenticated:
  "(\<exists>e w'. rfc_Introspect n oor i ctx credential w = ((None, Some e), w') \<and>
      err_status e = Some codes_Unauthenticated) \<longleftrightarrow>
     http_url_error n (rfc_introspectURL i) = None \<and>
     (\<exists>resp w'. http_Do n (rfc_httpClient i) ctx (rfc_request i ctx credential) w = (Inr resp, w') \<and>
        (\<exists>e. rfc_evaluate n oor i resp = Inl e \<and> err_status e = Some codes_Unauthenticated))"
  by (auto simp: rfc_Introspect_unfold split: option.splits prod.splits sum.splits)

lemma read_limited_next:
  assumes "0 \<le> limit" "limit < 2 ^ 63 - 1"
  shows "read_limited b (int64_wrap (limit + 1)) =
    (take (nat (limit + 1)) (body_data b),
     if int (length (body_data b)) \<le> limit then body_error b else None)"
proof -
  have "in_int64 (limit + 1)" using assms by (simp add: in_int64_def)
  then show ?thesis by (simp add: read_limited_def)
qed

lemma rfc_evaluate_cases:
  assumes "0 < rfc_maxResponseBodySize i" "rfc_maxResponseBodySize i < 2 ^ 63 - 1"
  shows "rfc_evaluate n oor i resp =
    (if \<not> body_within (rfc_maxResponseBodySize i) (Body resp)
     then Inl (status_Error codes_Internal
       (if int (length (body_data (Body resp))) \<le> rfc_maxResponseBodySize i
        then ''failed to read introspection response: '' @ the (body_error (Body resp))
        else ''introspection response body exceeds size limit''))
     else if StatusCode resp = 401
     then Inl (status_Error codes_Unauthenticated ''token rejected by introspection endpoint'')
     else if \<not> is_2xx (StatusCode resp)
     then Inl (status_Error codes_Internal (''introspection endpoint returned '' @ fmt_d (StatusCode resp)))
     else case unmarshal_map (body_data (Body resp)) of
         None \<Rightarrow> Inl (status_Error codes_Internal (''failed to parse introspection response: '' @
                  json_error n (body_data (Body resp))))
       | Some raw \<Rightarrow>
           (if rfc_active raw then Inr (rfc_result oor raw)
            else Inl (status_Error codes_Unauthenticated ''token is not active'')))"
proof (cases "int (length (body_data (Body resp))) \<le> rfc_maxResponseBodySize i")
  case True
  then have "take (nat (rfc_maxResponseBodySize i + 1)) (body_data (Body resp)) = body_data (Body resp)"
    by simp
  with True assms show ?thesis
    by (auto simp: rfc_evaluate_def read_limited_next body_within_def is_2xx_def split: option.split)
next
  case False
  then have "int (length (take (nat (rfc_maxResponseBodySize i + 1)) (body_data (Body resp)))) =
      rfc_maxResponseBodySize i + 1"
    using assms by simp
  with False assms show ?thesis
    by (simp add: rfc_evaluate_def read_limited_next body_within_def)
qed

text \<open>An endpoint that always gives the same answer, and an introspector with default options.\<close>

definition answering :: "int \<Rightarrow> string \<Rightarrow> nat net" where
  "answering status body =
     \<lparr>url_literal = (\<lambda>h. Inr h), url_error_text = (\<lambda>u e. u),
      http_Do = (\<lambda>_ _ _ w. (Inr \<lparr>StatusCode = status, Body = \<lparr>body_data = body, body_error = None\<rparr>\<rparr>, Suc w)),
      json_error = (\<lambda>_. ''invalid'')\<rparr>"

definition example_rfc :: "int \<Rightarrow> rfc7662Introspector" where
  "example_rfc limit =
     \<lparr>rfc_httpClient = rfc_defaultTimeout, rfc_introspectURL = ''https://as/introspect'',
      rfc_maxResponseBodySize = limit, rfc_logger = LevelError,
      rfc_requestIDFunc = None, rfc_requestIDHeaderKey = ''x-request-id'', rfc_authFunc = None,
      rfc_useJSONBody = False\<rparr>"

lemma example_url [simp]: "http_url_error n ''https://as/introspect'' = None"
proof -
  have "url_parts ''as'' ''/introspect'' False []" by (simp add: url_parts_def)
  from parse_http [OF _ this, of "''https''" "url_literal n"] show ?thesis
    by (simp add: http_url_error_def parse_base_def url_Parse_def cut_at_def print_query_def ctl_byte_def
        parseAuthority_def parseHost_def setPath_def char_refused_def shouldEscape_def url_alnum_def byte_in_def)
qed

lemma example_rfc_url [simp]: "rfc_introspectURL (example_rfc l) = ''https://as/introspect''"
  by (simp add: example_rfc_def)

definition active_body :: string where
  "active_body = ''{'' @ [CHR 0x22] @ ''active'' @ [CHR 0x22] @ '':true}''"

lemma active_body_json: "json_parse active_body = Some (JObj [(''active'', JBool True)])"
  by code_simp

lemma active_body_raw: "unmarshal_map active_body = Some [''active'' \<mapsto> AnyBool True]"
  by (simp add: unmarshal_map_def active_body_json last_bindings_def)

text \<open>
  C28. A credential is accepted exactly when the endpoint could be asked, answered with a status
  from 200 to 299 and a body that arrived whole within the limit, and that body is a JSON object
  whose \<open>active\<close> is \<open>true\<close>; the result then is the mapping of that object's claims and nothing else.
\<close>

theorem rfc_Introspect_accepts_iff:
  assumes "0 < rfc_maxResponseBodySize i" "rfc_maxResponseBodySize i < 2 ^ 63 - 1"
  shows "rfc_Introspect n oor i ctx credential w = ((Some r, None), w') \<longleftrightarrow>
    (\<exists>resp raw. http_url_error n (rfc_introspectURL i) = None \<and>
       http_Do n (rfc_httpClient i) ctx (rfc_request i ctx credential) w = (Inr resp, w') \<and>
       body_within (rfc_maxResponseBodySize i) (Body resp) \<and> is_2xx (StatusCode resp) \<and>
       unmarshal_map (body_data (Body resp)) = Some raw \<and> rfc_active raw \<and> r = rfc_result oor raw)"
proof -
  have "rfc_evaluate n oor i resp = Inr r \<longleftrightarrow>
      body_within (rfc_maxResponseBodySize i) (Body resp) \<and> is_2xx (StatusCode resp) \<and>
      (\<exists>raw. unmarshal_map (body_data (Body resp)) = Some raw \<and> rfc_active raw \<and> r = rfc_result oor raw)"
    for resp r
    by (auto simp: rfc_evaluate_cases [OF assms] is_2xx_def split: option.split)
  then show ?thesis unfolding rfc_Introspect_success by blast
qed

theorem rfc_Introspect_accepts_iff_witness:
  "rfc_Introspect (answering 200 active_body) (\<lambda>_. 0) (example_rfc rfc_defaultMaxResponseBodySize)
     \<lparr>ctx_values = [], ctx_incoming = None\<rparr> ''t'' 0 =
   ((Some (rfc_result (\<lambda>_. 0) [''active'' \<mapsto> AnyBool True]), None), 1)"
  by (subst rfc_Introspect_accepts_iff)
    (auto simp: example_rfc_def rfc_defaultMaxResponseBodySize_def answering_def body_within_def
      is_2xx_def active_body_raw rfc_active_def, simp_all add: active_body_def)



text \<open>
  The limit option accepts the largest \<open>int64\<close>, but with it the read limit wraps around to
  a negative number: nothing is read, so every positive answer fails to parse and no credential
  is ever accepted.
\<close>

theorem rfc_max_limit_rejects_all:
  assumes "rfc_maxResponseBodySize i = 2 ^ 63 - 1"
    and "http_url_error n (rfc_introspectURL i) = None"
    and "http_Do n (rfc_httpClient i) ctx (rfc_request i ctx credential) w = (Inr resp, w')"
    and "is_2xx (StatusCode resp)"
  shows "rfc_Introspect n oor i ctx credential w =
    ((None, Some (status_Error codes_Internal (''failed to parse introspection response: '' @ json_error n []))), w')"
proof -
  have "int64_wrap (2 ^ 63 - 1 + 1) = - (2 ^ 63)" by (simp add: int64_wrap_def)
  then have "read_limited b (int64_wrap (2 ^ 63 - 1 + 1)) = ([], None)" for b
    by (simp add: read_limited_def)
  moreover have "unmarshal_map [] = None"
    by (simp add: unmarshal_map_def json_parse_def json_tokens.simps)
  ultimately have "rfc_evaluate n oor i resp =
      Inl (status_Error codes_Internal (''failed to parse introspection response: '' @ json_error n []))"
    using assms(1,4) by (simp add: rfc_evaluate_def is_2xx_def)
  with assms(2,3) show ?thesis by (simp add: rfc_Introspect_unfold)
qed

theorem rfc_max_limit_rejects_all_witness:
  "rfc_Introspect (answering 200 active_body) (\<lambda>_. 0) (example_rfc (2 ^ 63 - 1))
     \<lparr>ctx_values = [], ctx_incoming = None\<rparr> ''t'' 0 =
   ((None, Some (status_Error codes_Internal ''failed to parse introspection response: invalid'')), 1)"
  by (subst rfc_max_limit_rejects_all)
    (auto simp: example_rfc_def answering_def is_2xx_def)

text \<open>
  The inspected credential reaches the endpoint intact. Form body: one \<open>token\<close> parameter whose
  value decodes to the credential, and no \<open>&\<close> that could start another parameter. JSON body:
  an object whose only key is \<open>token\<close>, with the credential as its value when it is UTF-8.
\<close>

theorem rfc_request_carries_credential:
  assumes "utf8_Valid credential"
  shows "if rfc_useJSONBody i
    then json_parse (req_body (rfc_request i ctx credential)) = Some (JObj [(''token'', JStr credential)])
    else \<exists>v. req_body (rfc_request i ctx credential) = ''token='' @ v \<and>
             url_QueryUnescape v = credential \<and> CHR ''&'' \<notin> set v \<and> CHR ''='' \<notin> set v"
  using assms
  by (simp add: rfc_request_def rfc_body_def json_parse_Marshal maxNestingDepth_def coerce_utf8_valid
      QueryEscape_no_separator)

theorem rfc_request_carries_credential_witness:
  "\<exists>v. req_body (rfc_request (example_rfc 1) \<lparr>ctx_values = [], ctx_incoming = None\<rparr> ''a&b'') = ''token='' @ v \<and>
     url_QueryUnescape v = ''a&b'' \<and> CHR ''&'' \<notin> set v \<and> CHR ''='' \<notin> set v"
proof -
  have "utf8_Valid ''a&b''" by (rule utf8_Valid_ascii) (simp add: ascii_def byte_in_def)
  from rfc_request_carries_credential [OF this, of "example_rfc 1"] show ?thesis
    by (simp add: example_rfc_def)
qed

lemma pctEncode_alt:
  "pctEncode s = concat (map (\<lambda>c. if c = CHR '' '' then ''%20'' else query_escape_char c) s)"
proof (induction s)
  case (Cons c s)
  have "concat (map (\<lambda>c. if c = CHR ''+'' then ''%20'' else [c]) (query_escape_char c)) =
      (if c = CHR '' '' then ''%20'' else query_escape_char c)"
    using unreserved_not_special [of c] hex_upper_not_special [of c]
    by (auto simp: query_escape_char_def url_unreserved_def byte_in_def)
  with Cons show ?case by (simp add: pctEncode_def url_QueryEscape_def ReplaceAll_char)
qed (simp add: pctEncode_def url_QueryEscape_def)

lemma unescape_pctEncode: "url_QueryUnescape (pctEncode s) = s"
  unfolding pctEncode_alt
proof (induction s)
  case (Cons c s)
  have "char_of (16 * hex_upper_value CHR ''2'' + hex_upper_value CHR ''0'') = CHR '' ''"
    by code_simp
  with Cons show ?case by (simp add: unescape_escape_char)
qed simp

lemma pctEncode_no_colon: "CHR '':'' \<notin> set (pctEncode s)"
proof -
  have "CHR '':'' \<notin> set (query_escape_char c)" for c
    using hex_upper_not_special [of c] by (auto simp: query_escape_char_def url_unreserved_def byte_in_def)
  then show ?thesis by (auto simp: pctEncode_alt)
qed

text \<open>
  Basic credentials survive the encoding: the header value decodes to two parts around the
  first colon, and percent-decoding them gives back the client id and the client secret,
  colons, spaces and plus signs in either of them included. Only an empty part is refused.
\<close>

theorem WithClientCredentials_roundtrip:
  "if clientID = [] \<or> clientSecret = [] then \<not> returns (WithClientCredentials clientID clientSecret)
   else \<exists>opt v u s. WithClientCredentials clientID clientSecret = Return opt \<and>
     map_option (\<lambda>f. f credential) (rfcc_authFunc (opt c)) = Some (''Authorization'', ''Basic '' @ v) \<and>
     base64_Decode v = u @ CHR '':'' # s \<and> CHR '':'' \<notin> set u \<and>
     url_QueryUnescape u = clientID \<and> url_QueryUnescape s = clientSecret"
proof (cases "clientID = [] \<or> clientSecret = []")
  case False
  let ?v = "base64_Encode (pctEncode clientID @ '':'' @ pctEncode clientSecret)"
  let ?opt = "\<lambda>c. c\<lparr>rfcc_authFunc := Some (\<lambda>_. (''Authorization'', ''Basic '' @ ?v))\<rparr>"
  have "WithClientCredentials clientID clientSecret = Return ?opt"
    using False by (simp add: WithClientCredentials_def Let_def)
  moreover have "base64_Decode ?v = pctEncode clientID @ CHR '':'' # pctEncode clientSecret" by simp
  moreover have "map_option (\<lambda>f. f credential) (rfcc_authFunc (?opt c)) =
      Some (''Authorization'', ''Basic '' @ ?v)" by simp
  ultimately show ?thesis
    using False unescape_pctEncode [of clientID] unescape_pctEncode [of clientSecret]
      pctEncode_no_colon [of clientID] by auto
qed (auto simp: WithClientCredentials_def)

end
