(* ===== verification/Introspection_Cache.thy ===== *)
theory Introspection_Cache
  imports Go_Runtime "HOL-Library.Multiset"
begin

text \<open>
  \<open>token_introspection/cache.go\<close>: the interface \<open>Cache\<close> and the in-memory cache with its
  time-to-live, its bound on the number of entries and its background sweep. The map of entries is
  an association list with distinct keys. \<open>sync.Map.Range\<close> visits the entries in an order of its own:
  \<open>perm n\<close> is the order of the visit made while \<open>n\<close> entries are counted. Every reading of the clock
  is an argument.
\<close>

section \<open>The interface\<close>

text \<open>
  A cache as the interceptor uses it; the world holds its state and the clock. \<open>Get\<close> answers with
  a pointer and whether the key was found.
\<close>

record 'w Cache =
  Cache_Get :: "string \<Rightarrow> 'w \<Rightarrow> (IntrospectionResult option \<times> bool) \<times> 'w"
  Cache_Set :: "string \<Rightarrow> IntrospectionResult \<Rightarrow> 'w \<Rightarrow> 'w"

text \<open>
  What a cache promises: a hit yields what was stored under the key, and the only thing
  that ever adds to its contents is \<open>Set\<close>. A cache may forget at any time.
\<close>

locale result_cache =
  fixes C :: "'w Cache"
    and valid :: "'w \<Rightarrow> bool"
    and holds :: "'w \<Rightarrow> string \<rightharpoonup> IntrospectionResult"
  assumes hit: "valid w \<Longrightarrow> Cache_Get C k w = ((x, True), w') \<Longrightarrow> x \<noteq> None \<and> holds w k = x"
    and get_keeps: "valid w \<Longrightarrow> Cache_Get C k w = (y, w') \<Longrightarrow> valid w' \<and> holds w' \<subseteq>\<^sub>m holds w"
    and set_adds: "valid w \<Longrightarrow> valid (Cache_Set C k r w) \<and> holds (Cache_Set C k r w) \<subseteq>\<^sub>m (holds w)(k \<mapsto> r)"
begin

text \<open>A property of all contents survives every use of the cache that stores only what has it.\<close>

definition all_hold :: "(string \<Rightarrow> IntrospectionResult \<Rightarrow> bool) \<Rightarrow> 'w \<Rightarrow> bool" where
  "all_hold P w \<longleftrightarrow> valid w \<and> (\<forall>k r. holds w k = Some r \<longrightarrow> P k r)"

lemma all_hold_hit: "all_hold P w \<Longrightarrow> Cache_Get C k w = ((x, True), w') \<Longrightarrow> \<exists>r. x = Some r \<and> P k r"
  using hit [of w k x w'] by (auto simp: all_hold_def)

lemma all_hold_get: "all_hold P w \<Longrightarrow> Cache_Get C k w = (x, w') \<Longrightarrow> all_hold P w'"
  using get_keeps [of w k x w'] by (force simp: all_hold_def map_le_def dom_def)

lemma all_hold_set: "all_hold P w \<Longrightarrow> P k r \<Longrightarrow> all_hold P (Cache_Set C k r w)"
proof -
  assume all: "all_hold P w" and P: "P k r"
  then have sub: "holds (Cache_Set C k r w) \<subseteq>\<^sub>m (holds w)(k \<mapsto> r)" "valid (Cache_Set C k r w)"
    using set_adds by (auto simp: all_hold_def)
  have "P k' r'" if "holds (Cache_Set C k r w) k' = Some r'" for k' r'
  proof -
    from sub(1) that have "((holds w)(k \<mapsto> r)) k' = Some r'" by (force simp: map_le_def dom_def)
    with all P show ?thesis by (auto simp: all_hold_def split: if_splits)
  qed
  with sub(2) show ?thesis by (simp add: all_hold_def)
qed

end

section \<open>The in-memory cache\<close>

record cacheEntry =
  ce_result :: IntrospectionResult
  ce_expiresAt :: time

record inMemoryCacheConfig =
  cfg_maxEntries :: int
  cfg_sweepInterval :: int

type_synonym InMemoryCacheOption = "inMemoryCacheConfig \<Rightarrow> inMemoryCacheConfig"

definition WithMaxEntries :: "int \<Rightarrow> InMemoryCacheOption" where
  "WithMaxEntries n =
     (let n = (if n < 0 then 0 else n) in (\<lambda>c. c\<lparr>cfg_maxEntries := n\<rparr>))"

definition WithSweepInterval :: "int \<Rightarrow> InMemoryCacheOption" where
  "WithSweepInterval d = (\<lambda>c. c\<lparr>cfg_sweepInterval := d\<rparr>)"

type_synonym cache_entries = "(string \<times> cacheEntry) list"
type_synonym range_order = "nat \<Rightarrow> cache_entries \<Rightarrow> cache_entries"

record inMemoryCache =
  ttl :: int
  maxEntries :: int
  entries :: cache_entries

text \<open>The cache and, when a sweep goroutine is started, its interval.\<close>

definition NewInMemoryCache :: "int \<Rightarrow> InMemoryCacheOption list \<Rightarrow> inMemoryCache \<times> int option" where
  "NewInMemoryCache d opts =
     (let cfg = apply_opts opts \<lparr>cfg_maxEntries = 0, cfg_sweepInterval = d\<rparr>
      in (\<lparr>ttl = d, maxEntries = cfg_maxEntries cfg, entries = []\<rparr>,
          if cfg_sweepInterval cfg > 0 then Some (cfg_sweepInterval cfg) else None))"

text \<open>One tick of the sweep: \<open>Range\<close> visits the entries in some order and deletes as it goes.\<close>

fun sweep_range :: "time \<Rightarrow> cache_entries \<Rightarrow> cache_entries \<Rightarrow> cache_entries" where
  "sweep_range now [] es = es"
| "sweep_range now ((key, entry) # visits) es =
     sweep_range now visits
       (if time_After now (ce_expiresAt entry) then AList.delete key es else es)"

definition sweep :: "range_order \<Rightarrow> time \<Rightarrow> inMemoryCache \<Rightarrow> inMemoryCache" where
  "sweep perm now c = c\<lparr>entries := sweep_range now (perm (length (entries c)) (entries c)) (entries c)\<rparr>"

definition inMemoryCache_Get ::
  "time \<Rightarrow> string \<Rightarrow> inMemoryCache \<Rightarrow> (IntrospectionResult option \<times> bool) \<times> inMemoryCache" where
  "inMemoryCache_Get now key c =
     (case map_of (entries c) key of
        None \<Rightarrow> ((None, False), c)
      | Some entry \<Rightarrow>
          (if time_After now (ce_expiresAt entry)
           then ((None, False), c\<lparr>entries := AList.delete key (entries c)\<rparr>)
           else ((Some (ce_result entry), True), c)))"

fun find_oldest :: "cache_entries \<Rightarrow> (string \<times> time) option \<Rightarrow> (string \<times> time) option" where
  "find_oldest [] oldest = oldest"
| "find_oldest ((key, entry) # visits) oldest =
     find_oldest visits
       (case oldest of
          None \<Rightarrow> Some (key, ce_expiresAt entry)
        | Some (oldestKey, oldestExpiry) \<Rightarrow>
            (if time_Before (ce_expiresAt entry) oldestExpiry then Some (key, ce_expiresAt entry)
             else oldest))"

definition evict_one :: "cache_entries \<Rightarrow> cache_entries \<Rightarrow> cache_entries" where
  "evict_one visits es =
     (case find_oldest visits None of
        None \<Rightarrow> es
      | Some (oldestKey, _) \<Rightarrow> AList.delete oldestKey es)"

fun evict_loop :: "range_order \<Rightarrow> int \<Rightarrow> nat \<Rightarrow> cache_entries \<Rightarrow> cache_entries" where
  "evict_loop perm limit 0 es = es"
| "evict_loop perm limit (Suc cnt) es =
     (if int (Suc cnt) > limit
      then evict_loop perm limit cnt (evict_one (perm (Suc cnt) es) es)
      else es)"

definition evictIfNeeded :: "range_order \<Rightarrow> inMemoryCache \<Rightarrow> inMemoryCache" where
  "evictIfNeeded perm c =
     c\<lparr>entries := evict_loop perm (maxEntries c) (length (entries c)) (entries c)\<rparr>"

definition expiry_of :: "int \<Rightarrow> time \<Rightarrow> IntrospectionResult \<Rightarrow> time" where
  "expiry_of d now result =
     (let expiry = time_Add now d
      in if \<not> time_IsZero (ExpiresAt result) \<and> time_Before (ExpiresAt result) expiry
         then ExpiresAt result else expiry)"

definition inMemoryCache_Set ::
  "range_order \<Rightarrow> time \<Rightarrow> string \<Rightarrow> IntrospectionResult \<Rightarrow> inMemoryCache \<Rightarrow> inMemoryCache" where
  "inMemoryCache_Set perm now key result c =
     (let entry = \<lparr>ce_result = result, ce_expiresAt = expiry_of (ttl c) now result\<rparr>;
          c = c\<lparr>entries := AList.update key entry (entries c)\<rparr>
      in if maxEntries c > 0 then evictIfNeeded perm c else c)"

section \<open>Every operation only forgets\<close>

definition cache_inv :: "inMemoryCache \<Rightarrow> bool" where
  "cache_inv c \<longleftrightarrow> distinct (map fst (entries c))"

lemma map_of_delete_le: "map_of (AList.delete k es) \<subseteq>\<^sub>m map_of es"
  by (simp add: map_of_delete map_le_def)

lemma sweep_range_le: "map_of (sweep_range now vs es) \<subseteq>\<^sub>m map_of es"
  by (induction now vs es rule: sweep_range.induct)
    (auto intro: map_le_trans map_of_delete_le)

lemma sweep_range_distinct:
  "distinct (map fst es) \<Longrightarrow> distinct (map fst (sweep_range now vs es))"
  by (induction now vs es rule: sweep_range.induct) (auto simp: AList.distinct_delete)

lemma evict_one_le: "map_of (evict_one vs es) \<subseteq>\<^sub>m map_of es"
  by (auto simp: evict_one_def map_of_delete_le split: option.split)

lemma evict_one_distinct: "distinct (map fst es) \<Longrightarrow> distinct (map fst (evict_one vs es))"
  by (auto simp: evict_one_def AList.distinct_delete split: option.split)

lemma evict_loop_le: "map_of (evict_loop perm limit n es) \<subseteq>\<^sub>m map_of es"
proof (induction n arbitrary: es)
  case (Suc n)
  show ?case
    using map_le_trans [OF Suc.IH evict_one_le] by simp
qed simp

lemma evict_loop_distinct:
  "distinct (map fst es) \<Longrightarrow> distinct (map fst (evict_loop perm limit n es))"
  by (induction n arbitrary: es) (simp_all add: evict_one_distinct)

lemma Get_le: "map_of (entries (snd (inMemoryCache_Get now k c))) \<subseteq>\<^sub>m map_of (entries c)"
  by (simp add: inMemoryCache_Get_def map_of_delete_le split: option.split)

lemma Set_le:
  "map_of (entries (inMemoryCache_Set perm now k r c)) \<subseteq>\<^sub>m
     (map_of (entries c))(k \<mapsto> \<lparr>ce_result = r, ce_expiresAt = expiry_of (ttl c) now r\<rparr>)"
  using evict_loop_le [of perm "maxEntries c" _ "AList.update k _ (entries c)"]
  by (simp add: inMemoryCache_Set_def evictIfNeeded_def Let_def map_of_update)

lemma cache_inv_ops:
  assumes "cache_inv c"
  shows "cache_inv (snd (inMemoryCache_Get now k c))" "cache_inv (inMemoryCache_Set perm now k r c)"
    "cache_inv (sweep perm now c)"
  using assms
  by (auto simp: cache_inv_def inMemoryCache_Get_def inMemoryCache_Set_def evictIfNeeded_def sweep_def
      Let_def AList.distinct_delete AList.distinct_update evict_loop_distinct sweep_range_distinct
      split: option.split)

text \<open>The in-memory cache in a world that holds it next to everything else, with a clock.\<close>

definition inMemoryCache_impl ::
  "('v \<Rightarrow> time) \<Rightarrow> ('v \<Rightarrow> range_order) \<Rightarrow> (inMemoryCache \<times> 'v) Cache" where
  "inMemoryCache_impl clock perm =
     \<lparr>Cache_Get = (\<lambda>key (c, v). let (x, c') = inMemoryCache_Get (clock v) key c in (x, c', v)),
      Cache_Set = (\<lambda>key result (c, v). (inMemoryCache_Set (perm v) (clock v) key result c, v))\<rparr>"

definition cached :: "inMemoryCache \<Rightarrow> string \<rightharpoonup> IntrospectionResult" where
  "cached c = map_option ce_result \<circ> map_of (entries c)"

lemma cached_le: "map_of (entries c) \<subseteq>\<^sub>m map_of (entries d) \<Longrightarrow> cached c \<subseteq>\<^sub>m cached d"
  by (force simp: map_le_def cached_def dom_def)

interpretation mem: result_cache "inMemoryCache_impl clock perm" "\<lambda>w. cache_inv (fst w)"
    "\<lambda>w. cached (fst w)" for clock perm
proof unfold_locales
  fix w :: "inMemoryCache \<times> 'a" and k x w'
  obtain c v where w: "w = (c, v)" by fastforce
  {
    assume "Cache_Get (inMemoryCache_impl clock perm) k w = ((x, True), w')"
    then show "x \<noteq> None \<and> cached (fst w) k = x"
      by (auto simp: w inMemoryCache_impl_def inMemoryCache_Get_def cached_def
          split: option.splits if_splits)
  }
next
  fix w :: "inMemoryCache \<times> 'a" and k x w'
  obtain c v where w: "w = (c, v)" by fastforce
  assume "cache_inv (fst w)" and "Cache_Get (inMemoryCache_impl clock perm) k w = (x, w')"
  then show "cache_inv (fst w') \<and> cached (fst w') \<subseteq>\<^sub>m cached (fst w)"
    using cache_inv_ops(1) [of c "clock v" k] cached_le [OF Get_le, of "clock v" k c]
    by (auto simp: w inMemoryCache_impl_def case_prod_beta)
next
  fix w :: "inMemoryCache \<times> 'a" and k r
  obtain c v where w: "w = (c, v)" by fastforce
  assume "cache_inv (fst w)"
  moreover have "cached (inMemoryCache_Set (perm v) (clock v) k r c) \<subseteq>\<^sub>m (cached c)(k \<mapsto> r)"
    using Set_le [of "perm v" "clock v" k r c] by (force simp: map_le_def cached_def dom_def split: if_splits)
  ultimately show "cache_inv (fst (Cache_Set (inMemoryCache_impl clock perm) k r w)) \<and>
      cached (fst (Cache_Set (inMemoryCache_impl clock perm) k r w)) \<subseteq>\<^sub>m (cached (fst w))(k \<mapsto> r)"
    by (simp add: w inMemoryCache_impl_def cache_inv_ops(2))
qed

section \<open>Eviction\<close>

lemma find_oldest_in:
  "find_oldest vs oldest = Some (k, t) \<Longrightarrow> oldest = Some (k, t) \<or> (\<exists>e. (k, e) \<in> set vs \<and> t = ce_expiresAt e)"
  by (induction vs oldest rule: find_oldest.induct) (fastforce split: option.splits if_splits)+

lemma find_oldest_Some: "vs \<noteq> [] \<or> oldest \<noteq> None \<Longrightarrow> find_oldest vs oldest \<noteq> None"
  by (induction vs oldest rule: find_oldest.induct) (auto split: option.splits)

lemma evict_one_length:
  assumes "distinct (map fst es)" "es \<noteq> []" "mset vs = mset es"
  shows "length es = Suc (length (evict_one vs es))"
proof -
  from assms(2,3) have "vs \<noteq> []" by auto
  then obtain k t where kt: "find_oldest vs None = Some (k, t)"
    using find_oldest_Some by (metis old.prod.exhaust option.exhaust)
  with find_oldest_in [OF kt] have "k \<in> fst ` set vs" by force
  with assms(3) have "k \<in> fst ` set es" by (metis set_mset_mset)
  with length_delete_present [OF assms(1)] kt show ?thesis by (simp add: evict_one_def)
qed

lemma evict_loop_length:
  assumes "\<And>n es. mset (perm n es) = mset es" and "distinct (map fst es)" and "0 < limit"
  shows "int (length (evict_loop perm limit (length es) es)) = min limit (int (length es))"
  using assms(2)
proof (induction "length es" arbitrary: es)
  case (Suc n)
  show ?case
  proof (cases "int (length es) > limit")
    case True
    define es' where "es' = evict_one (perm (Suc n) es) es"
    from Suc.hyps(2) have "es \<noteq> []" by auto
    with evict_one_length [OF Suc.prems _ assms(1), of "Suc n"] Suc.hyps(2) have len: "n = length es'"
      unfolding es'_def by linarith
    have "evict_loop perm limit (Suc n) es = evict_loop perm limit n es'"
      using True Suc.hyps(2) [symmetric] by (simp add: es'_def)
    then have "evict_loop perm limit (length es) es = evict_loop perm limit (length es') es'"
      by (simp only: len [symmetric] Suc.hyps(2) [symmetric])
    then have "int (length (evict_loop perm limit (length es) es)) = min limit (int (length es'))"
      using Suc.hyps(1) [OF len] evict_one_distinct [OF Suc.prems] by (simp only: es'_def)
    moreover have "int (length es) = int (length es') + 1" using len Suc.hyps(2) by linarith
    ultimately show ?thesis using True by linarith
  next
    case False
    with Suc.hyps(2) [symmetric] show ?thesis by simp
  qed
qed (use assms(3) in simp)

text \<open>
  Wall and monotonic readings agree when they differ by a constant, that is, when the wall clock is
  not stepped while the process runs. Then comparing two times compares their wall readings.
\<close>

definition steady :: "int \<Rightarrow> time \<Rightarrow> bool" where
  "steady off t \<longleftrightarrow> (case mono t of None \<Rightarrow> True | Some m \<Rightarrow> m + off = wall t)"

lemma time_Before_steady: "steady off t \<Longrightarrow> steady off u \<Longrightarrow> time_Before t u \<longleftrightarrow> wall t < wall u"
  by (auto simp: steady_def time_Before_def split: option.splits)

lemma steady_Add: "steady off t \<Longrightarrow> steady off (time_Add t d)"
  by (auto simp: steady_def time_Add_def split: option.splits)

lemma steady_expiry: "steady off t \<Longrightarrow> steady off (ExpiresAt r) \<Longrightarrow> steady off (expiry_of d t r)"
  by (simp add: expiry_of_def Let_def steady_Add)

definition steady_entries :: "int \<Rightarrow> cache_entries \<Rightarrow> bool" where
  "steady_entries off es \<longleftrightarrow> list_all (\<lambda>(k, e). steady off (ce_expiresAt e)) es"

lemma find_oldest_earliest:
  assumes "find_oldest vs oldest = Some (k, t)" and "steady_entries off vs"
    and "\<And>k' t'. oldest = Some (k', t') \<Longrightarrow> steady off t'"
  shows "(\<forall>k' e. (k', e) \<in> set vs \<longrightarrow> wall t \<le> wall (ce_expiresAt e)) \<and>
         (\<forall>k' t'. oldest = Some (k', t') \<longrightarrow> wall t \<le> wall t')"
  using assms
proof (induction vs oldest rule: find_oldest.induct)
  case (2 key entry vs oldest)
  show ?case
  proof (cases oldest)
    case None
    with 2 show ?thesis by (fastforce simp: steady_entries_def)
  next
    case (Some p)
    obtain k' t' where p: "p = (k', t')" by fastforce
    have before: "time_Before (ce_expiresAt entry) t' \<longleftrightarrow> wall (ce_expiresAt entry) < wall t'"
      using 2 Some p by (intro time_Before_steady) (auto simp: steady_entries_def)
    show ?thesis
    proof (cases "time_Before (ce_expiresAt entry) t'")
      case True
      with 2 Some p before show ?thesis by (fastforce simp: steady_entries_def)
    next
      case False
      with 2 Some p before show ?thesis by (fastforce simp: steady_entries_def)
    qed
  qed
qed simp

lemma evict_one_earliest:
  assumes "mset vs = mset es" and "steady_entries off es" and "distinct (map fst es)"
    and "map_of es k1 = Some e1" "map_of (evict_one vs es) k1 = None" "map_of es k2 = Some e2"
  shows "wall (ce_expiresAt e1) \<le> wall (ce_expiresAt e2)"
proof -
  from assms(1) have set: "set vs = set es" by (metis set_mset_mset)
  with assms(2) have st: "steady_entries off vs" by (simp add: steady_entries_def list_all_iff)
  from assms(4,5) obtain t where old: "find_oldest vs None = Some (k1, t)"
    by (auto simp: evict_one_def map_of_delete split: option.splits if_splits)
  from find_oldest_in [OF old] set obtain e where "(k1, e) \<in> set es" "t = ce_expiresAt e" by auto
  with assms(3,4) have "t = ce_expiresAt e1" by (auto dest: map_of_is_SomeI)
  moreover from assms(6) set have "(k2, e2) \<in> set vs" by (auto dest: map_of_SomeD)
  ultimately show ?thesis using find_oldest_earliest [OF old st] by auto
qed

lemma evict_loop_earliest:
  assumes "\<And>n es. mset (perm n es) = mset es" and "steady_entries off es" and "distinct (map fst es)"
    and "map_of es k1 = Some e1" "map_of (evict_loop perm limit n es) k1 = None"
    and "map_of (evict_loop perm limit n es) k2 = Some e2"
  shows "wall (ce_expiresAt e1) \<le> wall (ce_expiresAt e2)"
  using assms(2-)
proof (induction n arbitrary: es)
  case (Suc n)
  define es' where "es' = evict_one (perm (Suc n) es) es"
  have step: "evict_loop perm limit (Suc n) es = evict_loop perm limit n es'"
    using Suc.prems(3,4) by (auto simp: es'_def split: if_splits)
  show ?case
  proof (cases "map_of es' k1")
    case None
    from Suc.prems(5) evict_loop_le [of perm limit "Suc n" es] have "map_of es k2 = Some e2"
      by (force simp: map_le_def dom_def)
    from evict_one_earliest [OF assms(1) Suc.prems(1,2,3) _ this] None show ?thesis
      by (simp add: es'_def)
  next
    case (Some e)
    with evict_one_le [of "perm (Suc n) es" es] Suc.prems(3) have "e = e1"
      by (force simp: map_le_def dom_def es'_def)
    moreover have "steady_entries off es'"
      using Suc.prems(1) by (auto simp: es'_def evict_one_def steady_entries_def list_all_iff
          AList.delete_eq split: option.splits)
    ultimately show ?thesis
      using Suc.IH [of es'] Some evict_one_distinct [OF Suc.prems(2)] Suc.prems(4,5) [unfolded step]
      by (simp add: es'_def)
  qed
qed simp

section \<open>Histories\<close>

text \<open>
  A history is the sequence of operations a cache has gone through, each with its reading of
  the clock. The reference is a map that remembers for every key the last \<open>Set\<close>.
\<close>

datatype cache_op =
    OpGet time string
  | OpSet time string IntrospectionResult
  | OpSweep time

fun cache_step :: "range_order \<Rightarrow> cache_op \<Rightarrow> inMemoryCache \<Rightarrow> inMemoryCache" where
  "cache_step perm (OpGet now k) c = snd (inMemoryCache_Get now k c)"
| "cache_step perm (OpSet now k r) c = inMemoryCache_Set perm now k r c"
| "cache_step perm (OpSweep now) c = sweep perm now c"

definition run_ops :: "range_order \<Rightarrow> cache_op list \<Rightarrow> inMemoryCache \<Rightarrow> inMemoryCache" where
  "run_ops perm ops c = fold (cache_step perm) ops c"

fun record_set :: "cache_op \<Rightarrow> (string \<rightharpoonup> time \<times> IntrospectionResult) \<Rightarrow> (string \<rightharpoonup> time \<times> IntrospectionResult)" where
  "record_set (OpSet now k r) m = m(k \<mapsto> (now, r))"
| "record_set _ m = m"

definition last_set :: "cache_op list \<Rightarrow> string \<rightharpoonup> time \<times> IntrospectionResult" where
  "last_set ops = fold record_set ops Map.empty"

lemma run_ops_snoc: "run_ops perm (ops @ [op]) c = cache_step perm op (run_ops perm ops c)"
  by (simp add: run_ops_def)

lemma last_set_snoc: "last_set (ops @ [op]) = record_set op (last_set ops)"
  by (simp add: last_set_def)

text \<open>Every entry is the one its key's last \<open>Set\<close> made.\<close>

definition entry_for :: "int \<Rightarrow> time \<times> IntrospectionResult \<Rightarrow> cacheEntry" where
  "entry_for d p = \<lparr>ce_result = snd p, ce_expiresAt = expiry_of d (fst p) (snd p)\<rparr>"

definition reflects :: "int \<Rightarrow> (string \<rightharpoonup> time \<times> IntrospectionResult) \<Rightarrow> inMemoryCache \<Rightarrow> bool" where
  "reflects d m c \<longleftrightarrow> ttl c = d \<and> map_of (entries c) \<subseteq>\<^sub>m map_option (entry_for d) \<circ> m"

lemma cache_step_config [simp]:
  "ttl (cache_step perm op c) = ttl c" "maxEntries (cache_step perm op c) = maxEntries c"
  by (cases op; simp add: inMemoryCache_Get_def inMemoryCache_Set_def evictIfNeeded_def sweep_def
      Let_def split: option.split)+

lemma reflects_step: "reflects d m c \<Longrightarrow> reflects d (record_set op m) (cache_step perm op c)"
proof (cases op)
  case (OpGet now k)
  then show "reflects d m c \<Longrightarrow> ?thesis"
    using map_le_trans [OF Get_le] cache_step_config(1) [of perm op c] by (auto simp: reflects_def)
next
  case (OpSweep now)
  then show "reflects d m c \<Longrightarrow> ?thesis"
    using map_le_trans [OF sweep_range_le] by (auto simp: reflects_def sweep_def)
next
  case (OpSet now k r)
  assume "reflects d m c"
  then have m: "ttl c = d" "map_of (entries c) \<subseteq>\<^sub>m map_option (entry_for d) \<circ> m"
    by (auto simp: reflects_def)
  from m(2) have "(map_of (entries c))(k \<mapsto> entry_for d (now, r)) \<subseteq>\<^sub>m
      map_option (entry_for d) \<circ> m(k \<mapsto> (now, r))"
    by (auto simp: map_le_def)
  with map_le_trans [OF Set_le] m(1) show ?thesis
    using cache_step_config(1) [of perm op c] OpSet by (simp add: reflects_def entry_for_def)
qed

lemma reflects_run: "reflects d (last_set ops) (run_ops perm ops (fst (NewInMemoryCache d opts)))"
proof (induction ops rule: rev_induct)
  case Nil
  then show ?case by (simp add: reflects_def run_ops_def NewInMemoryCache_def Let_def)
qed (simp add: run_ops_snoc last_set_snoc reflects_step)

lemma hit_last_set:
  assumes "reflects d m c" and "fst (inMemoryCache_Get now k c) = (x, True)"
  shows "\<exists>t r. x = Some r \<and> m k = Some (t, r) \<and> \<not> time_After now (expiry_of d t r)"
proof -
  from assms(2) obtain e where e: "map_of (entries c) k = Some e" "x = Some (ce_result e)"
    "\<not> time_After now (ce_expiresAt e)"
    by (auto simp: inMemoryCache_Get_def split: option.splits if_splits)
  with assms(1) have "map_option (entry_for d) (m k) = Some e"
    by (force simp: reflects_def map_le_def dom_def)
  with e show ?thesis by (auto simp: entry_for_def)
qed

subsection \<open>Without a bound nothing is forgotten early\<close>

fun op_time :: "cache_op \<Rightarrow> time" where
  "op_time (OpGet now k) = now"
| "op_time (OpSet now k r) = now"
| "op_time (OpSweep now) = now"

fun op_steady :: "int \<Rightarrow> cache_op \<Rightarrow> bool" where
  "op_steady off (OpSet now k r) \<longleftrightarrow> steady off now \<and> steady off (ExpiresAt r)"
| "op_steady off op \<longleftrightarrow> steady off (op_time op)"

text \<open>Operations in the order of a clock that is not stepped.\<close>

definition steady_history :: "int \<Rightarrow> cache_op list \<Rightarrow> bool" where
  "steady_history off ops \<longleftrightarrow>
     list_all (op_steady off) ops \<and> sorted (map (wall \<circ> op_time) ops)"

definition remembers ::
  "int \<Rightarrow> int \<Rightarrow> (string \<rightharpoonup> time \<times> IntrospectionResult) \<Rightarrow> inMemoryCache \<Rightarrow> int \<Rightarrow> bool" where
  "remembers off d m c T \<longleftrightarrow>
     (\<forall>k p. m k = Some p \<longrightarrow> steady off (expiry_of d (fst p) (snd p)) \<and>
        (map_of (entries c) k = Some (entry_for d p) \<or> wall (expiry_of d (fst p) (snd p)) < T))"

lemma sweep_range_keeps:
  assumes "map_of (sweep_range now vs es) k = None" and "map_of es k = Some e"
  shows "\<exists>e'. (k, e') \<in> set vs \<and> time_After now (ce_expiresAt e')"
  using assms
proof (induction now vs es rule: sweep_range.induct)
  case (2 now key entry vs es)
  show ?case
  proof (cases "time_After now (ce_expiresAt entry) \<and> key = k")
    case False
    then have "map_of (if time_After now (ce_expiresAt entry) then AList.delete key es else es) k = Some e"
      using 2 by (auto simp: map_of_delete)
    with 2 show ?thesis by auto
  qed auto
qed simp

lemma steady_After: "steady off t \<Longrightarrow> steady off u \<Longrightarrow> time_After t u \<longleftrightarrow> wall u < wall t"
  by (simp add: time_After_def time_Before_steady)

lemma remembers_step:
  assumes "\<And>n es. mset (perm n es) = mset es" and "maxEntries c \<le> 0" "ttl c = d" "cache_inv c"
    and "remembers off d m c T" "op_steady off op" "T \<le> wall (op_time op)"
  shows "remembers off d (record_set op m) (cache_step perm op c) (wall (op_time op))"
proof (cases op)
  case (OpGet now k)
  then show ?thesis
    using assms(5-7)
    by (fastforce simp: remembers_def inMemoryCache_Get_def map_of_delete entry_for_def steady_After
        split: option.splits)
next
  case (OpSet now k r)
  then show ?thesis
    using assms(2-7) steady_expiry [of off now r d]
    by (fastforce simp: remembers_def inMemoryCache_Set_def Let_def map_of_update entry_for_def)
next
  case (OpSweep now)
  have "wall (expiry_of d (fst p) (snd p)) < wall now"
    if "map_of (entries c) k = Some (entry_for d p)" "map_of (entries (sweep perm now c)) k = None"
      "steady off (expiry_of d (fst p) (snd p))" for k p
  proof -
    from that(1,2) obtain e where e: "(k, e) \<in> set (perm (length (entries c)) (entries c))"
      "time_After now (ce_expiresAt e)"
      by (auto simp: sweep_def dest!: sweep_range_keeps)
    then have "(k, e) \<in> set (entries c)" using assms(1) by (metis set_mset_mset)
    with assms(4) that(1) have "e = entry_for d p" by (auto simp: cache_inv_def dest: map_of_is_SomeI)
    with e(2) that(3) assms(6) OpSweep show ?thesis by (simp add: entry_for_def steady_After)
  qed
  moreover have "map_of (entries (sweep perm now c)) k = Some x"
    if "map_of (entries c) k = Some x" "map_of (entries (sweep perm now c)) k \<noteq> None" for k x
    using that sweep_range_le [of now _ "entries c"] by (force simp: sweep_def map_le_def dom_def)
  ultimately show ?thesis
    using assms(5,7) OpSweep by (fastforce simp: remembers_def)
qed

lemma run_ops_config [simp]:
  "ttl (run_ops perm ops c) = ttl c" "maxEntries (run_ops perm ops c) = maxEntries c"
  by (induction ops arbitrary: c) (simp_all add: run_ops_def)

lemma cache_inv_run: "cache_inv c \<Longrightarrow> cache_inv (run_ops perm ops c)"
proof (induction ops rule: rev_induct)
  case (snoc op ops)
  then show ?case by (cases op) (simp_all add: run_ops_snoc cache_inv_ops)
qed (simp add: run_ops_def)

lemma NewInMemoryCache_simps [simp]:
  "ttl (fst (NewInMemoryCache d opts)) = d" "entries (fst (NewInMemoryCache d opts)) = []"
  "cache_inv (fst (NewInMemoryCache d opts))"
  by (simp_all add: NewInMemoryCache_def Let_def cache_inv_def)

lemma remembers_run:
  assumes "\<And>n es. mset (perm n es) = mset es" and "maxEntries (fst (NewInMemoryCache d opts)) \<le> 0"
    and "steady_history off ops"
  shows "\<exists>T. remembers off d (last_set ops) (run_ops perm ops (fst (NewInMemoryCache d opts))) T \<and>
             (\<forall>op \<in> set ops. wall (op_time op) \<le> T) \<and>
             (ops = [] \<or> T = wall (op_time (last ops)))"
  using assms(3)
proof (induction ops rule: rev_induct)
  case Nil
  then show ?case by (simp add: remembers_def last_set_def)
next
  case (snoc op ops)
  then have ops: "steady_history off ops" "op_steady off op"
    "\<forall>x \<in> set ops. wall (op_time x) \<le> wall (op_time op)"
    by (auto simp: steady_history_def sorted_append)
  show ?case
  proof (cases "ops = []")
    case True
    have "remembers off d (last_set []) (run_ops perm [] (fst (NewInMemoryCache d opts))) (wall (op_time op))"
      by (simp add: remembers_def last_set_def)
    from remembers_step [OF assms(1) _ _ _ this ops(2) order_refl] assms(2) True show ?thesis
      by (auto simp: run_ops_snoc last_set_snoc cache_inv_run simp flip: append_Nil)
  next
    case False
    with snoc.IH [OF ops(1)] obtain T where T:
      "remembers off d (last_set ops) (run_ops perm ops (fst (NewInMemoryCache d opts))) T"
      "T = wall (op_time (last ops))" by auto
    then have "T \<le> wall (op_time op)" using ops(3) False by simp
    from remembers_step [OF assms(1) _ _ _ T(1) ops(2) this] assms(2) ops(3) show ?thesis
      by (auto simp: run_ops_snoc last_set_snoc cache_inv_run)
  qed
qed

section \<open>Properties\<close>

text \<open>
  C27. The bound holds exactly. After a \<open>Set\<close> on a cache with a positive bound the number of entries is
  the smaller of the bound and the number of keys stored so far, in whatever order the entries are
  visited: never more than the bound, and no entry is evicted that need not be. The loop always
  ends.
\<close>

theorem cache_Set_bounded:
  assumes "\<And>n es. mset (perm n es) = mset es" and "cache_inv c" and "0 < maxEntries c"
  shows "int (length (entries (inMemoryCache_Set perm now k r c))) =
    min (maxEntries c) (int (card (insert k (fst ` set (entries c)))))"
proof -
  let ?es = "AList.update k \<lparr>ce_result = r, ce_expiresAt = expiry_of (ttl c) now r\<rparr> (entries c)"
  from assms(2) have d: "distinct (map fst ?es)" by (simp add: cache_inv_def AList.distinct_update)
  then have "length ?es = card (fst ` set ?es)" by (metis distinct_card image_set length_map)
  also have "fst ` set ?es = insert k (fst ` set (entries c))"
    by (simp add: AList.dom_update)
  finally show ?thesis
    using evict_loop_length [of perm ?es "maxEntries c"] assms d
    by (simp add: inMemoryCache_Set_def Let_def evictIfNeeded_def)
qed

text \<open>Two results for examples: one that never expires and one that expires early.\<close>

definition example_result :: "string \<Rightarrow> int \<Rightarrow> IntrospectionResult" where
  "example_result sub exp =
     \<lparr>Subject = sub, Scopes = [], ExpiresAt = \<lparr>wall = exp, mono = None\<rparr>, TokenType = [], Claims = Map.empty\<rparr>"

definition full_cache :: inMemoryCache where
  "full_cache =
     \<lparr>ttl = 50, maxEntries = 2,
      entries = [(''a'', \<lparr>ce_result = example_result ''a'' 0, ce_expiresAt = \<lparr>wall = 140, mono = None\<rparr>\<rparr>),
                 (''b'', \<lparr>ce_result = example_result ''b'' 120, ce_expiresAt = \<lparr>wall = 120, mono = None\<rparr>\<rparr>)]\<rparr>"

theorem cache_Set_bounded_witness:
  "int (length (entries (inMemoryCache_Set (\<lambda>n. rev) \<lparr>wall = 100, mono = Some 7\<rparr> ''c''
     (example_result ''c'' 0) full_cache))) = 2"
  by (subst cache_Set_bounded) (simp_all add: full_cache_def cache_inv_def)

text \<open>
  The bound is kept by evicting what expires first: when the wall clock is not stepped, no
  entry that a \<open>Set\<close> evicts would have outlived an entry that it leaves in the cache.
\<close>

theorem cache_evicts_earliest:
  assumes "\<And>n es. mset (perm n es) = mset es" and "cache_inv c" and "steady_entries off (entries c)"
    and "steady off now" "steady off (ExpiresAt r)"
    and "((map_of (entries c))(k \<mapsto> entry_for (ttl c) (now, r))) k1 = Some e1"
    and "map_of (entries (inMemoryCache_Set perm now k r c)) k1 = None"
    and "map_of (entries (inMemoryCache_Set perm now k r c)) k2 = Some e2"
  shows "wall (ce_expiresAt e1) \<le> wall (ce_expiresAt e2)"
proof -
  let ?es = "AList.update k (entry_for (ttl c) (now, r)) (entries c)"
  have upd: "map_of ?es k1 = Some e1" using assms(6) by (simp add: map_of_update)
  have d: "distinct (map fst ?es)" using assms(2) by (simp add: cache_inv_def AList.distinct_update)
  have "steady off (ce_expiresAt e)" if "(k', e) \<in> set ?es" for k' e
  proof -
    from that d have "map_of ?es k' = Some e" by (simp add: map_of_is_SomeI)
    with assms(3) steady_expiry [OF assms(4,5), of "ttl c"] show ?thesis
      by (auto simp: map_of_update steady_entries_def list_all_iff entry_for_def split: if_splits
          dest: map_of_SomeD)
  qed
  then have st: "steady_entries off ?es" by (auto simp: steady_entries_def list_all_iff)
  have set: "entries (inMemoryCache_Set perm now k r c) =
      (if 0 < maxEntries c then evict_loop perm (maxEntries c) (length ?es) ?es else ?es)"
    by (simp add: inMemoryCache_Set_def Let_def evictIfNeeded_def entry_for_def)
  with assms(7) upd have "0 < maxEntries c" by (auto split: if_splits)
  with assms(7,8) set evict_loop_earliest [OF assms(1) st d upd] show ?thesis by simp
qed

theorem cache_evicts_earliest_witness:
  "map_of (entries (inMemoryCache_Set (\<lambda>n. rev) \<lparr>wall = 100, mono = Some 7\<rparr> ''c''
     (example_result ''c'' 0) full_cache)) ''b'' = None \<and>
   (120 :: int) \<le> wall (ce_expiresAt (the (map_of (entries (inMemoryCache_Set (\<lambda>n. rev)
     \<lparr>wall = 100, mono = Some 7\<rparr> ''c'' (example_result ''c'' 0) full_cache)) ''a'')))"
proof -
  let ?c = "inMemoryCache_Set (\<lambda>n. rev) \<lparr>wall = 100, mono = Some 7\<rparr> ''c'' (example_result ''c'' 0) full_cache"
  have ev: "map_of (entries ?c) ''b'' = None" "map_of (entries ?c) ''a'' =
      Some \<lparr>ce_result = example_result ''a'' 0, ce_expiresAt = \<lparr>wall = 140, mono = None\<rparr>\<rparr>"
    by (simp_all add: inMemoryCache_Set_def Let_def evictIfNeeded_def full_cache_def evict_one_def
        time_Before_def expiry_of_def example_result_def time_IsZero_def time_Add_def
        wall_fits_mono_def numeral_eq_Suc)
  have "wall (ce_expiresAt \<lparr>ce_result = example_result ''b'' 120, ce_expiresAt = \<lparr>wall = 120, mono = None\<rparr>\<rparr>)
      \<le> wall (ce_expiresAt (the (map_of (entries ?c) ''a'')))"
    by (rule cache_evicts_earliest [where off = 93 and k = "''c''" and ?k1.0 = "''b''" and
          ?k2.0 = "''a''" and c = full_cache and perm = "\<lambda>n. rev"
          and now = "\<lparr>wall = 100, mono = Some 7\<rparr>" and r = "example_result ''c'' 0"])
      (simp_all add: ev, simp_all add: full_cache_def cache_inv_def steady_entries_def steady_def
        example_result_def)
  with ev show ?thesis by simp
qed

text \<open>
  Hits are sound. Whatever sequence of operations a cache has gone through and whatever its
  bound, a \<open>Get\<close> that finds something returns the result of the last \<open>Set\<close> of that key, and the
  present is not after the expiry of that \<open>Set\<close>.
\<close>

theorem cache_hit_sound:
  assumes "fst (inMemoryCache_Get now k (run_ops perm ops (fst (NewInMemoryCache d opts)))) = (x, True)"
  shows "\<exists>t r. x = Some r \<and> last_set ops k = Some (t, r) \<and> \<not> time_After now (expiry_of d t r)"
  using hit_last_set [OF reflects_run assms] .

theorem cache_hit_sound_witness:
  "\<exists>t r. Some (example_result ''b'' 0) = Some r \<and>
     last_set [OpSet \<lparr>wall = 100, mono = None\<rparr> ''k'' (example_result ''a'' 0),
               OpSet \<lparr>wall = 120, mono = None\<rparr> ''k'' (example_result ''b'' 0)] ''k'' = Some (t, r) \<and>
     \<not> time_After \<lparr>wall = 160, mono = None\<rparr> (expiry_of 50 t r)"
  by (rule cache_hit_sound [where perm = "\<lambda>n. rev" and opts = "[WithMaxEntries 2]"])
    (simp add: run_ops_def NewInMemoryCache_def WithMaxEntries_def Let_def inMemoryCache_Set_def
      evictIfNeeded_def inMemoryCache_Get_def expiry_of_def example_result_def time_IsZero_def
      time_After_def time_Before_def time_Add_def)

text \<open>
  Nothing is served stale. When the wall clock is not stepped, a result found in the cache is
  at most the time-to-live old, and it is not past its own expiration if it has one.
\<close>

theorem cache_never_stale:
  assumes "fst (inMemoryCache_Get now k (run_ops perm ops (fst (NewInMemoryCache d opts)))) = (Some r, True)"
    and "list_all (op_steady off) ops" and "steady off now"
  shows "\<exists>t. last_set ops k = Some (t, r) \<and> wall now \<le> wall t + d \<and>
             (time_IsZero (ExpiresAt r) \<or> wall now \<le> wall (ExpiresAt r))"
proof -
  from hit_last_set [OF reflects_run assms(1)] obtain t where t: "last_set ops k = Some (t, r)"
    "\<not> time_After now (expiry_of d t r)" by auto
  from assms(2) have "last_set ops k = Some (t, r) \<longrightarrow> steady off t \<and> steady off (ExpiresAt r)" for t r
  proof (induction ops rule: rev_induct)
    case (snoc op ops)
    then show ?case by (cases op) (auto simp: last_set_snoc)
  qed (simp add: last_set_def)
  with t(1) have st: "steady off t" "steady off (ExpiresAt r)" by auto
  with t(2) steady_After [OF assms(3) steady_expiry] have "wall now \<le> wall (expiry_of d t r)" by auto
  then show ?thesis
    using t(1) time_Before_steady [OF st(2) steady_Add [OF st(1)]]
    by (auto simp: expiry_of_def Let_def split: if_splits)
qed

theorem cache_never_stale_witness:
  "\<exists>t. last_set [OpSet \<lparr>wall = 100, mono = Some 7\<rparr> ''k'' (example_result ''a'' 130)] ''k'' =
         Some (t, example_result ''a'' 130) \<and> (125 :: int) \<le> wall t + 50 \<and>
       (time_IsZero (ExpiresAt (example_result ''a'' 130)) \<or> (125 :: int) \<le> wall (ExpiresAt (example_result ''a'' 130)))"
  using cache_never_stale [of "\<lparr>wall = 125, mono = Some 32\<rparr>" "''k''" "\<lambda>n. rev"
      "[OpSet \<lparr>wall = 100, mono = Some 7\<rparr> ''k'' (example_result ''a'' 130)]" 50 "[]"
      "example_result ''a'' 130" 93]
  by (simp add: run_ops_def NewInMemoryCache_def Let_def inMemoryCache_Set_def inMemoryCache_Get_def
      expiry_of_def example_result_def time_IsZero_def time_After_def time_Before_def steady_def)

text \<open>
  C20. Without a bound the cache is an expiring map: when the wall clock is not stepped and the
  operations come in its order, a \<open>Get\<close> finds the last result set for the key if and only if that
  \<open>Set\<close> has not expired, whatever was read or swept in between.
\<close>

theorem cache_refines_expiring_map:
  assumes "\<And>n es. mset (perm n es) = mset es" and "maxEntries (fst (NewInMemoryCache d opts)) \<le> 0"
    and "steady_history off (ops @ [OpGet now k])"
  shows "fst (inMemoryCache_Get now k (run_ops perm ops (fst (NewInMemoryCache d opts)))) =
    (case last_set ops k of
       None \<Rightarrow> (None, False)
     | Some (t, r) \<Rightarrow> if wall (expiry_of d t r) < wall now then (None, False) else (Some r, True))"
proof -
  let ?c = "run_ops perm ops (fst (NewInMemoryCache d opts))"
  from assms(3) have ops: "steady_history off ops" "steady off now"
    "\<forall>x \<in> set ops. wall (op_time x) \<le> wall now"
    by (auto simp: steady_history_def sorted_append)
  have ref: "map_of (entries ?c) \<subseteq>\<^sub>m map_option (entry_for d) \<circ> last_set ops"
    using reflects_run [of d ops perm opts] by (simp add: reflects_def)
  show ?thesis
  proof (cases "last_set ops k")
    case None
    then have "map_of (entries ?c) k = None"
      using ref by (force simp: map_le_def dom_def)
    with None show ?thesis by (simp add: inMemoryCache_Get_def)
  next
    case (Some p)
    then have "ops \<noteq> []" by (auto simp: last_set_def)
    with remembers_run [OF assms(1,2) ops(1)] obtain T where
      T: "remembers off d (last_set ops) ?c T" "T = wall (op_time (last ops))" by auto
    with ops(3) \<open>ops \<noteq> []\<close> have "T \<le> wall now" by simp
    from T(1) Some have st: "steady off (expiry_of d (fst p) (snd p))"
      and "map_of (entries ?c) k = Some (entry_for d p) \<or> wall (expiry_of d (fst p) (snd p)) < T"
      unfolding remembers_def by blast+
    with \<open>T \<le> wall now\<close>
    have mem: "map_of (entries ?c) k = Some (entry_for d p) \<or> wall (expiry_of d (fst p) (snd p)) < wall now"
      by linarith
    have "map_of (entries ?c) k = None \<or> map_of (entries ?c) k = Some (entry_for d p)"
      using ref Some by (cases "map_of (entries ?c) k") (force simp: map_le_def dom_def)+
    with mem st ops(2) Some show ?thesis
      by (auto simp: inMemoryCache_Get_def entry_for_def steady_After split: prod.split)
  qed
qed

theorem cache_refines_expiring_map_witness:
  "fst (inMemoryCache_Get \<lparr>wall = 125, mono = Some 32\<rparr> ''k'' (run_ops (\<lambda>n. rev)
     [OpSet \<lparr>wall = 100, mono = Some 7\<rparr> ''k'' (example_result ''a'' 130), OpSweep \<lparr>wall = 120, mono = Some 27\<rparr>]
     (fst (NewInMemoryCache 50 [])))) = (Some (example_result ''a'' 130), True)"
  by (subst cache_refines_expiring_map [where off = 93])
    (simp_all add: NewInMemoryCache_def Let_def steady_history_def steady_def example_result_def
      last_set_def expiry_of_def time_IsZero_def time_Before_def)

end
