(* ===== verification/Go_SHA256.thy ===== *)
theory Go_SHA256
  imports Go_Encoding
begin

unbundle bit_operations_syntax

text \<open>
  \<open>sha256.Sum256\<close> of package \<open>crypto/sha256\<close>, with which \<open>token_introspection\<close> derives the keys of its
  cache: the message is padded to whole blocks of 64 bytes, and each block is mixed into
  eight 32-bit words by 64 rounds. A 32-bit word is a number below \<open>2 ^ 32\<close> and the wrap-around of its
  arithmetic is written out, so that the simplifier can compute digests.
\<close>

section \<open>The algorithm\<close>

definition wrap32 :: "nat \<Rightarrow> nat" where
  "wrap32 n = n mod 4294967296"

definition rotr :: "nat \<Rightarrow> nat \<Rightarrow> nat" where
  "rotr n x = x div 2 ^ n + x mod 2 ^ n * 2 ^ (32 - n)"

definition not32 :: "nat \<Rightarrow> nat" where
  "not32 x = 4294967295 - x"

text \<open>The round constants and the initial state.\<close>

definition sha256_K :: "nat list" where
  "sha256_K =
     [1116352408, 1899447441, 3049323471, 3921009573, 961987163, 1508970993,
      2453635748, 2870763221, 3624381080, 310598401, 607225278, 1426881987,
      1925078388, 2162078206, 2614888103, 3248222580, 3835390401, 4022224774,
      264347078, 604807628, 770255983, 1249150122, 1555081692, 1996064986,
      2554220882, 2821834349, 2952996808, 3210313671, 3336571891, 3584528711,
      113926993, 338241895, 666307205, 773529912, 1294757372, 1396182291,
      1695183700, 1986661051, 2177026350, 2456956037, 2730485921, 2820302411,
      3259730800, 3345764771, 3516065817, 3600352804, 4094571909, 275423344,
      430227734, 506948616, 659060556, 883997877, 958139571, 1322822218,
      1537002063, 1747873779, 1955562222, 2024104815, 2227730452, 2361852424,
      2428436474, 2756734187, 3204031479, 3329325298]"

definition sha256_init :: "nat list" where
  "sha256_init =
     [1779033703, 3144134277, 1013904242, 2773480762,
      1359893119, 2600822924, 528734635, 1541459225]"

text \<open>Numbers as big-endian bytes, and back.\<close>

fun be_bytes :: "nat \<Rightarrow> nat \<Rightarrow> nat list" where
  "be_bytes 0 n = []"
| "be_bytes (Suc w) n = be_bytes w (n div 256) @ [n mod 256]"

definition be_word :: "nat list \<Rightarrow> nat" where
  "be_word bs = foldl (\<lambda>a b. 256 * a + b) 0 bs"

text \<open>
  Padding: a byte \<open>0x80\<close>, zeros up to eight bytes short of a block boundary, and the length in
  bits as a 64-bit number.
\<close>

definition sha256_zeros :: "nat \<Rightarrow> nat" where
  "sha256_zeros n = (119 - n mod 64) mod 64"

definition sha256_pad :: "nat list \<Rightarrow> nat list" where
  "sha256_pad msg =
     msg @ [128] @ replicate (sha256_zeros (length msg)) 0 @ be_bytes 8 (8 * length msg mod 2 ^ 64)"

function chunks :: "nat \<Rightarrow> 'a list \<Rightarrow> 'a list list" where
  "chunks n xs = (if n = 0 \<or> xs = [] then [] else take n xs # chunks n (drop n xs))"
  by auto
termination by (relation "measure (length \<circ> snd)") auto

declare chunks.simps [simp del]

text \<open>The message schedule, kept as the window of the last sixteen words, oldest first.\<close>

fun schedule_next :: "nat list \<Rightarrow> nat" where
  "schedule_next [w0, w1, w2, w3, w4, w5, w6, w7, w8, w9, w10, w11, w12, w13, w14, w15] =
     wrap32 ((rotr 17 w14 XOR rotr 19 w14 XOR (w14 div 2 ^ 10)) + w9 +
             (rotr 7 w1 XOR rotr 18 w1 XOR (w1 div 2 ^ 3)) + w0)"
| "schedule_next w = 0"

primrec schedule :: "nat \<Rightarrow> nat list \<Rightarrow> nat list" where
  "schedule 0 w = []"
| "schedule (Suc n) w = hd w # schedule n (tl w @ [schedule_next w])"

text \<open>One round on the working variables \<open>a\<close> to \<open>h\<close>.\<close>

fun sha256_round :: "nat list \<Rightarrow> nat \<times> nat \<Rightarrow> nat list" where
  "sha256_round [a, b, c, d, e, f, g, h] (k, w) =
     (let t1 = wrap32 (h + (rotr 6 e XOR rotr 11 e XOR rotr 25 e) + ((e AND f) XOR (not32 e AND g)) + k + w);
          t2 = wrap32 ((rotr 2 a XOR rotr 13 a XOR rotr 22 a) + ((a AND b) XOR (a AND c) XOR (b AND c)))
      in [wrap32 (t1 + t2), a, b, c, wrap32 (d + t1), e, f, g])"
| "sha256_round st kw = st"

definition sha256_block :: "nat list \<Rightarrow> nat list \<Rightarrow> nat list" where
  "sha256_block st block =
     map2 (\<lambda>x y. wrap32 (x + y)) st
       (foldl sha256_round st (zip sha256_K (schedule 64 (map be_word (chunks 4 block)))))"

definition sha256_Sum256 :: "string \<Rightarrow> byte list" where
  "sha256_Sum256 s =
     map word_of_nat (concat (map (be_bytes 4)
       (foldl sha256_block sha256_init (chunks 64 (sha256_pad (map of_char s))))))"

section \<open>Its shape\<close>

lemma length_be_bytes [simp]: "length (be_bytes w n) = w"
  by (induction w arbitrary: n) auto

lemma sha256_round_length: "length st = 8 \<Longrightarrow> length (sha256_round st kw) = 8"
  by (induction st kw rule: sha256_round.induct) (auto simp: Let_def)

lemma sha256_rounds_length: "length st = 8 \<Longrightarrow> length (foldl sha256_round st kws) = 8"
  by (induction kws arbitrary: st) (auto simp: sha256_round_length)

lemma sha256_blocks_length: "length st = 8 \<Longrightarrow> length (foldl sha256_block st bs) = 8"
  by (induction bs arbitrary: st) (auto simp: sha256_block_def sha256_rounds_length)

lemma length_Sum256 [simp]: "length (sha256_Sum256 s) = 32"
  using sha256_blocks_length [of sha256_init "chunks 64 (sha256_pad (map of_char s))"]
  by (simp add: sha256_Sum256_def length_concat_map_const sha256_init_def)

lemma sha256_pad_blocks: "64 dvd length (sha256_pad msg)"
proof -
  define n where "n = length msg"
  define q where "q = n div 64"
  define r where "r = n mod 64"
  have n: "n = 64 * q + r" and r: "r < 64" by (simp_all add: q_def r_def)
  have "length (sha256_pad msg) = n + 9 + (119 - r) mod 64"
    by (simp add: sha256_pad_def sha256_zeros_def n_def r_def)
  also have "\<dots> = 64 * q + (r + 9 + (119 - r) mod 64)" by (simp add: n)
  also have "64 dvd \<dots>"
  proof (cases "r \<le> 55")
    case True
    then have "(119 - r) mod 64 = 55 - r" using mod_add_self1 [of 64 "55 - r"] by simp
    with True show ?thesis by simp
  next
    case False
    with r have "(119 - r) mod 64 = 119 - r" by simp
    with False r show ?thesis by simp
  qed
  finally show ?thesis .
qed

section \<open>A known digest\<close>

text \<open>The digest of \<open>abc\<close>, the example of the standard.\<close>

lemma be_bytes_numeral [simp]: "be_bytes (numeral k) n = be_bytes (pred_numeral k) (n div 256) @ [n mod 256]"
  by (simp add: numeral_eq_Suc [of k])

lemma schedule_numeral [simp]:
  "schedule (numeral k) w = hd w # schedule (pred_numeral k) (tl w @ [schedule_next w])"
  by (simp add: numeral_eq_Suc [of k])

lemma replicate_numeral_eq: "replicate (numeral k) x = x # replicate (pred_numeral k) x"
  by (simp add: numeral_eq_Suc [of k])

lemma abc_padded:
  "sha256_pad (map of_char ''abc'') =
     [97, 98, 99, 128, 0, 0, 0, 0, 0, 0, 0, 0, 0, 0, 0, 0, 0, 0, 0, 0, 0, 0, 0, 0, 0, 0, 0, 0, 0,
      0, 0, 0, 0, 0, 0, 0, 0, 0, 0, 0, 0, 0, 0, 0, 0, 0, 0, 0, 0, 0, 0, 0, 0, 0, 0, 0, 0, 0, 0, 0,
      0, 0, 0, 24]"
  by (simp add: sha256_pad_def sha256_zeros_def replicate_numeral_eq)

lemma abc_words:
  "map (map be_word \<circ> chunks 4) (chunks 64 (sha256_pad (map of_char ''abc''))) =
     [[1633837952, 0, 0, 0, 0, 0, 0, 0, 0, 0, 0, 0, 0, 0, 0, 24]]"
  unfolding abc_padded by (simp add: be_word_def chunks.simps)

lemma Sum256_abc:
  "fmt_x (sha256_Sum256 ''abc'') =
   ''ba7816bf8f01cfea414140de5dae2223b00361a396177a9cb410ff61f20015ad''"
proof -
  obtain block where block: "chunks 64 (sha256_pad (map of_char ''abc'')) = [block]"
    "map be_word (chunks 4 block) = [1633837952, 0, 0, 0, 0, 0, 0, 0, 0, 0, 0, 0, 0, 0, 0, 24]"
    using abc_words by auto
  show ?thesis
    unfolding sha256_Sum256_def block(1) foldl.simps sha256_block_def block(2)
    by (simp add: sha256_init_def sha256_K_def rotr_def wrap32_def not32_def
        fmt_x_def hex_byte_def hex_digit_def char_of_def bit_Suc_0_iff)
qed

end
