(* ===== verification/Token_Introspection.thy ===== *)
theory Token_Introspection
  imports RFC7662 Introspection_Cache Go_SHA256
begin

text \<open>
  Package \<open>token_introspection\<close>: the result in the context (\<open>context.go\<close>) and the interceptors
  (\<open>interceptor.go\<close>) that take the credential from the metadata, look into the cache and run the
  strategies registered for the scheme. Lower casing of letters
  beyond ASCII is the argument \<open>ulower\<close>. A strategy that returns neither a result nor an error makes
  the program dereference a \<open>nil\<close> pointer, which is a panic.
\<close>

section \<open>context.go\<close>

definition WithResult :: "go_ctx \<Rightarrow> IntrospectionResult option \<Rightarrow> go_ctx" where
  "WithResult ctx result = context_WithValue ctx ti_contextKey (VResult result)"

definition ResultFromContext :: "go_ctx \<Rightarrow> IntrospectionResult option" where
  "ResultFromContext ctx =
     (case context_Value ctx ti_contextKey of Some (VResult v) \<Rightarrow> v | _ \<Rightarrow> None)"

lemma Result_WithResult [ctx_simps]: "ResultFromContext (WithResult ctx r) = r"
  by (simp add: ResultFromContext_def WithResult_def ctx_simps)

lemma incoming_WithResult [ctx_simps]: "ctx_incoming (WithResult ctx r) = ctx_incoming ctx"
  by (simp add: WithResult_def ctx_simps)

lemma Value_WithResult [ctx_simps]:
  "k \<noteq> ti_contextKey \<Longrightarrow> context_Value (WithResult ctx r) k = context_Value ctx k"
  by (simp add: WithResult_def ctx_simps)

lemma RequestID_WithResult [ctx_simps]: "RequestIDFromContext (WithResult ctx r) = RequestIDFromContext ctx"
  by (simp add: RequestIDFromContext_def ctx_simps)

section \<open>Configuration\<close>

text \<open>A scheme without introspectors and a scheme that is not in the map are alike to the program.\<close>

record 'w ti_config =
  ti_logLevel :: int
  ti_metadataKey :: string
  ti_schemes :: "string \<Rightarrow> 'w Introspector list"
  ti_cache :: "'w Cache option"

type_synonym 'w ti_Option = "'w ti_config \<Rightarrow> 'w ti_config"

definition ti_WithLogLevel :: "int \<Rightarrow> 'w ti_Option" where
  "ti_WithLogLevel level = (\<lambda>c. c\<lparr>ti_logLevel := level\<rparr>)"

definition ti_WithMetadataKey :: "(rune \<Rightarrow> rune) \<Rightarrow> string \<Rightarrow> 'w ti_Option" where
  "ti_WithMetadataKey ulower key = (\<lambda>c. c\<lparr>ti_metadataKey := strings_ToLower ulower key\<rparr>)"

definition register :: "(rune \<Rightarrow> rune) \<Rightarrow> 'w Introspector \<Rightarrow> 'w ti_Option" where
  "register ulower i =
     (\<lambda>c. let scheme = strings_ToLower ulower (Scheme i)
          in c\<lparr>ti_schemes := (ti_schemes c)(scheme := ti_schemes c scheme @ [i])\<rparr>)"

definition WithIntrospector :: "(rune \<Rightarrow> rune) \<Rightarrow> 'w Introspector option \<Rightarrow> 'w ti_Option outcome" where
  "WithIntrospector ulower intro =
     (case intro of
        None \<Rightarrow> Panic ''tokenintrospection: WithIntrospector called with nil introspector''
      | Some i \<Rightarrow> Return (register ulower i))"

definition WithCache :: "'w Cache option \<Rightarrow> 'w ti_Option" where
  "WithCache cache = (\<lambda>c. c\<lparr>ti_cache := cache\<rparr>)"

definition ti_buildConfig :: "'w ti_Option list \<Rightarrow> 'w ti_config" where
  "ti_buildConfig opts =
     apply_opts opts
       \<lparr>ti_logLevel = LevelError, ti_metadataKey = ''authorization'', ti_schemes = (\<lambda>_. []), ti_cache = None\<rparr>"

section \<open>Introspection\<close>

definition cacheKey :: "string \<Rightarrow> string \<Rightarrow> string" where
  "cacheKey scheme credential = fmt_x (sha256_Sum256 (scheme @ '':'' @ credential))"

definition parseAuthorization :: "(rune \<Rightarrow> rune) \<Rightarrow> string \<Rightarrow> string \<times> string" where
  "parseAuthorization ulower v =
     (case strings_SplitN v '' '' 2 of
        [p0, p1] \<Rightarrow>
          (let credential = strings_TrimSpace p1
           in if credential = [] then ([], []) else (strings_ToLower ulower p0, credential))
      | _ \<Rightarrow> ([], []))"

definition nil_dereference :: string where
  "nil_dereference = ''runtime error: invalid memory address or nil pointer dereference''"

fun strategy_chain ::
  "'w Cache option \<Rightarrow> string \<Rightarrow> go_ctx \<Rightarrow> string \<Rightarrow> 'w Introspector list \<Rightarrow> go_error option \<Rightarrow> 'w \<Rightarrow>
   ((go_ctx \<times> go_error option) \<times> 'w) outcome" where
  "strategy_chain cache key ctx credential [] lastErr w = Return ((ctx, lastErr), w)"
| "strategy_chain cache key ctx credential (i # is) lastErr w =
     (case Introspect i ctx credential w of
        ((None, None), _) \<Rightarrow> Panic nil_dereference
      | ((Some result, None), w') \<Rightarrow>
          Return ((WithResult ctx (Some result), None),
                  case cache of None \<Rightarrow> w' | Some C \<Rightarrow> Cache_Set C key result w')
      | ((_, Some err), w') \<Rightarrow>
          (if err_status err \<noteq> Some codes_Unauthenticated then Return ((ctx, Some err), w')
           else strategy_chain cache key ctx credential is (Some err) w'))"

definition introspect ::
  "(rune \<Rightarrow> rune) \<Rightarrow> 'w ti_config \<Rightarrow> go_ctx \<Rightarrow> 'w \<Rightarrow>
   ((go_ctx \<times> go_error option) \<times> 'w) outcome" where
  "introspect ulower cfg ctx w =
     (case ctx_incoming ctx of
        None \<Rightarrow> Return ((ctx, None), w)
      | Some md \<Rightarrow>
          (case md (ti_metadataKey cfg) of
             [] \<Rightarrow> Return ((ctx, None), w)
           | v # _ \<Rightarrow>
               (if v = [] then Return ((ctx, None), w)
                else let (scheme, credential) = parseAuthorization ulower v
                     in if scheme = [] \<or> credential = []
                        then Return ((ctx, Some (status_Error codes_Unauthenticated
                                       ''malformed authorization header'')), w)
                        else let key = cacheKey scheme credential;
                                 ((found, hit), w) =
                                   (case ti_cache cfg of
                                      None \<Rightarrow> ((None, False), w)
                                    | Some C \<Rightarrow> Cache_Get C key w)
                             in if hit then Return ((WithResult ctx found, None), w)
                                else if ti_schemes cfg scheme = []
                                then Return ((ctx, Some (status_Error codes_Unauthenticated
                                       (''unsupported authentication scheme: '' @ scheme))), w)
                                else strategy_chain (ti_cache cfg) key ctx credential
                                       (ti_schemes cfg scheme) None w)))"

definition ti_Interceptor ::
  "(rune \<Rightarrow> rune) \<Rightarrow> 'w ti_Option list \<Rightarrow> go_ctx \<Rightarrow> 'q \<Rightarrow>
   ('q, 'p, 'w) unary_handler \<Rightarrow> 'w \<Rightarrow> ('p reply \<times> 'w) outcome" where
  "ti_Interceptor ulower opts ctx req handler w =
     (case introspect ulower (ti_buildConfig opts) ctx w of
        Panic m \<Rightarrow> Panic m
      | Return ((ctx, Some err), w') \<Rightarrow> Return ((None, Some err), w')
      | Return ((ctx, None), w') \<Rightarrow> Return (handler ctx req w'))"

text \<open>The interceptor only replaces the context of the stream, whose messages may live in another world.\<close>

definition ti_StreamInterceptor ::
  "(rune \<Rightarrow> rune) \<Rightarrow> 'w ti_Option list \<Rightarrow> ('m, 'v) ServerStream \<Rightarrow>
   (('m, 'v) ServerStream \<Rightarrow> 'w \<Rightarrow> go_error option \<times> 'w) \<Rightarrow> 'w \<Rightarrow> (go_error option \<times> 'w) outcome" where
  "ti_StreamInterceptor ulower opts ss handler w =
     (case introspect ulower (ti_buildConfig opts) (ss_Context ss) w of
        Panic m \<Rightarrow> Panic m
      | Return ((ctx, Some err), w') \<Rightarrow> Return (Some err, w')
      | Return ((ctx, None), w') \<Rightarrow> Return (handler (ss\<lparr>ss_Context := ctx\<rparr>) w'))"

section \<open>The chain of strategies\<close>

text \<open>The world after every one of some strategies has rejected the credential, in order.\<close>

fun all_reject :: "go_ctx \<Rightarrow> string \<Rightarrow> 'w Introspector list \<Rightarrow> 'w \<Rightarrow> 'w option" where
  "all_reject ctx credential [] w = Some w"
| "all_reject ctx credential (i # is) w =
     (case Introspect i ctx credential w of
        ((_, Some err), w') \<Rightarrow>
          if err_status err = Some codes_Unauthenticated then all_reject ctx credential is w' else None
      | _ \<Rightarrow> None)"

lemma strategy_chain_append:
  "all_reject ctx credential is w = Some w' \<Longrightarrow>
   \<exists>e. strategy_chain cache key ctx credential (is @ js) lastErr w =
       strategy_chain cache key ctx credential js e w' \<and> (is = [] \<longrightarrow> e = lastErr) \<and>
       (is \<noteq> [] \<longrightarrow> (\<exists>err. e = Some err \<and> err_status err = Some codes_Unauthenticated))"
proof (induction "is" arbitrary: lastErr w)
  case (Cons i "is")
  then obtain x err w1 where i: "Introspect i ctx credential w = ((x, Some err), w1)"
    "err_status err = Some codes_Unauthenticated" "all_reject ctx credential is w1 = Some w'"
    by (auto split: prod.splits option.splits if_splits)
  from Cons.IH [OF i(3), of "Some err"] i(1,2) show ?case by (cases x) auto
qed auto

lemma strategy_chain_success:
  "strategy_chain cache key ctx credential is lastErr w = Return ((ctx', None), w') \<and> (is \<noteq> [] \<or> lastErr \<noteq> None) \<longleftrightarrow>
   (\<exists>pre i post w1 r w2. is = pre @ i # post \<and> all_reject ctx credential pre w = Some w1 \<and>
      Introspect i ctx credential w1 = ((Some r, None), w2) \<and> ctx' = WithResult ctx (Some r) \<and>
      w' = (case cache of None \<Rightarrow> w2 | Some C \<Rightarrow> Cache_Set C key r w2))"
  (is "?L is lastErr w \<longleftrightarrow> ?R is w")
proof
  show "?L is lastErr w \<Longrightarrow> ?R is w"
  proof (induction "is" arbitrary: lastErr w)
    case (Cons i "is")
    show ?case
    proof (cases "\<exists>x err w1. Introspect i ctx credential w = ((x, Some err), w1) \<and>
        err_status err = Some codes_Unauthenticated")
      case True
      then obtain x err w1 where i: "Introspect i ctx credential w = ((x, Some err), w1)"
        "err_status err = Some codes_Unauthenticated" by blast
      with Cons.prems have "?L is (Some err) w1" by (cases x) auto
      from Cons.IH [OF this] obtain pre j post w2 r w3 where
        "is = pre @ j # post" "all_reject ctx credential pre w1 = Some w2"
        "Introspect j ctx credential w2 = ((Some r, None), w3)" "ctx' = WithResult ctx (Some r)"
        "w' = (case cache of None \<Rightarrow> w3 | Some C \<Rightarrow> Cache_Set C key r w3)" by blast
      with i show ?thesis by (intro exI [of _ "i # pre"]) (cases x; auto)
    next
      case False
      with Cons.prems obtain r w1 where "Introspect i ctx credential w = ((Some r, None), w1)"
        "ctx' = WithResult ctx (Some r)" "w' = (case cache of None \<Rightarrow> w1 | Some C \<Rightarrow> Cache_Set C key r w1)"
        by (auto split: prod.splits option.splits if_splits)
      then show ?thesis by (intro exI [of _ "[]"]) auto
    qed
  qed auto
next
  assume "?R is w"
  then obtain pre i post w1 r w2 where d: "is = pre @ i # post"
    "all_reject ctx credential pre w = Some w1" "Introspect i ctx credential w1 = ((Some r, None), w2)"
    "ctx' = WithResult ctx (Some r)"
    "w' = (case cache of None \<Rightarrow> w2 | Some C \<Rightarrow> Cache_Set C key r w2)" by blast
  with strategy_chain_append [OF d(2), of cache key "i # post" lastErr] show "?L is lastErr w" by auto
qed

text \<open>The credential a call presents, if it presents one in the expected form.\<close>

definition presented :: "(rune \<Rightarrow> rune) \<Rightarrow> 'w ti_config \<Rightarrow> go_ctx \<Rightarrow> (string \<times> string) option" where
  "presented ulower cfg ctx =
     (case map_option (\<lambda>md. md (ti_metadataKey cfg)) (ctx_incoming ctx) of
        Some (v # _) \<Rightarrow>
          (let (scheme, credential) = parseAuthorization ulower v
           in if v = [] \<or> scheme = [] \<or> credential = [] then None else Some (scheme, credential))
      | _ \<Rightarrow> None)"

definition presents_nothing :: "'w ti_config \<Rightarrow> go_ctx \<Rightarrow> bool" where
  "presents_nothing cfg ctx =
     (case map_option (\<lambda>md. md (ti_metadataKey cfg)) (ctx_incoming ctx) of
        Some (v # _) \<Rightarrow> v = []
      | _ \<Rightarrow> True)"

definition lookup :: "'w ti_config \<Rightarrow> string \<Rightarrow> 'w \<Rightarrow> (IntrospectionResult option \<times> bool) \<times> 'w" where
  "lookup cfg key w = (case ti_cache cfg of None \<Rightarrow> ((None, False), w) | Some C \<Rightarrow> Cache_Get C key w)"

lemma introspect_cases:
  "introspect ulower cfg ctx w =
     (case presented ulower cfg ctx of
        None \<Rightarrow>
          if presents_nothing cfg ctx then Return ((ctx, None), w)
          else Return ((ctx, Some (status_Error codes_Unauthenticated ''malformed authorization header'')), w)
      | Some (scheme, credential) \<Rightarrow>
          (case lookup cfg (cacheKey scheme credential) w of
             ((found, True), w') \<Rightarrow> Return ((WithResult ctx found, None), w')
           | ((found, False), w') \<Rightarrow>
               if ti_schemes cfg scheme = []
               then Return ((ctx, Some (status_Error codes_Unauthenticated
                      (''unsupported authentication scheme: '' @ scheme))), w')
               else strategy_chain (ti_cache cfg) (cacheKey scheme credential) ctx credential
                      (ti_schemes cfg scheme) None w'))"
proof -
  consider "ctx_incoming ctx = None" | md where "ctx_incoming ctx = Some md" "md (ti_metadataKey cfg) = []"
    | md v vs where "ctx_incoming ctx = Some md" "md (ti_metadataKey cfg) = v # vs"
    by (metis list.exhaust option.exhaust)
  then show ?thesis
  proof cases
    case (3 md v vs)
    obtain s c where "parseAuthorization ulower v = (s, c)" by fastforce
    with 3 show ?thesis
      by (auto simp: introspect_def presented_def presents_nothing_def lookup_def Let_def
          split: option.split prod.split bool.split)
  qed (simp_all add: introspect_def presented_def presents_nothing_def)
qed

context result_cache
begin

text \<open>A strategy that leaves the cache alone, or at most makes it forget.\<close>

definition spares :: "'w Introspector \<Rightarrow> bool" where
  "spares i \<longleftrightarrow>
     (\<forall>ctx credential w x w'. valid w \<and> Introspect i ctx credential w = (x, w') \<longrightarrow>
        valid w' \<and> holds w' \<subseteq>\<^sub>m holds w)"

lemma spares_all_hold:
  "spares i \<Longrightarrow> all_hold P w \<Longrightarrow> Introspect i ctx credential w = (x, w') \<Longrightarrow> all_hold P w'"
  unfolding spares_def all_hold_def by (metis domI map_le_def)

lemma chain_all_hold:
  assumes "\<And>i. i \<in> set is \<Longrightarrow> spares i"
    and "\<And>i w r w'. i \<in> set is \<Longrightarrow> Introspect i ctx credential w = ((Some r, None), w') \<Longrightarrow> P key r"
    and "all_hold P w"
    and "strategy_chain (Some C) key ctx credential is lastErr w = Return ((ctx', err), w')"
  shows "all_hold P w' \<and>
    (err = lastErr \<and> is = [] \<or> (\<exists>e. err = Some e) \<or> (\<exists>r. ctx' = WithResult ctx (Some r) \<and> P key r))"
  using assms
proof (induction "is" arbitrary: lastErr w)
  case (Cons i "is")
  obtain x e w1 where i: "Introspect i ctx credential w = ((x, e), w1)" by (metis surj_pair)
  have all1: "all_hold P w1" using spares_all_hold [OF _ Cons.prems(3) i] Cons.prems(1) by simp
  show ?case
  proof (cases e)
    case None
    with i Cons.prems(4) obtain r where r: "x = Some r" by (cases x) auto
    with None i Cons.prems(2) have "P key r" by auto
    with r None i Cons.prems(4) all1 show ?thesis by (auto simp: all_hold_set)
  next
    case (Some err0)
    show ?thesis
    proof (cases "err_status err0 = Some codes_Unauthenticated")
      case True
      with Some i Cons.prems(4)
      have "strategy_chain (Some C) key ctx credential is (Some err0) w1 = Return ((ctx', err), w')"
        by (cases x) auto
      from Cons.IH [OF _ _ all1 this] Cons.prems(1,2) show ?thesis by fastforce
    next
      case False
      with Some i Cons.prems(4) all1 show ?thesis by (cases x) auto
    qed
  qed
qed auto

lemma chain_error_forgets:
  assumes "\<And>i. i \<in> set is \<Longrightarrow> spares i" and "valid w"
    and "strategy_chain (Some C) key ctx credential is lastErr w = Return ((ctx', Some e), w')"
  shows "holds w' \<subseteq>\<^sub>m holds w \<and> ctx' = ctx"
  using assms
proof (induction "is" arbitrary: lastErr w)
  case (Cons i "is")
  obtain x e0 w1 where i: "Introspect i ctx credential w = ((x, e0), w1)" by (metis surj_pair)
  with Cons.prems(1,2) have w1: "valid w1" "holds w1 \<subseteq>\<^sub>m holds w"
    unfolding spares_def by (meson list.set_intros(1))+
  from i Cons.prems(3) obtain err0 where e0: "e0 = Some err0" by (cases x; cases e0) auto
  show ?case
  proof (cases "err_status err0 = Some codes_Unauthenticated")
    case True
    with e0 i Cons.prems(3)
    have "strategy_chain (Some C) key ctx credential is (Some err0) w1 = Return ((ctx', Some e), w')"
      by (cases x) auto
    from Cons.IH [OF _ w1(1) this] Cons.prems(1) w1(2) show ?thesis
      by (auto intro: map_le_trans)
  next
    case False
    with e0 i Cons.prems(3) w1 show ?thesis by (cases x) auto
  qed
qed auto

lemma introspect_error_forgets:
  assumes "ti_cache cfg = Some C" and "\<And>i s. i \<in> set (ti_schemes cfg s) \<Longrightarrow> spares i"
    and "valid w" and "introspect ulower cfg ctx w = Return ((ctx', Some e), w')"
  shows "holds w' \<subseteq>\<^sub>m holds w \<and> ctx' = ctx"
proof (cases "presented ulower cfg ctx")
  case None
  with assms(4) show ?thesis by (auto simp: introspect_cases split: if_splits)
next
  case (Some p)
  obtain scheme credential where p: "p = (scheme, credential)" by fastforce
  obtain found hit w1 where get: "Cache_Get C (cacheKey scheme credential) w = ((found, hit), w1)"
    by (metis surj_pair)
  from get_keeps [OF assms(3) get] have w1: "valid w1" "holds w1 \<subseteq>\<^sub>m holds w" by auto
  from get assms(1,4) Some p have "\<not> hit" by (cases hit) (auto simp: introspect_cases lookup_def)
  show ?thesis
  proof (cases "ti_schemes cfg scheme = []")
    case True
    with \<open>\<not> hit\<close> get assms(1,4) Some p w1 show ?thesis by (auto simp: introspect_cases lookup_def)
  next
    case False
    with \<open>\<not> hit\<close> get assms(1,4) Some p have
      "strategy_chain (Some C) (cacheKey scheme credential) ctx credential (ti_schemes cfg scheme) None w1 =
         Return ((ctx', Some e), w')"
      by (simp add: introspect_cases lookup_def)
    from chain_error_forgets [OF _ w1(1) this] assms(2) w1(2) show ?thesis by (auto intro: map_le_trans)
  qed
qed

lemma introspect_all_hold:
  assumes "ti_cache cfg = Some C" and "\<And>i s. i \<in> set (ti_schemes cfg s) \<Longrightarrow> spares i"
    and "\<And>i s c ctx w r w'. i \<in> set (ti_schemes cfg s) \<Longrightarrow>
           Introspect i ctx c w = ((Some r, None), w') \<Longrightarrow> P (cacheKey s c) r"
    and "all_hold P w" and "introspect ulower cfg ctx w = Return ((ctx', err), w')"
  shows "all_hold P w' \<and>
    (err = None \<longrightarrow>
       (case presented ulower cfg ctx of
          None \<Rightarrow> presents_nothing cfg ctx \<and> ctx' = ctx
        | Some (scheme, credential) \<Rightarrow>
            \<exists>r. ctx' = WithResult ctx (Some r) \<and> P (cacheKey scheme credential) r))"
proof (cases "presented ulower cfg ctx")
  case None
  with assms(4,5) show ?thesis by (auto simp: introspect_cases split: if_splits)
next
  case (Some p)
  obtain scheme credential where p: "p = (scheme, credential)" by fastforce
  let ?key = "cacheKey scheme credential"
  obtain found hit w1 where get: "Cache_Get C ?key w = ((found, hit), w1)" by (metis surj_pair)
  have all1: "all_hold P w1" using all_hold_get [OF assms(4) get] .
  show ?thesis
  proof (cases hit)
    case True
    with all_hold_hit [OF assms(4), of ?key found w1] get obtain r where "found = Some r" "P ?key r"
      by auto
    with True get assms(1,5) Some p all1 show ?thesis by (auto simp: introspect_cases lookup_def)
  next
    case False
    show ?thesis
    proof (cases "ti_schemes cfg scheme = []")
      case True
      with False get assms(1,5) Some p all1 show ?thesis by (auto simp: introspect_cases lookup_def)
    next
      case ne: False
      with False get assms(1,5) Some p have
        "strategy_chain (Some C) ?key ctx credential (ti_schemes cfg scheme) None w1 = Return ((ctx', err), w')"
        by (simp add: introspect_cases lookup_def)
      from chain_all_hold [where P = P, OF _ _ all1 this] assms(2,3) ne show ?thesis
        by (fastforce simp: Some p)
    qed
  qed
qed

end

section \<open>Headers\<close>

lemma parseAuthorization_pair:
  assumes "no_space t" "no_space v" "v \<noteq> []"
  shows "parseAuthorization ulower (t @ '' '' @ v) = (strings_ToLower ulower t, v)"
  using assms SplitN_char_split [OF no_space_char [OF assms(1)], of v]
  by (simp add: parseAuthorization_def Let_def)

lemma presented_pair:
  assumes "ctx_incoming ctx = Some md" "md (ti_metadataKey cfg) = (t @ '' '' @ v) # vs"
    and "no_space t" "list_all ascii t" "t \<noteq> []" "no_space v" "v \<noteq> []"
  shows "presented ulower cfg ctx = Some (map ascii_lower t, v)"
  using assms by (simp add: presented_def parseAuthorization_pair ToLower_ascii del: append_Cons append_Nil)

text \<open>A call with a bearer token, and a configuration with one strategy, for examples.\<close>

definition bearer_ctx :: "string \<Rightarrow> go_ctx" where
  "bearer_ctx tok = \<lparr>ctx_values = [], ctx_incoming = Some ((\<lambda>_. [])(''authorization'' := [''Bearer '' @ tok]))\<rparr>"

definition one_strategy :: "'w Introspector \<Rightarrow> 'w Cache option \<Rightarrow> 'w ti_config" where
  "one_strategy i cache =
     \<lparr>ti_logLevel = LevelError, ti_metadataKey = ''authorization'',
      ti_schemes = (\<lambda>s. if s = ''bearer'' then [i] else []), ti_cache = cache\<rparr>"

lemma presented_bearer:
  assumes "no_space tok" "tok \<noteq> []"
  shows "presented ulower (one_strategy i cache) (bearer_ctx tok) = Some (''bearer'', tok)"
proof -
  have "no_space ''Bearer''" "list_all ascii ''Bearer''"
    by (rule no_space_ascii, simp_all add: ascii_def byte_in_def unicode_IsSpace_def)
  moreover have "map ascii_lower ''Bearer'' = ''bearer''" by code_simp
  ultimately show ?thesis
    using presented_pair [of "bearer_ctx tok" _ "one_strategy i cache" "''Bearer''" tok "[]" ulower] assms
    by (simp add: bearer_ctx_def one_strategy_def)
qed

lemma no_space_t: "no_space ''t''"
  by (rule no_space_ascii) (simp add: ascii_def byte_in_def unicode_IsSpace_def)

definition accepting :: "nat Introspector" where
  "accepting = rfc_impl (answering 200 active_body) (\<lambda>_. 0) (example_rfc rfc_defaultMaxResponseBodySize)"

lemma accepting_result:
  "Introspect accepting ctx c w = ((Some (rfc_result (\<lambda>_. 0) [''active'' \<mapsto> AnyBool True]), None), Suc w)"
proof -
  have ev: "rfc_evaluate (answering 200 active_body) (\<lambda>_. 0) (example_rfc rfc_defaultMaxResponseBodySize)
      \<lparr>StatusCode = 200, Body = \<lparr>body_data = active_body, body_error = None\<rparr>\<rparr> =
      Inr (rfc_result (\<lambda>_. 0) [''active'' \<mapsto> AnyBool True])"
    by (subst rfc_evaluate_cases)
      (simp_all add: example_rfc_def rfc_defaultMaxResponseBodySize_def body_within_def is_2xx_def
        active_body_raw rfc_active_def, simp add: active_body_def)
  have "http_Do (answering 200 active_body) d ctx q w =
      (Inr \<lparr>StatusCode = 200, Body = \<lparr>body_data = active_body, body_error = None\<rparr>\<rparr>, Suc w)" for d q
    by (simp add: answering_def)
  then show ?thesis by (simp add: accepting_def rfc_impl_def rfc_Introspect_unfold ev)
qed

section \<open>Properties\<close>

text \<open>
  C11. The strategies of a scheme are an ordered list of alternatives. When the cache has no answer,
  a credential is accepted exactly when some strategy accepts it after every one registered before it
  has rejected it with \<open>codes.Unauthenticated\<close>; that strategy's result goes into the context and into
  the cache, and the strategies after it are not asked.
\<close>

theorem introspect_accepts_iff:
  assumes "presented ulower cfg ctx = Some (scheme, credential)"
    and "lookup cfg (cacheKey scheme credential) w = ((found, False), w0)"
  shows "introspect ulower cfg ctx w = Return ((ctx', None), w') \<longleftrightarrow>
    (\<exists>pre i post w1 r w2.
       ti_schemes cfg scheme = pre @ i # post \<and> all_reject ctx credential pre w0 = Some w1 \<and>
       Introspect i ctx credential w1 = ((Some r, None), w2) \<and> ctx' = WithResult ctx (Some r) \<and>
       w' = (case ti_cache cfg of None \<Rightarrow> w2 | Some C \<Rightarrow> Cache_Set C (cacheKey scheme credential) r w2))"
  using strategy_chain_success [of "ti_cache cfg" "cacheKey scheme credential" ctx credential
      "ti_schemes cfg scheme" None w0 ctx' w'] assms
  by (cases "ti_schemes cfg scheme = []") (auto simp: introspect_cases)

theorem introspect_accepts_iff_witness:
  "introspect id (one_strategy accepting None) (bearer_ctx ''t'') 0 =
     Return ((WithResult (bearer_ctx ''t'') (Some (rfc_result (\<lambda>_. 0) [''active'' \<mapsto> AnyBool True])), None), 1)"
  by (subst introspect_accepts_iff [OF presented_bearer])
    (auto simp: no_space_t lookup_def one_strategy_def accepting_result intro!: exI [of _ "[]"])

text \<open>
  Strategies run in the order of registration: building a configuration from a list of
  introspectors leaves for every scheme exactly the introspectors of that scheme, compared in
  lower case, in the order given.
\<close>

theorem ti_buildConfig_order:
  "ti_schemes (ti_buildConfig (map (register ulower) is)) s =
     filter (\<lambda>i. strings_ToLower ulower (Scheme i) = s) is \<and>
   map (WithIntrospector ulower \<circ> Some) is = map (Return \<circ> register ulower) is"
proof -
  have "ti_schemes (apply_opts (map (register ulower) is) c) s =
      ti_schemes c s @ filter (\<lambda>i. strings_ToLower ulower (Scheme i) = s) is" for c
    by (induction "is" arbitrary: c) (auto simp: register_def Let_def)
  then show ?thesis by (simp add: ti_buildConfig_def WithIntrospector_def)
qed

text \<open>Strategies that know nothing of the cache, in a world that holds it beside their own.\<close>

definition beside :: "'v Introspector \<Rightarrow> ('c \<times> 'v) Introspector" where
  "beside i = \<lparr>Scheme = Scheme i, Introspect = (\<lambda>ctx credential (c, v).
     let (x, v') = Introspect i ctx credential v in (x, c, v'))\<rparr>"

lemma mem_spares: "mem.spares (beside i)"
  by (auto simp: mem.spares_def beside_def split: prod.splits)

text \<open>Calls one after another, with anything happening to the rest of the world before each.\<close>

fun run_calls ::
  "(rune \<Rightarrow> rune) \<Rightarrow> ('c \<times> 'v) ti_config \<Rightarrow> (('v \<Rightarrow> 'v) \<times> go_ctx) list \<Rightarrow>
   'c \<times> 'v \<Rightarrow> ((go_ctx \<times> go_error option) list \<times> ('c \<times> 'v)) outcome" where
  "run_calls ulower cfg [] w = Return ([], w)"
| "run_calls ulower cfg ((env, ctx) # calls) w =
     (case introspect ulower cfg ctx (fst w, env (snd w)) of
        Panic m \<Rightarrow> Panic m
      | Return (r, w') \<Rightarrow>
          (case run_calls ulower cfg calls w' of
             Panic m \<Rightarrow> Panic m
           | Return (rs, w'') \<Rightarrow> Return (r # rs, w'')))"

text \<open>
  A result is genuine for a cache key if a strategy registered for some scheme returned it for
  a credential that has this key.
\<close>

definition genuine ::
  "(string \<Rightarrow> 'v Introspector list) \<Rightarrow> string \<Rightarrow> IntrospectionResult \<Rightarrow> bool" where
  "genuine strategies key r \<longleftrightarrow>
     (\<exists>s i c ctx v. i \<in> set (strategies s) \<and> cacheKey s c = key \<and>
        fst (Introspect i ctx c v) = (Some r, None))"

definition genuine_reply ::
  "(rune \<Rightarrow> rune) \<Rightarrow> 'w ti_config \<Rightarrow> (string \<Rightarrow> 'v Introspector list) \<Rightarrow>
   go_ctx \<Rightarrow> go_ctx \<times> go_error option \<Rightarrow> bool" where
  "genuine_reply ulower cfg strategies ctx reply =
     (case snd reply of
        Some e \<Rightarrow> True
      | None \<Rightarrow>
          (case presented ulower cfg ctx of
             None \<Rightarrow> presents_nothing cfg ctx \<and> fst reply = ctx
           | Some (scheme, credential) \<Rightarrow>
               \<exists>r. fst reply = WithResult ctx (Some r) \<and> genuine strategies (cacheKey scheme credential) r))"

lemma run_calls_genuine:
  assumes "ti_cache cfg = Some (inMemoryCache_impl clock perm)"
    and "\<And>s. ti_schemes cfg s = map beside (strategies s)"
    and "mem.all_hold (genuine strategies) w"
    and "run_calls ulower cfg calls w = Return (rs, w')"
  shows "list_all2 (\<lambda>call reply. genuine_reply ulower cfg strategies (snd call) reply) calls rs"
  using assms(3,4)
proof (induction calls arbitrary: w rs)
  case (Cons call calls)
  obtain env ctx where call: "call = (env, ctx)" by fastforce
  from Cons.prems(2) obtain ctx' err w1 rs' where
    step: "introspect ulower cfg ctx (fst w, env (snd w)) = Return ((ctx', err), w1)"
    and rest: "run_calls ulower cfg calls w1 = Return (rs', w')" "rs = (ctx', err) # rs'"
    by (auto simp: call split: outcome.splits prod.splits)
  have w: "mem.all_hold (genuine strategies) (fst w, env (snd w))"
    using Cons.prems(1) by (simp add: mem.all_hold_def)
  have P: "genuine strategies (cacheKey s c) r"
    if "i \<in> set (ti_schemes cfg s)" "Introspect i ctx c x = ((Some r, None), x')" for i s c ctx x r x'
  proof -
    from that(1) assms(2) obtain i0 where i0: "i0 \<in> set (strategies s)" "i = beside i0" by auto
    from that(2) i0(2) have "fst (Introspect i0 ctx c (snd x)) = (Some r, None)"
      by (auto simp: beside_def split: prod.splits)
    with i0(1) show ?thesis unfolding genuine_def by blast
  qed
  have "mem.all_hold (genuine strategies) w1 \<and> genuine_reply ulower cfg strategies ctx (ctx', err)"
  proof -
    have sp: "\<And>i s. i \<in> set (ti_schemes cfg s) \<Longrightarrow> mem.spares i"
      using assms(2) mem_spares by auto
    have "mem.all_hold (genuine strategies) w1 \<and> (err = None \<longrightarrow>
        (case presented ulower cfg ctx of
           None \<Rightarrow> presents_nothing cfg ctx \<and> ctx' = ctx
         | Some (scheme, credential) \<Rightarrow> \<exists>r. ctx' = WithResult ctx (Some r) \<and>
             genuine strategies (cacheKey scheme credential) r))"
      using assms(1) sp P w step by (rule mem.introspect_all_hold)
    then show ?thesis by (cases err) (auto simp: genuine_reply_def split: option.splits)
  qed
  with Cons.IH [OF _ rest(1)] rest(2) show ?case by (simp add: call)
qed auto

text \<open>
  C9. No result is made up, mixed up or kept from a failure. In any sequence of calls that share an
  in-memory cache, a call that presents a credential and is let through carries a result that
  a registered strategy returned, with no error, for a credential with the same cache key; a call
  let through without a result presented no credential at all.
\<close>

theorem introspection_results_genuine:
  assumes "ti_cache cfg = Some (inMemoryCache_impl clock perm)"
    and "\<And>s. ti_schemes cfg s = map beside (strategies s)"
    and "run_calls ulower cfg calls (fst (NewInMemoryCache d opts), v) = Return (rs, w')"
  shows "list_all2 (\<lambda>call reply. genuine_reply ulower cfg strategies (snd call) reply) calls rs"
  by (rule run_calls_genuine [OF assms(1,2) _ assms(3)]) (unfold mem.all_hold_def, simp add: cached_def)

theorem introspection_results_genuine_witness:
  "\<exists>rs w'. run_calls id
       (one_strategy (beside accepting) (Some (inMemoryCache_impl (\<lambda>v. \<lparr>wall = int v, mono = None\<rparr>) (\<lambda>_ _ es. es))))
       [(Suc, bearer_ctx ''t'')] (fst (NewInMemoryCache 50 []), 0) = Return (rs, w') \<and>
     list_all2 (\<lambda>call reply. genuine_reply id
       (one_strategy (beside accepting) (Some (inMemoryCache_impl (\<lambda>v. \<lparr>wall = int v, mono = None\<rparr>) (\<lambda>_ _ es. es))))
       (\<lambda>s. if s = ''bearer'' then [accepting] else []) (snd call) reply) [(Suc, bearer_ctx ''t'')] rs"
proof -
  let ?C = "inMemoryCache_impl (\<lambda>v. \<lparr>wall = int v, mono = None\<rparr>) (\<lambda>_ _ es. es)"
  let ?cfg = "one_strategy (beside accepting) (Some ?C)"
  have "\<exists>rs w'. run_calls id ?cfg [(Suc, bearer_ctx ''t'')] (fst (NewInMemoryCache 50 []), 0) =
      Return (rs, w')"
    by (simp add: introspect_cases presented_bearer no_space_t lookup_def, simp add: one_strategy_def
        beside_def accepting_result inMemoryCache_impl_def inMemoryCache_Get_def)
  then obtain rs w' where r: "run_calls id ?cfg [(Suc, bearer_ctx ''t'')]
      (fst (NewInMemoryCache 50 []), 0) = Return (rs, w')" by blast
  have "list_all2 (\<lambda>call reply. genuine_reply id ?cfg
      (\<lambda>s. if s = ''bearer'' then [accepting] else []) (snd call) reply) [(Suc, bearer_ctx ''t'')] rs"
    by (rule introspection_results_genuine [OF _ _ r]) (auto simp: one_strategy_def)
  with r show ?thesis by blast
qed

text \<open>
  Failures are never cached: a call that is refused adds nothing to an in-memory cache, so
  a credential that becomes valid later is not refused because of an earlier answer.
\<close>

theorem introspection_errors_not_cached:
  assumes "ti_cache cfg = Some (inMemoryCache_impl clock perm)"
    and "\<And>s. ti_schemes cfg s = map beside (strategies s)" and "cache_inv c"
    and "introspect ulower cfg ctx (c, v) = Return ((ctx', Some e), (c', v'))"
  shows "cached c' \<subseteq>\<^sub>m cached c \<and> ctx' = ctx"
proof -
  have "mem.spares i" if "i \<in> set (ti_schemes cfg s)" for i s
    using that assms(2) mem_spares by auto
  from mem.introspect_error_forgets [OF assms(1) this _ assms(4)] assms(3) show ?thesis by simp
qed

definition rejecting :: "nat Introspector" where
  "rejecting = rfc_impl (answering 401 []) (\<lambda>_. 0) (example_rfc rfc_defaultMaxResponseBodySize)"

lemma rejecting_result:
  "Introspect rejecting ctx c w =
     ((None, Some (status_Error codes_Unauthenticated ''token rejected by introspection endpoint'')), Suc w)"
proof -
  have "rfc_evaluate (answering 401 []) (\<lambda>_. 0) (example_rfc rfc_defaultMaxResponseBodySize)
      \<lparr>StatusCode = 401, Body = \<lparr>body_data = [], body_error = None\<rparr>\<rparr> =
      Inl (status_Error codes_Unauthenticated ''token rejected by introspection endpoint'')"
    by (subst rfc_evaluate_cases)
      (simp_all add: example_rfc_def rfc_defaultMaxResponseBodySize_def body_within_def)
  then show ?thesis
    by (simp add: rejecting_def rfc_impl_def rfc_Introspect_unfold answering_def)
qed

theorem introspection_errors_not_cached_witness:
  "\<exists>e c' v'. introspect id
       (one_strategy (beside rejecting) (Some (inMemoryCache_impl (\<lambda>v. \<lparr>wall = int v, mono = None\<rparr>) (\<lambda>_ _ es. es))))
       (bearer_ctx ''t'') (fst (NewInMemoryCache 50 []), 0) = Return ((bearer_ctx ''t'', Some e), (c', v')) \<and>
     cached c' = Map.empty"
proof -
  let ?C = "inMemoryCache_impl (\<lambda>v. \<lparr>wall = int v, mono = None\<rparr>) (\<lambda>_ _ es. es)"
  let ?cfg = "one_strategy (beside rejecting) (Some ?C)"
  let ?c = "fst (NewInMemoryCache 50 [])"
  have "\<exists>e c' v'. introspect id ?cfg (bearer_ctx ''t'') (?c, 0) =
      Return ((bearer_ctx ''t'', Some e), (c', v'))"
    by (simp add: introspect_cases presented_bearer no_space_t lookup_def, simp add: one_strategy_def
        beside_def rejecting_result inMemoryCache_impl_def inMemoryCache_Get_def)
  then obtain e c' v' where r: "introspect id ?cfg (bearer_ctx ''t'') (?c, 0) =
      Return ((bearer_ctx ''t'', Some e), (c', v'))" by blast
  have "cached c' \<subseteq>\<^sub>m cached ?c \<and> bearer_ctx ''t'' = bearer_ctx ''t''"
    by (rule introspection_errors_not_cached [OF _ _ _ r, where
          strategies = "\<lambda>s. if s = ''bearer'' then [rejecting] else []"]) (auto simp: one_strategy_def)
  moreover have "cached ?c = Map.empty" by (simp add: cached_def comp_def)
  ultimately have "cached c' = Map.empty" by (metis map_le_antisym map_le_empty)
  with r show ?thesis by blast
qed

text \<open>
  With strategies that keep the documented contract, such as RFC 7662 introspectors, the
  interceptor never panics, and every error it returns is \<open>codes.Unauthenticated\<close> or \<open>codes.Internal\<close>.
\<close>

theorem introspect_contract:
  assumes "\<And>s i. i \<in> set (ti_schemes cfg s) \<Longrightarrow> introspector i"
  shows "\<exists>ctx' err w'. introspect ulower cfg ctx w = Return ((ctx', err), w') \<and>
    (err = None \<or> (\<exists>e. err = Some e \<and>
       (err_status e = Some codes_Unauthenticated \<or> err_status e = Some codes_Internal)))"
proof -
  have chain: "\<exists>ctx' err w'. strategy_chain cache key ctx credential is lastErr w = Return ((ctx', err), w') \<and>
      (err = None \<or> (\<exists>e. err = Some e \<and>
         (err_status e = Some codes_Unauthenticated \<or> err_status e = Some codes_Internal)))"
    if "\<And>i. i \<in> set is \<Longrightarrow> introspector i"
      "lastErr = None \<or> (\<exists>e. lastErr = Some e \<and> err_status e = Some codes_Unauthenticated)"
    for cache key ctx credential "is" lastErr and w :: 'a
    using that
  proof (induction "is" arbitrary: lastErr w)
    case (Cons i "is")
    obtain x err w1 where i: "Introspect i ctx credential w = ((x, err), w1)" by (metis surj_pair)
    from introspector.outcome [OF _ i] Cons.prems(1) have out: "(\<exists>r. x = Some r \<and> err = None) \<or>
        (\<exists>e. x = None \<and> err = Some e \<and>
           (err_status e = Some codes_Unauthenticated \<or> err_status e = Some codes_Internal))" by simp
    with i Cons.IH [of err w1] Cons.prems(1) show ?case by (auto split: option.split)
  qed auto
  show ?thesis
    using chain [OF assms] by (auto simp: introspect_cases split: option.split prod.split bool.split)
qed

theorem introspect_contract_witness:
  "\<exists>ctx' err w'. introspect id (one_strategy rejecting None) (bearer_ctx ''t'') 0 =
       Return ((ctx', err), w') \<and>
     (err = None \<or> (\<exists>e. err = Some e \<and>
       (err_status e = Some codes_Unauthenticated \<or> err_status e = Some codes_Internal)))"
  by (rule introspect_contract)
    (auto simp: one_strategy_def rejecting_def rfc.introspector_axioms split: if_splits)

lemma presented_not_nothing: "presented ulower cfg ctx = Some p \<Longrightarrow> \<not> presents_nothing cfg ctx"
  by (auto simp: presented_def presents_nothing_def split: option.splits list.splits prod.splits if_splits)

lemma strategy_chain_context:
  assumes "strategy_chain cache key ctx c is e w = Return ((ctx', err), w')" "is \<noteq> [] \<or> e \<noteq> None"
  shows "ctx_incoming ctx' = ctx_incoming ctx \<and> (err = None \<longrightarrow> (\<exists>r. ResultFromContext ctx' = Some r))"
  using assms
proof (induction "is" arbitrary: e w)
  case (Cons i "is")
  then show ?case by (auto simp: ctx_simps split: prod.splits option.splits if_splits)
qed auto

text \<open>Introspection changes no value of the context but its own.\<close>

lemma introspect_preserves:
  assumes "introspect ulower cfg ctx w = Return ((ctx', err), w')"
  shows "ctx_incoming ctx' = ctx_incoming ctx"
    "k \<noteq> ti_contextKey \<Longrightarrow> context_Value ctx' k = context_Value ctx k"
proof -
  have chain: "ctx' = ctx \<or> (\<exists>r. ctx' = WithResult ctx r)"
    if "strategy_chain cache key ctx c is e w = Return ((ctx', err), w')" for cache key c "is" e w
    using that
    by (induction cache key ctx c "is" e w rule: strategy_chain.induct)
      (auto split: prod.splits option.splits if_splits)
  have "ctx' = ctx \<or> (\<exists>r. ctx' = WithResult ctx r)"
    using assms chain
    by (auto simp: introspect_cases split: option.splits prod.splits bool.splits if_splits)
  then show "ctx_incoming ctx' = ctx_incoming ctx"
    "k \<noteq> ti_contextKey \<Longrightarrow> context_Value ctx' k = context_Value ctx k"
    by (auto simp: ctx_simps)
qed

lemma introspect_context:
  assumes "introspect ulower cfg ctx w = Return ((ctx', err), w')"
    and "\<And>key found w1. lookup cfg key w = ((found, True), w1) \<Longrightarrow> found \<noteq> None"
  shows "ctx_incoming ctx' = ctx_incoming ctx \<and>
    (err \<noteq> None \<or> (if presents_nothing cfg ctx then ctx' = ctx else \<exists>r. ResultFromContext ctx' = Some r))"
proof (cases "presented ulower cfg ctx")
  case None
  with assms(1) show ?thesis by (auto simp: introspect_cases split: if_splits)
next
  case (Some p)
  obtain s c where p: "p = (s, c)" by fastforce
  obtain found h w1 where l: "lookup cfg (cacheKey s c) w = ((found, h), w1)" by (metis surj_pair)
  show ?thesis
  proof (cases "h \<or> ti_schemes cfg s = []")
    case True
    with assms(1) Some p l assms(2) [of "cacheKey s c" found w1] presented_not_nothing [OF Some]
    show ?thesis by (auto simp: introspect_cases ctx_simps split: if_splits bool.splits)
  next
    case False
    with assms(1) Some p l have
      "strategy_chain (ti_cache cfg) (cacheKey s c) ctx c (ti_schemes cfg s) None w1 =
         Return ((ctx', err), w')"
      by (simp add: introspect_cases)
    from strategy_chain_context [OF this] False presented_not_nothing [OF Some] show ?thesis by auto
  qed
qed



text \<open>
  Schemes do not share cache entries as long as they are ordinary scheme names: for schemes
  without a colon, two credentials have the same cache key only if scheme and credential are the
  same or the two texts that are hashed are a collision of SHA-256.
\<close>

theorem cacheKey_separates:
  assumes "CHR '':'' \<notin> set s" "CHR '':'' \<notin> set s'"
  shows "cacheKey s c = cacheKey s' c' \<longleftrightarrow>
    s = s' \<and> c = c' \<or>
    s @ '':'' @ c \<noteq> s' @ '':'' @ c' \<and> sha256_Sum256 (s @ '':'' @ c) = sha256_Sum256 (s' @ '':'' @ c')"
  using first_separator_unique [OF assms, of c c'] by (auto simp: cacheKey_def inj_fmt_x)

theorem cacheKey_separates_witness: "cacheKey ''bearer'' ''a:b'' = cacheKey ''bearer'' ''a:b''"
  by (subst cacheKey_separates) simp_all

text \<open>
  C39. With a colon they do: a call whose header names the scheme \<open>bearer:x\<close>, for which nothing is
  registered, is let through with the cached result of the bearer credential \<open>x:y\<close>, where without
  the cache entry it is refused as an unsupported scheme.
\<close>

theorem cacheKey_scheme_confusion:
  assumes "presented ulower cfg ctx = Some (''bearer:x'', ''y'')" and "ti_schemes cfg ''bearer:x'' = []"
  shows "introspect ulower cfg ctx w =
    (case lookup cfg (cacheKey ''bearer'' ''x:y'') w of
       ((found, True), w') \<Rightarrow> Return ((WithResult ctx found, None), w')
     | ((found, False), w') \<Rightarrow>
         Return ((ctx, Some (status_Error codes_Unauthenticated ''unsupported authentication scheme: bearer:x'')), w'))"
  using assms by (simp add: introspect_cases cacheKey_def)

theorem cacheKey_scheme_confusion_witness:
  "introspect id (one_strategy accepting
       (Some \<lparr>Cache_Get = (\<lambda>k w. ((Some (example_result ''alice'' 0), True), w)), Cache_Set = (\<lambda>k r w. w)\<rparr>))
     \<lparr>ctx_values = [], ctx_incoming = Some ((\<lambda>_. [])(''authorization'' := [''bearer:x y'']))\<rparr> 0 =
   Return ((WithResult
     \<lparr>ctx_values = [], ctx_incoming = Some ((\<lambda>_. [])(''authorization'' := [''bearer:x y'']))\<rparr>
     (Some (example_result ''alice'' 0)), None), 0)"
proof -
  let ?ctx = "\<lparr>ctx_values = [], ctx_incoming = Some ((\<lambda>_. [])(''authorization'' := [''bearer:x y'']))\<rparr>"
  let ?cfg = "one_strategy accepting
    (Some \<lparr>Cache_Get = (\<lambda>k w. ((Some (example_result ''alice'' 0), True), w)), Cache_Set = (\<lambda>k r w. w)\<rparr>)"
  have "no_space ''bearer:x''" "no_space ''y''"
    by (rule no_space_ascii, simp add: ascii_def byte_in_def unicode_IsSpace_def)+
  moreover have "map ascii_lower ''bearer:x'' = ''bearer:x''" by code_simp
  ultimately have "presented id ?cfg ?ctx = Some (''bearer:x'', ''y'')"
    using presented_pair [of ?ctx _ ?cfg "''bearer:x''" "''y''" "[]" id]
    by (simp add: one_strategy_def ascii_def byte_in_def)
  from cacheKey_scheme_confusion [OF this] show ?thesis by (simp add: one_strategy_def lookup_def)
qed

end
