(* ===== verification/Policy_Option.thy ===== *)
theory Policy_Option
  imports Request_Tracking "HOL-Library.Multiset"
begin

text \<open>
  Package \<open>protobuf_policy_option\<close>: finding the policy of a method in the protobuf registry
  (with the per-interceptor cache), resolving the placeholders of its resource template from
  the request, and the unary and stream interceptors that put the result into the context.

  The protobuf runtime is not part of the repository. The registry is an input, the list of
  file descriptors in the order in which \<open>RangeFiles\<close> visits them, and message reflection is the
  argument \<open>pr\<close>, a record with the functions of \<open>protoreflect\<close> that the package calls.
\<close>

section \<open>Context values\<close>

definition withPolicy :: "go_ctx \<Rightarrow> string \<Rightarrow> string \<Rightarrow> go_ctx" where
  "withPolicy ctx resource action =
     context_WithValue ctx (ctxKey ''o3:policy'') (VPolicy \<lparr>Resource = resource, Action = action\<rparr>)"

definition markInterceptorRan :: "go_ctx \<Rightarrow> go_ctx" where
  "markInterceptorRan ctx = context_WithValue ctx (ctxKey ''o3:interceptor_ran'') (VBool True)"

definition InterceptorRanFromContext :: "go_ctx \<Rightarrow> bool" where
  "InterceptorRanFromContext ctx \<longleftrightarrow> context_Value ctx (ctxKey ''o3:interceptor_ran'') \<noteq> None"

definition PolicyFromContext :: "go_ctx \<Rightarrow> Policy option" where
  "PolicyFromContext ctx =
     (case context_Value ctx (ctxKey ''o3:policy'') of
        None \<Rightarrow> None
      | Some v \<Rightarrow> (case v of VPolicy pm \<Rightarrow> Some pm | _ \<Rightarrow> None))"

section \<open>The policy option and the registry\<close>

record FieldMapping =
  Placeholder :: string
  RequestField :: string

record pb_Policy =
  pb_Resource :: string
  pb_Action :: string
  FieldMappings :: "FieldMapping list"

text \<open>
  The options of a method: absent, a \<open>MethodOptions\<close> message (with the value of the policy
  extension, if set), or a message of another type. The extension value is a \<open>*pb.Policy\<close>
  or something else.
\<close>

datatype pb_extension = ExtPolicy pb_Policy | ExtOther

datatype method_options = NoOptions | MethodOptions "pb_extension option" | OtherOptions string

record MethodDescriptor =
  md_Name :: string
  md_Options :: method_options

record ServiceDescriptor =
  svc_FullName :: string
  svc_Methods :: "MethodDescriptor list"

record FileDescriptor =
  fd_Services :: "ServiceDescriptor list"

type_synonym registry = "FileDescriptor list"

section \<open>Looking a policy up\<close>

record rpcMethod =
  Service :: string
  Method :: string

definition parseFullMethodName :: "string \<Rightarrow> go_error + rpcMethod" where
  "parseFullMethodName fullMethodName =
     (case fullMethodName of
        [] \<Rightarrow> Inl (fmt_Errorf (''invalid full method format: '' @ fullMethodName))
      | c # method \<Rightarrow>
          if c \<noteq> CHR ''/''
          then Inl (fmt_Errorf (''invalid full method format: '' @ fullMethodName))
          else
            let lastSlash = strings_LastIndex method ''/''
            in if lastSlash = - 1
               then Inl (fmt_Errorf (''invalid full method format: '' @ fullMethodName))
               else Inr \<lparr>Service = take (nat lastSlash) method,
                         Method = drop (Suc (nat lastSlash)) method\<rparr>)"

text \<open>The callback given to \<open>RangeFiles\<close>: the loop over the services of one file.\<close>

fun scan_services :: "string \<Rightarrow> ServiceDescriptor list \<Rightarrow> ServiceDescriptor option" where
  "scan_services serviceName [] = None"
| "scan_services serviceName (svc # services) =
     (if svc_FullName svc = serviceName then Some svc else scan_services serviceName services)"

text \<open>\<open>RangeFiles\<close> with that callback: it stops at the first file where the service is found.\<close>

fun range_files :: "string \<Rightarrow> registry \<Rightarrow> ServiceDescriptor option" where
  "range_files serviceName [] = None"
| "range_files serviceName (fd # fds) =
     (case scan_services serviceName (fd_Services fd) of
        Some svc \<Rightarrow> Some svc
      | None \<Rightarrow> range_files serviceName fds)"

definition Methods_ByName :: "ServiceDescriptor \<Rightarrow> string \<Rightarrow> MethodDescriptor option" where
  "Methods_ByName svc name = find (\<lambda>m. md_Name m = name) (svc_Methods svc)"

text \<open>A policy and an error, either of which may be \<open>nil\<close>.\<close>

type_synonym policy_result = "pb_Policy option \<times> go_error option"

definition lookupMethodPolicy :: "registry \<Rightarrow> string \<Rightarrow> policy_result" where
  "lookupMethodPolicy reg fullMethodName =
     (case parseFullMethodName fullMethodName of
        Inl err \<Rightarrow> (None, Some err)
      | Inr mm \<Rightarrow>
          (case range_files (Service mm) reg of
             None \<Rightarrow> (None, None)
           | Some serviceDesc \<Rightarrow>
               (case Methods_ByName serviceDesc (Method mm) of
                  None \<Rightarrow> (None, None)
                | Some methodDesc \<Rightarrow>
                    (case md_Options methodDesc of
                       NoOptions \<Rightarrow> (None, None)
                     | OtherOptions t \<Rightarrow>
                         (None, Some (fmt_Errorf (''internal error: unexpected method options type '' @ t)))
                     | MethodOptions ext \<Rightarrow>
                         (case ext of
                            Some (ExtPolicy permission) \<Rightarrow> (Some permission, None)
                          | _ \<Rightarrow> (None, None))))))"

record cachedPolicy =
  cp_policy :: "pb_Policy option"
  cp_err :: "go_error option"

type_synonym policy_cache = "string \<rightharpoonup> cachedPolicy"

definition getMethodPolicy ::
  "registry \<Rightarrow> policy_cache \<Rightarrow> string \<Rightarrow> policy_result \<times> policy_cache" where
  "getMethodPolicy reg cache fullMethodName =
     (case cache fullMethodName of
        Some c \<Rightarrow> ((cp_policy c, cp_err c), cache)
      | None \<Rightarrow>
          (let (policy, err) = lookupMethodPolicy reg fullMethodName
           in ((policy, err), cache(fullMethodName \<mapsto> \<lparr>cp_policy = policy, cp_err = err\<rparr>))))"

section \<open>Resolving the resource\<close>

datatype kind =
    BoolKind | EnumKind | Int32Kind | Sint32Kind | Uint32Kind | Int64Kind | Sint64Kind
  | Uint64Kind | Sfixed32Kind | Fixed32Kind | FloatKind | Sfixed64Kind | Fixed64Kind
  | DoubleKind | StringKind | BytesKind | MessageKind | GroupKind

record ('m, 'fd, 'v) protoreflect =
  Fields_ByName :: "'m \<Rightarrow> string \<Rightarrow> 'fd option"
  msg_Get :: "'m \<Rightarrow> 'fd \<Rightarrow> 'v"
  fd_IsList :: "'fd \<Rightarrow> bool"
  fd_IsMap :: "'fd \<Rightarrow> bool"
  fd_Kind :: "'fd \<Rightarrow> kind"
  kind_String :: "kind \<Rightarrow> string"
  val_String :: "'v \<Rightarrow> string"
  val_Bytes :: "'v \<Rightarrow> string"
  val_Int :: "'v \<Rightarrow> int64"
  val_Uint :: "'v \<Rightarrow> uint64"
  val_Bool :: "'v \<Rightarrow> bool"

text \<open>A request is a protobuf message or a value of some other type, known by its name.\<close>

datatype 'm request = ProtoMessage 'm | NonProto string

definition extractFieldFromRequest ::
  "('m, 'fd, 'v) protoreflect \<Rightarrow> 'm request \<Rightarrow> string \<Rightarrow> go_error + string" where
  "extractFieldFromRequest pr req fieldPath =
     (case req of
        ProtoMessage m \<Rightarrow>
          (case Fields_ByName pr m fieldPath of
             None \<Rightarrow> Inl (fmt_Errorf (''field '' @ fieldPath @ '' not found in request''))
           | Some fd \<Rightarrow>
               (let val = msg_Get pr m fd
                in if fd_IsList pr fd \<or> fd_IsMap pr fd
                   then Inl (fmt_Errorf (''field '' @ fieldPath @ '' is list/map, unsupported''))
                   else if fd_Kind pr fd = StringKind then Inr (val_String pr val)
                   else if fd_Kind pr fd = BytesKind then
                     (let b = val_Bytes pr val
                      in if utf8_Valid b then Inr b else Inr (hex_EncodeToString b))
                   else if fd_Kind pr fd \<in> {Int32Kind, Sint32Kind, Sfixed32Kind,
                                             Int64Kind, Sint64Kind, Sfixed64Kind}
                   then Inr (fmt_d (sint (val_Int pr val)))
                   else if fd_Kind pr fd \<in> {Uint32Kind, Uint64Kind, Fixed32Kind, Fixed64Kind}
                   then Inr (fmt_d (uint (val_Uint pr val)))
                   else if fd_Kind pr fd = BoolKind
                   then Inr (if val_Bool pr val then ''true'' else ''false'')
                   else Inl (fmt_Errorf (''unsupported proto field kind '' @
                               kind_String pr (fd_Kind pr fd) @ '' for '' @ fieldPath))))
      | NonProto t \<Rightarrow>
          Inl (fmt_Errorf (''request does not implement proto.Message (got '' @ t @ '')'')))"

text \<open>The loop over the field mappings, on the resource resolved so far.\<close>

fun resolve_mappings ::
  "('m, 'fd, 'v) protoreflect \<Rightarrow> 'm request \<Rightarrow> FieldMapping list \<Rightarrow> string \<Rightarrow> go_error + string" where
  "resolve_mappings pr req [] resource = Inr resource"
| "resolve_mappings pr req (field # rest) resource =
     (if Placeholder field = [] \<or> RequestField field = []
      then Inl (fmt_Errorf ''invalid field mapping: placeholder and request_field must not be empty'')
      else
        let placeholder = ''<'' @ Placeholder field @ ''>''
        in if strings_Contains resource placeholder
           then (case extractFieldFromRequest pr req (RequestField field) of
                   Inl err \<Rightarrow>
                     Inl (fmt_Errorf (''failed to extract field '' @ RequestField field @ '': '' @ err_msg err))
                 | Inr v \<Rightarrow>
                     resolve_mappings pr req rest (strings_ReplaceAll resource placeholder v))
           else resolve_mappings pr req rest resource)"

definition resolveResourceFromRequest ::
  "('m, 'fd, 'v) protoreflect \<Rightarrow> pb_Policy \<Rightarrow> 'm request \<Rightarrow> go_error + Policy" where
  "resolveResourceFromRequest pr policy req =
     (if pb_Resource policy = [] then Inl (fmt_Errorf ''policy resource must not be empty'')
      else if pb_Action policy = [] then Inl (fmt_Errorf ''policy action must not be empty'')
      else
        (case resolve_mappings pr req (FieldMappings policy) (pb_Resource policy) of
           Inl err \<Rightarrow> Inl err
         | Inr resource \<Rightarrow> Inr \<lparr>Resource = resource, Action = pb_Action policy\<rparr>))"

definition hasFieldMappings :: "pb_Policy \<Rightarrow> bool" where
  "hasFieldMappings policy \<longleftrightarrow> length (FieldMappings policy) > 0"

definition fieldMappingsNotSupportedError :: go_error where
  "fieldMappingsNotSupportedError =
     status_Error codes_Internal
       ''field_mappings are not supported for streaming RPCs; use a static resource string''"

section \<open>The interceptors\<close>

record po_config =
  po_logLevel :: int

definition po_WithLogLevel :: "int \<Rightarrow> po_config \<Rightarrow> po_config" where
  "po_WithLogLevel level c = c\<lparr>po_logLevel := level\<rparr>"

definition po_Interceptor ::
  "registry \<Rightarrow> ('m, 'fd, 'v) protoreflect \<Rightarrow> policy_cache \<Rightarrow> string \<Rightarrow> go_ctx \<Rightarrow> 'm request \<Rightarrow>
   ('m request, 'p, 'w) unary_handler \<Rightarrow> 'w \<Rightarrow> 'p reply \<times> policy_cache \<times> 'w" where
  "po_Interceptor reg pr cache fullMethod ctx req handler w =
     (let ((policy, err), cache) = getMethodPolicy reg cache fullMethod
      in case err of
           Some e \<Rightarrow>
             ((None, Some (status_Error codes_Internal (''failed to get method policy: '' @ err_msg e))),
              cache, w)
         | None \<Rightarrow>
             (let ctx = markInterceptorRan ctx
              in case policy of
                   None \<Rightarrow> (let (r, w) = handler ctx req w in (r, cache, w))
                 | Some policy \<Rightarrow>
                     (case resolveResourceFromRequest pr policy req of
                        Inl e \<Rightarrow>
                          ((None, Some (status_Error codes_Internal
                                          (''resource resolved failed: '' @ err_msg e))), cache, w)
                      | Inr resolved \<Rightarrow>
                          (let ctx = withPolicy ctx (Resource resolved) (Action resolved);
                               (r, w) = handler ctx req w
                           in (r, cache, w)))))"

definition po_StreamInterceptor ::
  "registry \<Rightarrow> policy_cache \<Rightarrow> string \<Rightarrow> ('m, 'w) ServerStream \<Rightarrow> ('m, 'w) stream_handler \<Rightarrow> 'w \<Rightarrow>
   go_error option \<times> policy_cache \<times> 'w" where
  "po_StreamInterceptor reg cache fullMethod ss handler w =
     (let ((policy, err), cache) = getMethodPolicy reg cache fullMethod
      in case err of
           Some e \<Rightarrow>
             (Some (status_Error codes_Internal (''failed to get method policy: '' @ err_msg e)),
              cache, w)
         | None \<Rightarrow>
             (let wrapped = ss\<lparr>ss_Context := markInterceptorRan (ss_Context ss)\<rparr>
              in case policy of
                   None \<Rightarrow> (let (r, w) = handler wrapped w in (r, cache, w))
                 | Some policy \<Rightarrow>
                     if hasFieldMappings policy
                     then (Some fieldMappingsNotSupportedError, cache, w)
                     else
                       (let wrapped = wrapped\<lparr>ss_Context :=
                              withPolicy (ss_Context wrapped) (pb_Resource policy) (pb_Action policy)\<rparr>;
                            (r, w) = handler wrapped w
                        in (r, cache, w))))"

section \<open>Reading the context\<close>

lemma withPolicy_simps [ctx_simps]:
  "PolicyFromContext (withPolicy ctx r a) = Some \<lparr>Resource = r, Action = a\<rparr>"
  "InterceptorRanFromContext (withPolicy ctx r a) = InterceptorRanFromContext ctx"
  "RequestIDFromContext (withPolicy ctx r a) = RequestIDFromContext ctx"
  "ctx_incoming (withPolicy ctx r a) = ctx_incoming ctx"
  "k \<noteq> ctxKey ''o3:policy'' \<Longrightarrow> context_Value (withPolicy ctx r a) k = context_Value ctx k"
  by (simp_all add: withPolicy_def PolicyFromContext_def InterceptorRanFromContext_def
      RequestIDFromContext_def ctx_simps)

lemma markInterceptorRan_simps [ctx_simps]:
  "InterceptorRanFromContext (markInterceptorRan ctx)"
  "PolicyFromContext (markInterceptorRan ctx) = PolicyFromContext ctx"
  "RequestIDFromContext (markInterceptorRan ctx) = RequestIDFromContext ctx"
  "ctx_incoming (markInterceptorRan ctx) = ctx_incoming ctx"
  "k \<noteq> ctxKey ''o3:interceptor_ran'' \<Longrightarrow>
   context_Value (markInterceptorRan ctx) k = context_Value ctx k"
  by (simp_all add: markInterceptorRan_def PolicyFromContext_def InterceptorRanFromContext_def
      RequestIDFromContext_def ctx_simps)

lemma WithRequestID_policy_simps [ctx_simps]:
  "PolicyFromContext (WithRequestID ctx i) = PolicyFromContext ctx"
  "InterceptorRanFromContext (WithRequestID ctx i) = InterceptorRanFromContext ctx"
  by (simp_all add: PolicyFromContext_def InterceptorRanFromContext_def ctx_simps)

section \<open>Method names\<close>

lemma parse_slash:
  assumes "CHR ''/'' \<notin> set m"
  shows "parseFullMethodName (''/'' @ s @ ''/'' @ m) = Inr \<lparr>Service = s, Method = m\<rparr>"
  using LastIndex_char_split [OF assms, of s] by (simp add: parseFullMethodName_def Let_def)

text \<open>
  Parsing a full method name accepts exactly the strings \<open>/service/method\<close> whose method
  part has no slash, and returns those two parts: it is the inverse of composing them.
\<close>

theorem parseFullMethodName_iff:
  "parseFullMethodName f = Inr r \<longleftrightarrow>
   f = ''/'' @ Service r @ ''/'' @ Method r \<and> CHR ''/'' \<notin> set (Method r)"
proof
  assume ok: "parseFullMethodName f = Inr r"
  then obtain g where f: "f = CHR ''/'' # g"
    by (auto simp: parseFullMethodName_def split: list.splits if_splits)
  have "CHR ''/'' \<in> set g"
    using ok LastIndex_char_absent [of "CHR ''/''" g]
    by (auto simp: f parseFullMethodName_def Let_def split: if_splits)
  then obtain s m where g: "g = s @ CHR ''/'' # m" and m: "CHR ''/'' \<notin> set m"
    by (meson split_list_last)
  have "parseFullMethodName f = Inr \<lparr>Service = s, Method = m\<rparr>"
    using parse_slash [OF m, of s] by (simp add: f g)
  with ok f g m show "f = ''/'' @ Service r @ ''/'' @ Method r \<and> CHR ''/'' \<notin> set (Method r)" by auto
next
  assume "f = ''/'' @ Service r @ ''/'' @ Method r \<and> CHR ''/'' \<notin> set (Method r)"
  then show "parseFullMethodName f = Inr r" using parse_slash [of "Method r" "Service r"] by simp
qed

section \<open>The registry scan\<close>

definition services_of :: "registry \<Rightarrow> (string \<times> ServiceDescriptor) list" where
  "services_of reg = concat (map (\<lambda>fd. map (\<lambda>s. (svc_FullName s, s)) (fd_Services fd)) reg)"

lemma scan_services_map_of:
  "scan_services n svcs = map_of (map (\<lambda>s. (svc_FullName s, s)) svcs) n"
  by (induction svcs) auto

lemma range_files_map_of: "range_files n reg = map_of (services_of reg) n"
  by (induction reg)
    (auto simp: services_of_def scan_services_map_of map_add_def split: option.split)

text \<open>Protobuf registries hold a full name at most once.\<close>

definition registry_unique :: "registry \<Rightarrow> bool" where
  "registry_unique reg \<longleftrightarrow> distinct (map fst (services_of reg))"

lemma mset_services_of: "mset (services_of reg) = (\<Sum>fd\<in>#mset reg. mset (map (\<lambda>s. (svc_FullName s, s)) (fd_Services fd)))"
  by (induction reg) (auto simp: services_of_def)

lemma mset_services_cong: "mset reg = mset reg' \<Longrightarrow> mset (services_of reg) = mset (services_of reg')"
  by (simp add: mset_services_of)

text \<open>
  \<open>RangeFiles\<close> visits the registered files in no particular order. When full names are
  unique in the registry, as the protobuf runtime guarantees, the policy found for a method
  does not depend on that order.
\<close>

theorem lookupMethodPolicy_order_independent:
  assumes "registry_unique reg" and "mset reg' = mset reg"
  shows "lookupMethodPolicy reg' fullMethodName = lookupMethodPolicy reg fullMethodName"
proof -
  have m: "mset (services_of reg') = mset (services_of reg)"
    by (rule mset_services_cong [OF assms(2)])
  then have "mset (map fst (services_of reg')) = mset (map fst (services_of reg))" by simp
  with assms(1) have "distinct (map fst (services_of reg'))"
    unfolding registry_unique_def by (metis mset_eq_imp_distinct_iff)
  moreover have "set (services_of reg') = set (services_of reg)" using m by (rule mset_eq_setD)
  ultimately have "map_of (services_of reg') = map_of (services_of reg)"
    using assms(1) by (simp add: registry_unique_def map_of_inject_set)
  then have "range_files n reg' = range_files n reg" for n by (simp add: range_files_map_of)
  then show ?thesis by (simp add: lookupMethodPolicy_def split: sum.split)
qed

theorem lookupMethodPolicy_order_independent_witness:
  "lookupMethodPolicy
     [\<lparr>fd_Services = []\<rparr>,
      \<lparr>fd_Services = [\<lparr>svc_FullName = ''s'', svc_Methods = [\<lparr>md_Name = ''M'', md_Options = NoOptions\<rparr>]\<rparr>]\<rparr>]
     ''/s/M'' =
   lookupMethodPolicy
     [\<lparr>fd_Services = [\<lparr>svc_FullName = ''s'', svc_Methods = [\<lparr>md_Name = ''M'', md_Options = NoOptions\<rparr>]\<rparr>]\<rparr>,
      \<lparr>fd_Services = []\<rparr>]
     ''/s/M''"
  by (rule lookupMethodPolicy_order_independent) (simp_all add: registry_unique_def services_of_def)

section \<open>The policy cache\<close>

text \<open>
  A memo table in front of a function: an answer is the function's value, and the table stays
  coherent. The laws are those \<open>getMethodPolicy\<close> promises to the interceptors; what follows
  for any sequence of calls is proved once.
\<close>

locale memo_table =
  fixes get :: "'c \<Rightarrow> 'k \<Rightarrow> 'v \<times> 'c"
    and lookup :: "'k \<Rightarrow> 'v"
    and invar :: "'c \<Rightarrow> bool"
  assumes get_value: "invar c \<Longrightarrow> fst (get c k) = lookup k"
    and get_invar: "invar c \<Longrightarrow> invar (snd (get c k))"
begin

fun run_gets :: "'c \<Rightarrow> 'k list \<Rightarrow> 'v list \<times> 'c" where
  "run_gets c [] = ([], c)"
| "run_gets c (k # ks) =
     (let (v, c) = get c k; (vs, c) = run_gets c ks in (v # vs, c))"

lemma run_gets_values: "invar c \<Longrightarrow> fst (run_gets c ks) = map lookup ks"
  by (induction ks arbitrary: c)
    (auto simp: case_prod_beta get_value get_invar)

lemma run_gets_invar: "invar c \<Longrightarrow> invar (snd (run_gets c ks))"
  by (induction ks arbitrary: c) (auto simp: case_prod_beta get_invar)

end

definition policy_cache_ok :: "registry \<Rightarrow> policy_cache \<Rightarrow> bool" where
  "policy_cache_ok reg cache \<longleftrightarrow>
     (\<forall>name c. cache name = Some c \<longrightarrow> (cp_policy c, cp_err c) = lookupMethodPolicy reg name)"

lemma policy_cache_ok_empty [simp]: "policy_cache_ok reg Map.empty"
  by (simp add: policy_cache_ok_def)

interpretation po_memo: memo_table "getMethodPolicy reg" "lookupMethodPolicy reg" "policy_cache_ok reg"
  for reg
proof
  fix c :: policy_cache and k :: string
  assume inv: "policy_cache_ok reg c"
  then show "fst (getMethodPolicy reg c k) = lookupMethodPolicy reg k"
    by (auto simp: getMethodPolicy_def policy_cache_ok_def case_prod_beta split: option.split)
  from inv show "policy_cache_ok reg (snd (getMethodPolicy reg c k))"
    by (auto simp: getMethodPolicy_def policy_cache_ok_def case_prod_beta split: option.split)
qed

text \<open>The calls of \<open>getMethodPolicy\<close> made by one interceptor, in order, from an empty cache.\<close>

fun policy_lookups :: "registry \<Rightarrow> policy_cache \<Rightarrow> string list \<Rightarrow> policy_result list \<times> policy_cache" where
  "policy_lookups reg cache [] = ([], cache)"
| "policy_lookups reg cache (name # names) =
     (let (r, cache) = getMethodPolicy reg cache name;
          (rs, cache) = policy_lookups reg cache names
      in (r # rs, cache))"

lemma policy_lookups_run_gets: "policy_lookups reg cache names = po_memo.run_gets reg cache names"
  by (induction names arbitrary: cache) (simp_all add: case_prod_beta)

text \<open>
  The cache is transparent: in any sequence of lookups, of known and unknown methods,
  repeated or not, every answer (policy, no policy, or error) is the one a scan of the registry
  would give.
\<close>

theorem policy_cache_transparent:
  "fst (policy_lookups reg Map.empty names) = map (lookupMethodPolicy reg) names"
  unfolding policy_lookups_run_gets by (rule po_memo.run_gets_values) simp

subsection \<open>Concurrent calls\<close>

text \<open>
  \<open>getMethodPolicy\<close> is not atomic: between the Load that missed and the Store, other goroutines run.
  A goroutine is about to Load, has missed and is about to scan and Store, or has its answer.
\<close>

datatype lookup_pc =
    Idle
  | Loading string
  | Missed string
  | Answered string policy_result

record policy_sys =
  shared_cache :: policy_cache
  goroutine :: "nat \<Rightarrow> lookup_pc"

inductive policy_step :: "registry \<Rightarrow> policy_sys \<Rightarrow> policy_sys \<Rightarrow> bool" for reg where
  call: "policy_step reg s (s\<lparr>goroutine := (goroutine s)(i := Loading name)\<rparr>)"
    if "goroutine s i = Idle \<or> (\<exists>n r. goroutine s i = Answered n r)"
| load_hit: "policy_step reg s (s\<lparr>goroutine := (goroutine s)(i := Answered name (cp_policy c, cp_err c))\<rparr>)"
    if "goroutine s i = Loading name" "shared_cache s name = Some c"
| load_miss: "policy_step reg s (s\<lparr>goroutine := (goroutine s)(i := Missed name)\<rparr>)"
    if "goroutine s i = Loading name" "shared_cache s name = None"
| store: "policy_step reg s
     (s\<lparr>shared_cache := (shared_cache s)(name \<mapsto> \<lparr>cp_policy = fst (lookupMethodPolicy reg name),
                                                cp_err = snd (lookupMethodPolicy reg name)\<rparr>),
        goroutine := (goroutine s)(i := Answered name (lookupMethodPolicy reg name))\<rparr>)"
    if "goroutine s i = Missed name"

inductive policy_reachable :: "registry \<Rightarrow> policy_sys \<Rightarrow> bool" for reg where
  start: "policy_reachable reg \<lparr>shared_cache = Map.empty, goroutine = (\<lambda>_. Idle)\<rparr>"
| step: "policy_reachable reg s \<Longrightarrow> policy_step reg s t \<Longrightarrow> policy_reachable reg t"

definition policy_sys_inv :: "registry \<Rightarrow> policy_sys \<Rightarrow> bool" where
  "policy_sys_inv reg s \<longleftrightarrow> policy_cache_ok reg (shared_cache s) \<and>
     (\<forall>i name r. goroutine s i = Answered name r \<longrightarrow> r = lookupMethodPolicy reg name)"

lemma policy_step_inv: "policy_step reg s t \<Longrightarrow> policy_sys_inv reg s \<Longrightarrow> policy_sys_inv reg t"
  by (induction rule: policy_step.induct)
    (auto simp: policy_sys_inv_def policy_cache_ok_def)

lemma policy_reachable_inv: "policy_reachable reg s \<Longrightarrow> policy_sys_inv reg s"
proof (induction rule: policy_reachable.induct)
  case start
  show ?case by (simp add: policy_sys_inv_def)
next
  case (step s t)
  then show ?case by (blast intro: policy_step_inv)
qed



section \<open>Resource templates\<close>

text \<open>
  The intended reading of a resource template: literal text and holes \<open><name>\<close>. Text has no
  \<open><\<close>, and hole names have neither \<open><\<close> nor \<open>>\<close>. Filling replaces all mapped holes at once.
\<close>

datatype seg = Txt string | Hole string

fun seg_string :: "seg \<Rightarrow> string" where
  "seg_string (Txt t) = t"
| "seg_string (Hole p) = ''<'' @ p @ ''>''"

definition template_string :: "seg list \<Rightarrow> string" where
  "template_string segs = concat (map seg_string segs)"

fun seg_ok :: "seg \<Rightarrow> bool" where
  "seg_ok (Txt t) \<longleftrightarrow> CHR ''<'' \<notin> set t"
| "seg_ok (Hole p) \<longleftrightarrow> CHR ''<'' \<notin> set p \<and> CHR ''>'' \<notin> set p"

fun fill_seg :: "(string \<rightharpoonup> string) \<Rightarrow> seg \<Rightarrow> seg" where
  "fill_seg \<sigma> (Txt t) = Txt t"
| "fill_seg \<sigma> (Hole p) = (case \<sigma> p of Some v \<Rightarrow> Txt v | None \<Rightarrow> Hole p)"

definition fill :: "(string \<rightharpoonup> string) \<Rightarrow> seg list \<Rightarrow> string" where
  "fill \<sigma> segs = template_string (map (fill_seg \<sigma>) segs)"

lemma ReplaceAll_skip_text:
  "CHR ''<'' \<notin> set t \<Longrightarrow>
   strings_ReplaceAll (t @ s) (CHR ''<'' # q) v = t @ strings_ReplaceAll s (CHR ''<'' # q) v"
  by (induction t) (auto simp: ReplaceAll_skip HasPrefix_iff)

lemma Contains_skip_text:
  "CHR ''<'' \<notin> set t \<Longrightarrow>
   strings_Contains (t @ s) (CHR ''<'' # q) \<longleftrightarrow> strings_Contains s (CHR ''<'' # q)"
  by (induction t) (auto simp: HasPrefix_iff)

lemma hole_prefix:
  assumes "CHR ''>'' \<notin> set p" "CHR ''>'' \<notin> set q"
  shows "strings_HasPrefix (CHR ''<'' # q @ CHR ''>'' # s) (CHR ''<'' # p @ ''>'') \<longleftrightarrow> p = q"
  unfolding HasPrefix_iff using assms by (auto simp: first_separator_unique)

lemma template_ReplaceAll:
  assumes "list_all seg_ok segs" and "CHR ''>'' \<notin> set p"
  shows "strings_ReplaceAll (template_string segs) (''<'' @ p @ ''>'') v = fill [p \<mapsto> v] segs"
  using assms(1)
proof (induction segs)
  case Nil
  then show ?case by (simp add: fill_def template_string_def)
next
  case (Cons g segs)
  show ?case
  proof (cases g)
    case (Txt t)
    with Cons show ?thesis by (simp add: fill_def template_string_def ReplaceAll_skip_text)
  next
    case (Hole q)
    with Cons.prems have q: "CHR ''<'' \<notin> set q" "CHR ''>'' \<notin> set q" by auto
    let ?rest = "template_string segs"
    have str: "template_string (g # segs) = CHR ''<'' # q @ CHR ''>'' # ?rest"
      by (simp add: Hole template_string_def)
    show ?thesis
    proof (cases "p = q")
      case True
      have "strings_ReplaceAll ((''<'' @ p @ ''>'') @ ?rest) (''<'' @ p @ ''>'') v =
          v @ strings_ReplaceAll ?rest (''<'' @ p @ ''>'') v"
        by (rule ReplaceAll_match) simp
      with Cons True Hole show ?thesis by (simp add: str fill_def template_string_def)
    next
      case False
      with hole_prefix [OF assms(2) q(2), of ?rest] have
        "strings_ReplaceAll (CHR ''<'' # q @ CHR ''>'' # ?rest) (''<'' @ p @ ''>'') v =
         CHR ''<'' # strings_ReplaceAll (q @ CHR ''>'' # ?rest) (''<'' @ p @ ''>'') v"
        by (intro ReplaceAll_skip) simp_all
      also have "\<dots> = CHR ''<'' # q @ CHR ''>'' # strings_ReplaceAll ?rest (''<'' @ p @ ''>'') v"
        using ReplaceAll_skip_text [of "q @ ''>''" ?rest "p @ ''>''" v] q
        by simp
      finally show ?thesis using Cons False Hole by (simp add: str fill_def template_string_def)
    qed
  qed
qed

lemma template_Contains:
  assumes "list_all seg_ok segs" and "CHR ''>'' \<notin> set p"
  shows "strings_Contains (template_string segs) (''<'' @ p @ ''>'') \<longleftrightarrow> Hole p \<in> set segs"
  using assms(1)
proof (induction segs)
  case Nil
  then show ?case by (simp add: template_string_def)
next
  case (Cons g segs)
  show ?case
  proof (cases g)
    case (Txt t)
    with Cons show ?thesis by (simp add: template_string_def Contains_skip_text)
  next
    case (Hole q)
    with Cons.prems have q: "CHR ''<'' \<notin> set q" "CHR ''>'' \<notin> set q" by auto
    let ?rest = "template_string segs"
    have "template_string (g # segs) = CHR ''<'' # q @ CHR ''>'' # ?rest"
      by (simp add: Hole template_string_def)
    moreover have "strings_Contains (q @ CHR ''>'' # ?rest) (CHR ''<'' # p @ ''>'') \<longleftrightarrow>
        strings_Contains ?rest (CHR ''<'' # p @ ''>'')"
      using Contains_skip_text [of "q @ ''>''" ?rest "p @ ''>''"] q by simp
    ultimately show ?thesis
      using hole_prefix [OF assms(2) q(2), of ?rest] Cons Hole by auto
  qed
qed

text \<open>The value a list of mappings gives to a hole: the first mapping of that name decides.\<close>

definition mapped_value ::
  "('m, 'fd, 'v) protoreflect \<Rightarrow> 'm request \<Rightarrow> FieldMapping list \<Rightarrow> string \<rightharpoonup> string" where
  "mapped_value pr req fms p =
     (case find (\<lambda>f. Placeholder f = p) fms of
        None \<Rightarrow> None
      | Some f \<Rightarrow> (case extractFieldFromRequest pr req (RequestField f) of Inl _ \<Rightarrow> None | Inr v \<Rightarrow> Some v))"

text \<open>
  Mappings are usable on a template: their names are non-empty and free of angle brackets, and
  every field that the template needs can be extracted and has no \<open><\<close> in its text.
\<close>

definition mappings_ok ::
  "('m, 'fd, 'v) protoreflect \<Rightarrow> 'm request \<Rightarrow> FieldMapping list \<Rightarrow> seg list \<Rightarrow> bool" where
  "mappings_ok pr req fms segs \<longleftrightarrow>
     (\<forall>f\<in>set fms. Placeholder f \<noteq> [] \<and> RequestField f \<noteq> [] \<and> seg_ok (Hole (Placeholder f)) \<and>
        (Hole (Placeholder f) \<in> set segs \<longrightarrow>
           (\<exists>v. extractFieldFromRequest pr req (RequestField f) = Inr v \<and> CHR ''<'' \<notin> set v)))"

lemma seg_ok_fill: "seg_ok g \<Longrightarrow> CHR ''<'' \<notin> set v \<Longrightarrow> seg_ok (fill_seg [p \<mapsto> v] g)"
  by (cases g) auto

lemma Hole_fill: "Hole q \<in> fill_seg [p \<mapsto> v] ` set segs \<longleftrightarrow> q \<noteq> p \<and> Hole q \<in> set segs"
proof
  assume "Hole q \<in> fill_seg [p \<mapsto> v] ` set segs"
  then obtain g where "g \<in> set segs" "fill_seg [p \<mapsto> v] g = Hole q" by force
  then show "q \<noteq> p \<and> Hole q \<in> set segs" by (cases g rule: seg.exhaust) (auto split: if_splits)
next
  assume "q \<noteq> p \<and> Hole q \<in> set segs"
  then show "Hole q \<in> fill_seg [p \<mapsto> v] ` set segs" by (intro image_eqI [of _ _ "Hole q"]) auto
qed

lemma fill_cong: "(\<And>p. Hole p \<in> set segs \<Longrightarrow> \<sigma> p = \<tau> p) \<Longrightarrow> fill \<sigma> segs = fill \<tau> segs"
proof -
  assume eq: "\<And>p. Hole p \<in> set segs \<Longrightarrow> \<sigma> p = \<tau> p"
  have "fill_seg \<sigma> g = fill_seg \<tau> g" if "g \<in> set segs" for g
    using that eq by (cases g rule: seg.exhaust) auto
  then show ?thesis unfolding fill_def by (metis map_cong)
qed

lemma fill_fill:
  "fill \<sigma> (map (fill_seg [p \<mapsto> v]) segs) = fill (\<lambda>q. if q = p then Some v else \<sigma> q) segs"
proof -
  have "fill_seg \<sigma> (fill_seg [p \<mapsto> v] g) = fill_seg (\<lambda>q. if q = p then Some v else \<sigma> q) g" for g
    by (cases g) auto
  then show ?thesis by (simp add: fill_def comp_def)
qed

lemma resolve_mappings_fill:
  assumes "list_all seg_ok segs" and "mappings_ok pr req fms segs"
  shows "resolve_mappings pr req fms (template_string segs) = Inr (fill (mapped_value pr req fms) segs)"
  using assms
proof (induction fms arbitrary: segs)
  case Nil
  have "fill_seg (mapped_value pr req []) g = g" for g by (cases g) (simp_all add: mapped_value_def)
  then show ?case by (simp add: fill_def map_idI)
next
  case (Cons f fms)
  let ?p = "Placeholder f"
  from Cons.prems(2) have f: "?p \<noteq> []" "RequestField f \<noteq> []" "CHR ''>'' \<notin> set ?p"
    by (auto simp: mappings_ok_def)
  have contains: "strings_Contains (template_string segs) (''<'' @ ?p @ ''>'') \<longleftrightarrow> Hole ?p \<in> set segs"
    by (rule template_Contains [OF Cons.prems(1) f(3)])
  show ?case
  proof (cases "Hole ?p \<in> set segs")
    case True
    with Cons.prems(2) obtain v where
      v: "extractFieldFromRequest pr req (RequestField f) = Inr v" "CHR ''<'' \<notin> set v"
      by (auto simp: mappings_ok_def)
    let ?segs = "map (fill_seg [?p \<mapsto> v]) segs"
    have "list_all seg_ok ?segs"
      using Cons.prems(1) v(2) by (auto simp: list_all_iff seg_ok_fill)
    moreover have "mappings_ok pr req fms ?segs"
      using Cons.prems(2) by (auto simp: mappings_ok_def Hole_fill)
    ultimately have IH: "resolve_mappings pr req fms (template_string ?segs) =
        Inr (fill (mapped_value pr req fms) ?segs)" by (rule Cons.IH)
    have "strings_ReplaceAll (template_string segs) (''<'' @ ?p @ ''>'') v = template_string ?segs"
      using template_ReplaceAll [OF Cons.prems(1) f(3)] by (simp add: fill_def)
    moreover have "fill (mapped_value pr req fms) ?segs = fill (mapped_value pr req (f # fms)) segs"
      unfolding fill_fill by (rule fill_cong) (auto simp: mapped_value_def v(1))
    ultimately show ?thesis using f True contains v IH by (simp add: Let_def)
  next
    case False
    have "mappings_ok pr req fms segs" using Cons.prems(2) by (simp add: mappings_ok_def)
    with Cons have "resolve_mappings pr req fms (template_string segs) =
        Inr (fill (mapped_value pr req fms) segs)" by blast
    moreover have "fill (mapped_value pr req fms) segs = fill (mapped_value pr req (f # fms)) segs"
      using False by (intro fill_cong) (auto simp: mapped_value_def)
    ultimately show ?thesis using f False contains by (simp add: Let_def)
  qed
qed

text \<open>
  Messages whose fields are all of one scalar kind, as a concrete instance of reflection for
  examples: a message is an association list from field names to byte strings.
\<close>

definition flat_message :: "kind \<Rightarrow> ((string \<times> string) list, string, string) protoreflect" where
  "flat_message k =
     \<lparr>Fields_ByName = (\<lambda>m n. if n \<in> fst ` set m then Some n else None),
      msg_Get = (\<lambda>m n. case map_of m n of Some v \<Rightarrow> v | None \<Rightarrow> []),
      fd_IsList = (\<lambda>_. False), fd_IsMap = (\<lambda>_. False), fd_Kind = (\<lambda>_. k),
      kind_String = (\<lambda>_. ''kind''), val_String = (\<lambda>v. v), val_Bytes = (\<lambda>v. v),
      val_Int = (\<lambda>v. of_nat (length v)), val_Uint = (\<lambda>v. of_nat (length v)), val_Bool = (\<lambda>v. v \<noteq> [])\<rparr>"

text \<open>
  C12. Resolving a resource template is a simultaneous substitution: for a policy whose template
  reads as text and holes, the loop of replacements yields the template with every mapped hole
  replaced by the text of its request field, the first mapping of a name deciding, and unmapped
  holes left as they are. The values must have no \<open><\<close> (the next property shows why).
\<close>

theorem resolveResource_simultaneous:
  assumes "list_all seg_ok segs" and "mappings_ok pr req (FieldMappings policy) segs"
    and "pb_Resource policy = template_string segs" and "pb_Resource policy \<noteq> []" "pb_Action policy \<noteq> []"
  shows "resolveResourceFromRequest pr policy req =
    Inr \<lparr>Resource = fill (mapped_value pr req (FieldMappings policy)) segs, Action = pb_Action policy\<rparr>"
  using assms by (simp add: resolveResourceFromRequest_def resolve_mappings_fill)

theorem resolveResource_simultaneous_witness:
  "resolveResourceFromRequest (flat_message StringKind)
     \<lparr>pb_Resource = ''items/<id>'', pb_Action = ''read'',
      FieldMappings = [\<lparr>Placeholder = ''id'', RequestField = ''id''\<rparr>]\<rparr>
     (ProtoMessage [(''id'', ''42'')]) =
   Inr \<lparr>Resource = ''items/42'', Action = ''read''\<rparr>"
  using resolveResource_simultaneous [of "[Txt ''items/'', Hole ''id'']" "flat_message StringKind"
      "ProtoMessage [(''id'', ''42'')]"
      "\<lparr>pb_Resource = ''items/<id>'', pb_Action = ''read'',
        FieldMappings = [\<lparr>Placeholder = ''id'', RequestField = ''id''\<rparr>]\<rparr>"]
  by (simp add: mappings_ok_def mapped_value_def extractFieldFromRequest_def flat_message_def
      fill_def template_string_def)


section \<open>Field extraction\<close>

text \<open>A field that the package can read: present, and neither a list nor a map.\<close>

definition scalar_field ::
  "('m, 'fd, 'v) protoreflect \<Rightarrow> 'm \<Rightarrow> string \<Rightarrow> 'fd \<Rightarrow> kind \<Rightarrow> bool" where
  "scalar_field pr m f fd k \<longleftrightarrow>
     Fields_ByName pr m f = Some fd \<and> \<not> fd_IsList pr fd \<and> \<not> fd_IsMap pr fd \<and> fd_Kind pr fd = k"

lemma extract_scalar:
  assumes "scalar_field pr m f fd k"
  shows "extractFieldFromRequest pr (ProtoMessage m) f =
    (let v = msg_Get pr m fd
     in if k = StringKind then Inr (val_String pr v)
        else if k = BytesKind
        then Inr (if utf8_Valid (val_Bytes pr v) then val_Bytes pr v else hex_EncodeToString (val_Bytes pr v))
        else if k \<in> {Int32Kind, Sint32Kind, Sfixed32Kind, Int64Kind, Sint64Kind, Sfixed64Kind}
        then Inr (fmt_d (sint (val_Int pr v)))
        else if k \<in> {Uint32Kind, Uint64Kind, Fixed32Kind, Fixed64Kind}
        then Inr (fmt_d (uint (val_Uint pr v)))
        else if k = BoolKind then Inr (if val_Bool pr v then ''true'' else ''false'')
        else Inl (fmt_Errorf (''unsupported proto field kind '' @ kind_String pr k @ '' for '' @ f)))"
  using assms by (auto simp: scalar_field_def extractFieldFromRequest_def Let_def)

lemma sint_cong: "sint v = sint w \<longleftrightarrow> v = w"
  by (auto intro: signed_word_eqI)

lemma uint_cong: "uint v = uint w \<longleftrightarrow> v = w"
  by (auto intro: unsigned_word_eqI)

text \<open>
  Integer fields name resources without ambiguity: for each of the ten supported integer
  kinds, two messages yield the same text only if the field has the same 64-bit value, signed
  kinds being read as two's complement and unsigned ones as non-negative numbers.
\<close>

theorem extractField_integers_injective:
  assumes "scalar_field pr m f fd k" "scalar_field pr m' f fd k"
    and "k \<in> {Int32Kind, Sint32Kind, Sfixed32Kind, Int64Kind, Sint64Kind, Sfixed64Kind,
              Uint32Kind, Uint64Kind, Fixed32Kind, Fixed64Kind}"
  shows "extractFieldFromRequest pr (ProtoMessage m) f = extractFieldFromRequest pr (ProtoMessage m') f \<longleftrightarrow>
    (if k \<in> {Uint32Kind, Uint64Kind, Fixed32Kind, Fixed64Kind}
     then val_Uint pr (msg_Get pr m fd) = val_Uint pr (msg_Get pr m' fd)
     else val_Int pr (msg_Get pr m fd) = val_Int pr (msg_Get pr m' fd))"
  using assms(3)
  by (elim insertE emptyE)
    (simp_all add: extract_scalar [OF assms(1)] extract_scalar [OF assms(2)] Let_def inj_fmt_d
      sint_cong uint_cong)

theorem extractField_integers_injective_witness:
  "extractFieldFromRequest (flat_message Int64Kind) (ProtoMessage [(''n'', ''x'')]) ''n'' \<noteq>
   extractFieldFromRequest (flat_message Int64Kind) (ProtoMessage [(''n'', ''xy'')]) ''n''"
  by (subst extractField_integers_injective [of _ _ _ "''n''" Int64Kind])
    (simp_all add: scalar_field_def flat_message_def)

lemma utf8_Valid_hex: "utf8_Valid (hex_EncodeToString b)"
proof (rule utf8_Valid_ascii)
  have "ascii (hex_digit d)" if "d < 16" for d
    using hex_digit_range [OF that] by (auto simp: ascii_def byte_in_def)
  then show "list_all ascii (hex_EncodeToString b)"
    by (auto simp: hex_EncodeToString_def hex_byte_def list_all_iff)
qed

text \<open>
  Bytes fields are ambiguous in exactly one way: a value that is not UTF-8 yields the same
  text as the message that spells its hexadecimal form in ASCII. Otherwise different values
  yield different texts.
\<close>

theorem extractField_bytes_collisions:
  assumes "scalar_field pr m f fd BytesKind" "scalar_field pr m' f fd BytesKind"
  defines "a \<equiv> val_Bytes pr (msg_Get pr m fd)" and "b \<equiv> val_Bytes pr (msg_Get pr m' fd)"
  shows "extractFieldFromRequest pr (ProtoMessage m) f = extractFieldFromRequest pr (ProtoMessage m') f \<longleftrightarrow>
    a = b \<or> (\<not> utf8_Valid a \<and> b = hex_EncodeToString a) \<or> (\<not> utf8_Valid b \<and> a = hex_EncodeToString b)"
  by (auto simp: extract_scalar [OF assms(1)] extract_scalar [OF assms(2)] Let_def inj_hex_Encode
      utf8_Valid_hex a_def b_def)

theorem extractField_bytes_collisions_witness:
  "extractFieldFromRequest (flat_message BytesKind) (ProtoMessage [(''k'', [CHR 0xFF])]) ''k'' =
   extractFieldFromRequest (flat_message BytesKind) (ProtoMessage [(''k'', ''ff'')]) ''k''"
proof -
  have "utf8_runes [CHR 0xFF] = [(0xFFFD, [CHR 0xFF])]"
    by (simp add: utf8_runes.simps ascii_def byte_in_def)
  then have "\<not> utf8_Valid [CHR 0xFF]" by (simp add: utf8_Valid_def)
  moreover have "hex_digit 15 = CHR ''f''" by (simp add: hex_digit_def, rule char_of_byte, simp)
  then have "hex_EncodeToString [CHR 0xFF] = ''ff''"
    by (simp add: hex_EncodeToString_def hex_byte_def)
  ultimately show ?thesis
    by (subst extractField_bytes_collisions [of _ _ _ "''k''"])
      (simp_all add: scalar_field_def flat_message_def)
qed

section \<open>The interceptors\<close>

text \<open>With a coherent cache the interceptors act on the policy that the registry declares.\<close>

lemma getMethodPolicy_coherent:
  assumes "policy_cache_ok reg cache"
  obtains cache' where "getMethodPolicy reg cache name = (lookupMethodPolicy reg name, cache')"
    and "policy_cache_ok reg cache'"
  using po_memo.get_value [OF assms] po_memo.get_invar [OF assms] that by (metis prod.collapse)

text \<open>
  C10. For a method with a declared policy the unary interceptor fails closed: it calls the
  handler only when the template could be resolved, once, in a context that is marked and
  carries exactly the resolved resource and the declared action; when resolution fails it answers
  with \<open>codes.Internal\<close> and the handler does not run. The policy cache stays coherent.
\<close>

theorem po_Interceptor_enforces:
  assumes "policy_cache_ok reg cache" and "lookupMethodPolicy reg fm = (Some policy, None)"
  shows "\<exists>cache'. policy_cache_ok reg cache' \<and>
    (case resolveResourceFromRequest pr policy req of
       Inl e \<Rightarrow>
         po_Interceptor reg pr cache fm ctx req handler w =
           ((None, Some (status_Error codes_Internal (''resource resolved failed: '' @ err_msg e))), cache', w)
     | Inr resolved \<Rightarrow>
         \<exists>ctx'. PolicyFromContext ctx' = Some resolved \<and> InterceptorRanFromContext ctx' \<and>
           RequestIDFromContext ctx' = RequestIDFromContext ctx \<and> ctx_incoming ctx' = ctx_incoming ctx \<and>
           Action resolved = pb_Action policy \<and>
           po_Interceptor reg pr cache fm ctx req handler w =
             (fst (handler ctx' req w), cache', snd (handler ctx' req w)))"
proof -
  from assms(1) obtain cache' where get: "getMethodPolicy reg cache fm = (lookupMethodPolicy reg fm, cache')"
    and ok: "policy_cache_ok reg cache'" by (rule getMethodPolicy_coherent)
  show ?thesis
  proof (cases "resolveResourceFromRequest pr policy req")
    case (Inl e)
    then show ?thesis using ok get assms(2) by (auto simp: po_Interceptor_def Let_def)
  next
    case (Inr resolved)
    then have "Action resolved = pb_Action policy"
      by (auto simp: resolveResourceFromRequest_def split: if_splits sum.splits)
    moreover have "\<lparr>Resource = Resource resolved, Action = Action resolved\<rparr> = resolved" by simp
    ultimately show ?thesis
      using ok get assms(2) Inr
      by (intro exI [of _ cache'])
        (auto simp: po_Interceptor_def case_prod_beta Let_def ctx_simps intro!: exI
          [of _ "withPolicy (markInterceptorRan ctx) (Resource resolved) (Action resolved)"])
  qed
qed

text \<open>A registry with one service \<open>s\<close> whose method \<open>M\<close> declares a given policy, for examples.\<close>

definition example_registry :: "pb_Policy \<Rightarrow> registry" where
  "example_registry policy =
     [\<lparr>fd_Services = [\<lparr>svc_FullName = ''s'',
        svc_Methods = [\<lparr>md_Name = ''M'', md_Options = MethodOptions (Some (ExtPolicy policy))\<rparr>]\<rparr>]\<rparr>]"

lemma lookup_example: "lookupMethodPolicy (example_registry policy) ''/s/M'' = (Some policy, None)"
proof -
  have "parseFullMethodName ''/s/M'' = Inr \<lparr>Service = ''s'', Method = ''M''\<rparr>"
    using parse_slash [of "''M''" "''s''"] by simp
  then show ?thesis by (simp add: lookupMethodPolicy_def example_registry_def Methods_ByName_def)
qed

theorem po_Interceptor_enforces_witness:
  "\<exists>cache'. po_Interceptor
     (example_registry \<lparr>pb_Resource = [], pb_Action = ''read'', FieldMappings = []\<rparr>)
     (flat_message StringKind) Map.empty ''/s/M'' \<lparr>ctx_values = [], ctx_incoming = None\<rparr>
     (ProtoMessage []) (\<lambda>ctx req w. ((Some (), None), w + 1)) (0 :: nat) =
   ((None, Some (status_Error codes_Internal
       ''resource resolved failed: policy resource must not be empty'')), cache', 0)"
  using po_Interceptor_enforces [OF policy_cache_ok_empty lookup_example, where
      policy = "\<lparr>pb_Resource = [], pb_Action = ''read'', FieldMappings = []\<rparr>" and
      pr = "flat_message StringKind" and req = "ProtoMessage []" and
      ctx = "\<lparr>ctx_values = [], ctx_incoming = None\<rparr>" and
      handler = "\<lambda>ctx req w. ((Some (), None), w + 1)" and w = "0 :: nat"]
  by (auto simp: resolveResourceFromRequest_def)

text \<open>
  Methods without a policy pass: the unary and the stream interceptor call the handler once,
  in a context that is marked as having passed and otherwise holds the values it held before.
\<close>

theorem po_no_policy_passes:
  assumes "policy_cache_ok reg cache" and "lookupMethodPolicy reg fm = (None, None)"
  shows "\<exists>cache' ctx'. policy_cache_ok reg cache' \<and> InterceptorRanFromContext ctx' \<and>
    PolicyFromContext ctx' = PolicyFromContext (ss_Context ss) \<and>
    ctx_incoming ctx' = ctx_incoming (ss_Context ss) \<and>
    RequestIDFromContext ctx' = RequestIDFromContext (ss_Context ss) \<and>
    po_Interceptor reg pr cache fm (ss_Context ss) req handler w =
      (fst (handler ctx' req w), cache', snd (handler ctx' req w)) \<and>
    po_StreamInterceptor reg cache fm ss stream_handler w =
      (fst (stream_handler (ss\<lparr>ss_Context := ctx'\<rparr>) w), cache', snd (stream_handler (ss\<lparr>ss_Context := ctx'\<rparr>) w))"
proof -
  from assms(1) obtain cache' where get: "getMethodPolicy reg cache fm = (lookupMethodPolicy reg fm, cache')"
    and ok: "policy_cache_ok reg cache'" by (rule getMethodPolicy_coherent)
  then show ?thesis
    using assms(2)
    by (intro exI [of _ cache'] exI [of _ "markInterceptorRan (ss_Context ss)"])
      (simp add: po_Interceptor_def po_StreamInterceptor_def case_prod_beta Let_def ctx_simps)
qed

theorem po_no_policy_passes_witness:
  "\<exists>cache' ctx'. InterceptorRanFromContext ctx' \<and> PolicyFromContext ctx' = None \<and>
     po_Interceptor [] (flat_message StringKind) Map.empty ''/s/M'' \<lparr>ctx_values = [], ctx_incoming = None\<rparr>
       (ProtoMessage []) (\<lambda>ctx req w. ((Some (), None), w + 1)) (0 :: nat) = ((Some (), None), cache', 1)"
proof -
  have "lookupMethodPolicy [] ''/s/M'' = (None, None)"
    using parse_slash [of "''M''" "''s''"] by (simp add: lookupMethodPolicy_def)
  from po_no_policy_passes [OF policy_cache_ok_empty this, where pr = "flat_message StringKind" and
      req = "ProtoMessage []" and handler = "\<lambda>ctx req w. ((Some (), None), w + 1)" and w = "0 :: nat" and
      ss = "\<lparr>ss_Context = \<lparr>ctx_values = [], ctx_incoming = None\<rparr>,
             ss_RecvMsg = (\<lambda>w. (Inr (), w)), ss_SendMsg = (\<lambda>_ w. (None, w))\<rparr>" and
      stream_handler = "\<lambda>ss w. (None, w)"]
  show ?thesis by (auto simp: PolicyFromContext_def context_Value_def)
qed

text \<open>
  Streams: a declared policy with field mappings is refused with \<open>codes.Internal\<close> before the
  handler runs, and without mappings the handler runs once on a stream that differs from the
  given one only in its context, which is marked and carries the declared resource and action.
\<close>

theorem po_StreamInterceptor_static_only:
  assumes "policy_cache_ok reg cache" and "lookupMethodPolicy reg fm = (Some policy, None)"
  shows "\<exists>cache'. policy_cache_ok reg cache' \<and>
    (if hasFieldMappings policy
     then po_StreamInterceptor reg cache fm ss handler w = (Some fieldMappingsNotSupportedError, cache', w) \<and>
          err_status fieldMappingsNotSupportedError = Some codes_Internal
     else \<exists>ctx'. PolicyFromContext ctx' = Some \<lparr>Resource = pb_Resource policy, Action = pb_Action policy\<rparr> \<and>
          InterceptorRanFromContext ctx' \<and> ctx_incoming ctx' = ctx_incoming (ss_Context ss) \<and>
          RequestIDFromContext ctx' = RequestIDFromContext (ss_Context ss) \<and>
          po_StreamInterceptor reg cache fm ss handler w =
            (fst (handler (ss\<lparr>ss_Context := ctx'\<rparr>) w), cache', snd (handler (ss\<lparr>ss_Context := ctx'\<rparr>) w)))"
proof -
  from assms(1) obtain cache' where get: "getMethodPolicy reg cache fm = (lookupMethodPolicy reg fm, cache')"
    and ok: "policy_cache_ok reg cache'" by (rule getMethodPolicy_coherent)
  let ?ctx = "withPolicy (markInterceptorRan (ss_Context ss)) (pb_Resource policy) (pb_Action policy)"
  show ?thesis
  proof (cases "hasFieldMappings policy")
    case True
    then show ?thesis
      using ok get assms(2)
      by (auto simp: po_StreamInterceptor_def Let_def fieldMappingsNotSupportedError_def)
  next
    case False
    then have "po_StreamInterceptor reg cache fm ss handler w =
        (fst (handler (ss\<lparr>ss_Context := ?ctx\<rparr>) w), cache', snd (handler (ss\<lparr>ss_Context := ?ctx\<rparr>) w))"
      using get assms(2) by (simp add: po_StreamInterceptor_def case_prod_beta Let_def)
    with ok False show ?thesis
      by (intro exI [of _ cache']) (auto simp: ctx_simps intro!: exI [of _ ?ctx])
  qed
qed

theorem po_StreamInterceptor_static_only_witness:
  "\<exists>cache'. po_StreamInterceptor
     (example_registry \<lparr>pb_Resource = ''a/<b>'', pb_Action = ''read'',
        FieldMappings = [\<lparr>Placeholder = ''b'', RequestField = ''b''\<rparr>]\<rparr>)
     Map.empty ''/s/M''
     \<lparr>ss_Context = \<lparr>ctx_values = [], ctx_incoming = None\<rparr>,
      ss_RecvMsg = (\<lambda>w. (Inr (), w)), ss_SendMsg = (\<lambda>_ w. (None, w))\<rparr>
     (\<lambda>ss w. (None, w + 1)) (0 :: nat) = (Some fieldMappingsNotSupportedError, cache', 0)"
  using po_StreamInterceptor_static_only [OF policy_cache_ok_empty lookup_example, where
      policy = "\<lparr>pb_Resource = ''a/<b>'', pb_Action = ''read'',
        FieldMappings = [\<lparr>Placeholder = ''b'', RequestField = ''b''\<rparr>]\<rparr>" and
      ss = "\<lparr>ss_Context = \<lparr>ctx_values = [], ctx_incoming = None\<rparr>,
        ss_RecvMsg = (\<lambda>w. (Inr (), w)), ss_SendMsg = (\<lambda>_ w. (None, w))\<rparr>" and
      handler = "\<lambda>ss w. (None, w + 1)" and w = "0 :: nat"]
  by (auto simp: hasFieldMappings_def)

text \<open>
  The two interceptors differ on a malformed declaration: a policy with an empty resource is
  refused on a unary call, but on a stream it reaches the handler, and with it the verifier,
  as a policy with an empty resource.
\<close>

theorem po_stream_skips_empty_check:
  assumes "policy_cache_ok reg cache" and "lookupMethodPolicy reg fm = (Some policy, None)"
    and "pb_Resource policy = []" and "FieldMappings policy = []"
  shows "err_status (the (snd (fst (po_Interceptor reg pr cache fm (ss_Context ss) req handler w)))) =
      Some codes_Internal \<and>
    (\<exists>ctx'. PolicyFromContext ctx' = Some \<lparr>Resource = [], Action = pb_Action policy\<rparr> \<and>
       fst (po_StreamInterceptor reg cache fm ss stream_handler w) =
       fst (stream_handler (ss\<lparr>ss_Context := ctx'\<rparr>) w))"
proof -
  from assms(1) obtain cache' where get: "getMethodPolicy reg cache fm = (lookupMethodPolicy reg fm, cache')"
    by (rule getMethodPolicy_coherent)
  let ?ctx = "withPolicy (markInterceptorRan (ss_Context ss)) [] (pb_Action policy)"
  have "fst (po_StreamInterceptor reg cache fm ss stream_handler w) =
      fst (stream_handler (ss\<lparr>ss_Context := ?ctx\<rparr>) w)"
    using get assms(2-4)
    by (simp add: po_StreamInterceptor_def hasFieldMappings_def case_prod_beta Let_def)
  moreover have "PolicyFromContext ?ctx = Some \<lparr>Resource = [], Action = pb_Action policy\<rparr>"
    by (simp add: ctx_simps)
  ultimately show ?thesis
    using get assms(2,3)
    by (auto simp: po_Interceptor_def resolveResourceFromRequest_def Let_def)
qed

theorem po_stream_skips_empty_check_witness:
  "\<exists>ctx'. PolicyFromContext ctx' = Some \<lparr>Resource = [], Action = ''watch''\<rparr> \<and>
     fst (po_StreamInterceptor
       (example_registry \<lparr>pb_Resource = [], pb_Action = ''watch'', FieldMappings = []\<rparr>) Map.empty ''/s/M''
       \<lparr>ss_Context = \<lparr>ctx_values = [], ctx_incoming = None\<rparr>,
        ss_RecvMsg = (\<lambda>w. (Inr (), w)), ss_SendMsg = (\<lambda>_ w. (None, w))\<rparr>
       (\<lambda>ss w. (None, w)) ()) = None"
  using po_stream_skips_empty_check [OF policy_cache_ok_empty lookup_example, where
      policy = "\<lparr>pb_Resource = [], pb_Action = ''watch'', FieldMappings = []\<rparr>" and
      pr = "flat_message StringKind" and req = "ProtoMessage []" and
      handler = "\<lambda>ctx req w. ((Some (), None), w)" and
      ss = "\<lparr>ss_Context = \<lparr>ctx_values = [], ctx_incoming = None\<rparr>,
        ss_RecvMsg = (\<lambda>w. (Inr (), w)), ss_SendMsg = (\<lambda>_ w. (None, w))\<rparr>" and
      stream_handler = "\<lambda>ss w. (None, w)" and w = "()"]
  by auto

end
