(* ===== verification/Verifier_Endpoint.thy ===== *)
theory Verifier_Endpoint
  imports Request_Tracking
begin

text \<open>
  The contract of \<open>endpoint.VerifierEndpoint\<close>, the token lookup every endpoint starts with, the
  endpoint with static rules (\<open>endpoint/static.go\<close>), and the test doubles of \<open>endpointtest/mock.go\<close>.
  The contract is a hierarchy of locales; each endpoint of the repository is an interpretation in
  the theory that defines it, and the interceptor's lemmas are proved from the contract alone.
\<close>

section \<open>The token of a call\<close>

record token =
  tok_TokenType :: string
  tok_Value :: string

definition getToken :: "go_ctx \<Rightarrow> string + token" where
  "getToken ctx =
     (case ctx_incoming ctx of
        None \<Rightarrow> Inl ''no metadata found in context''
      | Some md \<Rightarrow>
          (case md ''authorization'' of
             [] \<Rightarrow> Inl ''no authorization header found''
           | value # _ \<Rightarrow>
               (case strings_Fields value of
                  t # v # _ \<Rightarrow> Inr \<lparr>tok_TokenType = t, tok_Value = v\<rparr>
                | _ \<Rightarrow> Inl ''invalid authorization header format'')))"

definition no_token_error :: "string \<Rightarrow> go_error" where
  "no_token_error err =
     status_Error codes_Unauthenticated (''failed to get authorization token: '' @ err)"

lemma getToken_incoming: "ctx_incoming ctx = ctx_incoming ctx' \<Longrightarrow> getToken ctx = getToken ctx'"
  by (simp add: getToken_def)

lemma getToken_WithValue [ctx_simps]: "getToken (context_WithValue ctx k v) = getToken ctx"
  by (simp add: getToken_def ctx_simps)

lemma getToken_pair:
  assumes "ctx_incoming ctx = Some md" and "md ''authorization'' = (t @ '' '' @ v) # vs"
    and "no_space t" "t \<noteq> []" "no_space v" "v \<noteq> []"
  shows "getToken ctx = Inr \<lparr>tok_TokenType = t, tok_Value = v\<rparr>"
  using assms by (simp add: getToken_def Fields_pair)

lemma no_space_Bearer: "no_space ''Bearer''"
  by (rule no_space_ascii) (simp add: ascii_def byte_in_def unicode_IsSpace_def)

section \<open>The contract\<close>

text \<open>
  A verifier answers with \<open>nil\<close> or with an error whose gRPC code is one of three. A verifier
  that authenticates refuses a call without a usable token before it does anything else.
\<close>

definition verdict_code :: "code \<Rightarrow> bool" where
  "verdict_code c \<longleftrightarrow> c = codes_Unauthenticated \<or> c = codes_PermissionDenied \<or> c = codes_Internal"

definition verdict_error :: "go_error \<Rightarrow> bool" where
  "verdict_error e \<longleftrightarrow> (case err_status e of None \<Rightarrow> False | Some c \<Rightarrow> verdict_code c)"

lemma verdict_error_status [simp]: "verdict_error (status_Error c m) \<longleftrightarrow> verdict_code c"
  by (simp add: verdict_error_def)

lemma verdict_codes [simp]:
  "verdict_code codes_Unauthenticated" "verdict_code codes_PermissionDenied"
  "verdict_code codes_Internal"
  by (simp_all add: verdict_code_def)

locale verifier =
  fixes verify :: "'w verifier"
  assumes verdict: "fst (verify ctx resource action w) = Some e \<Longrightarrow> verdict_error e"
begin

lemma never_plain_error: "fst (verify ctx resource action w) = Some e \<Longrightarrow> err_status e \<noteq> None"
  using verdict [of ctx resource action w e] by (auto simp: verdict_error_def split: option.splits)

end

locale authenticating_verifier = verifier +
  assumes no_token:
    "getToken ctx = Inl err \<Longrightarrow> verify ctx resource action w = (Some (no_token_error err), w)"
begin

lemma allowed_has_token:
  "fst (verify ctx resource action w) = None \<Longrightarrow> \<exists>tok. getToken ctx = Inr tok"
  using no_token by (cases "getToken ctx") auto

end

text \<open>A local verifier decides from its arguments alone and leaves the world as it is.\<close>

locale local_verifier = verifier +
  fixes decide :: "go_ctx \<Rightarrow> string \<Rightarrow> string \<Rightarrow> go_error option"
  assumes local: "verify ctx resource action w = (decide ctx resource action, w)"
begin

lemma stable: "fst (verify ctx resource action w) = fst (verify ctx resource action w')"
  by (simp add: local)

end

section \<open>Static rules\<close>

record StaticRule =
  rule_Resource :: string
  rule_Action :: string

record staticEndpoint =
  rules :: "StaticRule list"

definition NewStaticEndpoint :: "StaticRule list \<Rightarrow> staticEndpoint" where
  "NewStaticEndpoint rs = \<lparr>rules = rs\<rparr>"

definition matchPattern :: "string \<Rightarrow> string \<Rightarrow> bool" where
  "matchPattern pattern v =
     (if pattern = ''*'' then True
      else if strings_HasSuffix pattern ''*''
      then strings_HasPrefix v (strings_TrimSuffix pattern ''*'')
      else pattern = v)"

fun static_rules_allow :: "StaticRule list \<Rightarrow> string \<Rightarrow> string \<Rightarrow> bool" where
  "static_rules_allow [] resource action = False"
| "static_rules_allow (r # rs) resource action =
     (if matchPattern (rule_Resource r) resource \<and> matchPattern (rule_Action r) action then True
      else static_rules_allow rs resource action)"

definition static_Verify :: "staticEndpoint \<Rightarrow> 'w verifier" where
  "static_Verify e ctx resource action w =
     (case getToken ctx of
        Inl err \<Rightarrow> (Some (no_token_error err), w)
      | Inr _ \<Rightarrow>
          (if static_rules_allow (rules e) resource action then (None, w)
           else (Some (status_Error codes_PermissionDenied ''access denied''), w)))"

lemma static_rules_allow_iff:
  "static_rules_allow rs resource action \<longleftrightarrow>
     list_ex (\<lambda>r. matchPattern (rule_Resource r) resource \<and> matchPattern (rule_Action r) action) rs"
  by (induction rs) auto

text \<open>What a pattern denotes: with a final star the strings that start with what precedes it.\<close>

definition pattern_denotes :: "string \<Rightarrow> string set" where
  "pattern_denotes p =
     (if p \<noteq> [] \<and> last p = CHR ''*'' then {butlast p @ t | t. True} else {p})"

lemma matchPattern_denotes: "matchPattern p v \<longleftrightarrow> v \<in> pattern_denotes p"
proof (cases "p \<noteq> [] \<and> last p = CHR ''*''")
  case True
  then obtain q where "p = q @ ''*''" by (metis append_butlast_last_id)
  then show ?thesis
    by (auto simp: matchPattern_def pattern_denotes_def HasSuffix_iff HasPrefix_iff)
next
  case False
  then have "\<not> strings_HasSuffix p ''*''" by (auto simp: HasSuffix_iff)
  with False show ?thesis by (auto simp: matchPattern_def pattern_denotes_def)
qed

interpretation static: authenticating_verifier "static_Verify e" for e
  by unfold_locales (auto simp: static_Verify_def no_token_error_def split: sum.splits if_splits)

interpretation static_local: local_verifier "static_Verify e"
    "\<lambda>ctx resource action. fst (static_Verify e ctx resource action ())" for e
  by unfold_locales (auto simp: static_Verify_def split: sum.splits)

section \<open>Test doubles\<close>

definition mock_Verify :: "'w verifier \<Rightarrow> 'w verifier" where
  "mock_Verify fn = fn"

definition Allow :: "'w verifier" where
  "Allow = mock_Verify (\<lambda>_ _ _ w. (None, w))"

definition Deny :: "'w verifier" where
  "Deny = mock_Verify (\<lambda>_ _ _ w. (Some (status_Error codes_PermissionDenied ''access denied''), w))"

definition Func :: "'w verifier \<Rightarrow> 'w verifier" where
  "Func fn = mock_Verify fn"

text \<open>
  The context helpers call \<open>metadata.Join\<close>, \<open>metadata.Pairs\<close> and \<open>metadata.NewIncomingContext\<close> of
  gRPC; joining two sets of metadata is the argument \<open>join\<close>. A context without metadata yields
  a \<open>nil\<close> map, which has no values.
\<close>

definition metadata_of :: "go_ctx \<Rightarrow> metadata" where
  "metadata_of ctx = (case ctx_incoming ctx of None \<Rightarrow> (\<lambda>_. []) | Some md \<Rightarrow> md)"

definition CtxWithBearerToken :: "(metadata \<Rightarrow> metadata \<Rightarrow> metadata) \<Rightarrow> go_ctx \<Rightarrow> string \<Rightarrow> go_ctx" where
  "CtxWithBearerToken join ctx tok =
     ctx\<lparr>ctx_incoming := Some (join (metadata_of ctx)
           ((\<lambda>_. [])(''authorization'' := [''Bearer '' @ tok])))\<rparr>"

definition CtxWithRequestID :: "(metadata \<Rightarrow> metadata \<Rightarrow> metadata) \<Rightarrow> go_ctx \<Rightarrow> string \<Rightarrow> go_ctx" where
  "CtxWithRequestID join ctx i =
     ctx\<lparr>ctx_incoming := Some (join (metadata_of ctx)
           ((\<lambda>_. [])(''x-request-id'' := [i])))\<rparr>"

text \<open>
  \<open>AssertGRPCCode\<close> reports to the test through \<open>Fatalf\<close>, which also ends the test, or \<open>Errorf\<close>; the result
  is the report made, if any, with the values it prints.
\<close>

datatype test_report =
    Fatalf_nil code
  | Fatalf_not_status go_error
  | Errorf_code code code

definition AssertGRPCCode :: "go_error option \<Rightarrow> code \<Rightarrow> test_report option" where
  "AssertGRPCCode err wantCode =
     (case err of
        None \<Rightarrow> Some (Fatalf_nil wantCode)
      | Some e \<Rightarrow>
          (case err_status e of
             None \<Rightarrow> Some (Fatalf_not_status e)
           | Some c \<Rightarrow> if c \<noteq> wantCode then Some (Errorf_code c wantCode) else None))"

interpretation allow: local_verifier Allow "\<lambda>_ _ _. None"
  by unfold_locales (simp_all add: Allow_def mock_Verify_def)

interpretation deny: local_verifier Deny
    "\<lambda>_ _ _. Some (status_Error codes_PermissionDenied ''access denied'')"
  by unfold_locales (auto simp: Deny_def mock_Verify_def)

section \<open>Properties\<close>

text \<open>
  C17. The static endpoint allows a call exactly when the call carries a token and some rule's
  resource pattern and action pattern both denote what is asked for; a pattern with a final star
  denotes every string that starts with what precedes the star, any other pattern only itself. The
  order of the rules and repetitions among them do not matter, and no call changes the world.
\<close>

theorem static_Verify_iff:
  "(fst (static_Verify (NewStaticEndpoint rs) ctx resource action w) = None \<longleftrightarrow>
      (\<exists>tok. getToken ctx = Inr tok) \<and>
      (\<exists>r. r \<in> set rs \<and> resource \<in> pattern_denotes (rule_Resource r) \<and>
           action \<in> pattern_denotes (rule_Action r))) \<and>
   snd (static_Verify (NewStaticEndpoint rs) ctx resource action w) = w"
  by (auto simp: static_Verify_def NewStaticEndpoint_def static_rules_allow_iff list_ex_iff
      matchPattern_denotes split: sum.split)

text \<open>
  \<open>AssertGRPCCode\<close> is silent exactly on errors that carry the expected code: a missing error, an
  error without a status and another code are all reported, for every expected code, \<open>codes.OK\<close> included.
\<close>

lemma AssertGRPCCode_silent_iff:
  "AssertGRPCCode err want = None \<longleftrightarrow> (\<exists>e. err = Some e \<and> err_status e = Some want)"
  by (simp add: AssertGRPCCode_def split: option.split)

text \<open>
  The verdict a test expects of the doubles and of the static endpoint passes the assertion: \<open>Deny\<close> and
  a static endpoint without a matching rule answer \<open>PermissionDenied\<close>.
\<close>

lemma AssertGRPCCode_denied:
  "AssertGRPCCode (fst (Deny ctx resource action w)) codes_PermissionDenied = None"
  "getToken ctx = Inr tok \<Longrightarrow> \<not> static_rules_allow (rules e) resource action \<Longrightarrow>
   AssertGRPCCode (fst (static_Verify e ctx resource action w)) codes_PermissionDenied = None"
  by (simp_all add: AssertGRPCCode_silent_iff Deny_def mock_Verify_def static_Verify_def)

text \<open>
  A context prepared by \<open>CtxWithBearerToken\<close> carries the token to every endpoint, the value
  after the scheme exactly as given, when the context had no authorization metadata; if it already had
  some, the endpoints keep seeing the old token, because \<open>metadata.Join\<close> appends.
\<close>

theorem CtxWithBearerToken_getToken:
  assumes join: "\<And>a b k. join a b k = a k @ b k"
    and tok: "no_space tok" "tok \<noteq> []"
  shows "getToken (CtxWithBearerToken join ctx tok) =
         (if metadata_of ctx ''authorization'' = []
          then Inr \<lparr>tok_TokenType = ''Bearer'', tok_Value = tok\<rparr>
          else getToken ctx)"
proof (cases "metadata_of ctx ''authorization''")
  case Nil
  with tok getToken_pair [of _ _ "''Bearer''" tok "[]"] no_space_Bearer show ?thesis
    by (simp add: CtxWithBearerToken_def join)
next
  case (Cons x xs)
  then show ?thesis
    by (cases "ctx_incoming ctx")
      (simp_all add: getToken_def CtxWithBearerToken_def join metadata_of_def)
qed

theorem CtxWithBearerToken_getToken_witness:
  "getToken (CtxWithBearerToken (\<lambda>a b k. a k @ b k) \<lparr>ctx_values = [], ctx_incoming = None\<rparr> ''abc'') =
     Inr \<lparr>tok_TokenType = ''Bearer'', tok_Value = ''abc''\<rparr>"
proof -
  have "no_space ''abc''"
    by (rule no_space_ascii) (simp add: ascii_def byte_in_def unicode_IsSpace_def)
  then show ?thesis
    using CtxWithBearerToken_getToken [of "\<lambda>a b k. a k @ b k" "''abc''"
        "\<lparr>ctx_values = [], ctx_incoming = None\<rparr>"]
    by (simp add: metadata_of_def)
qed

end
