(* ===== verification/REST_Endpoint.thy ===== *)
theory REST_Endpoint
  imports Verifier_Endpoint
begin

text \<open>
  \<open>endpoint/rest_policy_verifier.go\<close>: the endpoint that asks a REST authorization service and takes
  its HTTP status as the answer. The HTTP client and the texts of library errors are the arguments of
  type \<open>net\<close> and \<open>url_env\<close>.
\<close>

section \<open>Configuration\<close>

definition defaultMaxResponseBodySize :: int where
  "defaultMaxResponseBodySize = 1024 * 1024"

definition defaultTimeout :: int where
  "defaultTimeout = 10 * 10 ^ 9"

record buildConfig =
  bc_timeout :: int
  bc_maxResponseBodySize :: int
  bc_logger :: int
  bc_requestIDHeaderKey :: string
  bc_requestIDFunc :: "(go_ctx \<Rightarrow> string) option"

type_synonym rest_Option = "buildConfig \<Rightarrow> buildConfig"

definition rest_WithTimeout :: "int \<Rightarrow> rest_Option outcome" where
  "rest_WithTimeout d =
     (if d \<le> 0 then Panic (''timeout must be positive, got '' @ duration_String d)
      else Return (\<lambda>c. c\<lparr>bc_timeout := d\<rparr>))"

definition rest_WithMaxResponseBodySize :: "int \<Rightarrow> rest_Option outcome" where
  "rest_WithMaxResponseBodySize sz =
     (if sz \<le> 0 then Panic (''maxResponseBodySize must be positive, got '' @ fmt_d sz)
      else Return (\<lambda>c. c\<lparr>bc_maxResponseBodySize := sz\<rparr>))"

definition rest_WithLogLevel :: "int \<Rightarrow> rest_Option" where
  "rest_WithLogLevel level = (\<lambda>c. c\<lparr>bc_logger := level\<rparr>)"

definition rest_WithRequestIDHeaderKey :: "string \<Rightarrow> rest_Option" where
  "rest_WithRequestIDHeaderKey key = (\<lambda>c. c\<lparr>bc_requestIDHeaderKey := key\<rparr>)"

definition rest_WithRequestIDFunc :: "(go_ctx \<Rightarrow> string) option \<Rightarrow> rest_Option" where
  "rest_WithRequestIDFunc fn = (\<lambda>c. c\<lparr>bc_requestIDFunc := fn\<rparr>)"

record restPolicyVerifierEndpoint =
  rest_httpClient :: int
  rest_verifyURL :: string
  rest_maxResponseBodySize :: int
  rest_logger :: int
  rest_requestIDHeaderKey :: string
  rest_requestIDFunc :: "(go_ctx \<Rightarrow> string) option"

definition rest_default :: buildConfig where
  "rest_default =
     \<lparr>bc_timeout = defaultTimeout, bc_maxResponseBodySize = defaultMaxResponseBodySize,
      bc_logger = LevelError, bc_requestIDHeaderKey = ''x-request-id'', bc_requestIDFunc = None\<rparr>"

definition NewRESTEndpoint ::
  "'z url_env_scheme \<Rightarrow> string \<Rightarrow> rest_Option list \<Rightarrow> go_error + restPolicyVerifierEndpoint" where
  "NewRESTEndpoint L baseURL opts =
     (let rawBase = strings_TrimSpace baseURL
      in if rawBase = [] then Inl (fmt_Errorf ''baseURL must not be empty'')
         else case parse_base L (complete_scheme ''http://'' rawBase) of
             Inl err \<Rightarrow> Inl (fmt_Errorf (''invalid authorization base url: '' @ err))
           | Inr base \<Rightarrow>
               (let base = base\<lparr>url_Path := strings_TrimSuffix (url_Path base) ''/'' @ ''/verify''\<rparr>;
                    cfg = apply_opts opts rest_default
                in Inr \<lparr>rest_httpClient = bc_timeout cfg,
                        rest_verifyURL = url_String base,
                        rest_maxResponseBodySize = bc_maxResponseBodySize cfg,
                        rest_logger = bc_logger cfg,
                        rest_requestIDHeaderKey = bc_requestIDHeaderKey cfg,
                        rest_requestIDFunc = bc_requestIDFunc cfg\<rparr>))"

text \<open>
  The URL of an endpoint, parsed again: \<open>/verify\<close> appended to the path of the base URL, the rest of the
  base URL unchanged.
\<close>

lemma NewRESTEndpoint_url:
  assumes "NewRESTEndpoint L baseURL opts = Inr e" "CHR ''['' \<notin> set baseURL"
  shows "\<exists>u v. parse_base L (complete_scheme ''http://'' (strings_TrimSpace baseURL)) = Inr u \<and>
    parse_base L (rest_verifyURL e) = Inr v \<and>
    url_Path v = strings_TrimSuffix (url_Path u) ''/'' @ ''/verify'' \<and>
    url_Scheme v = url_Scheme u \<and> url_Host v = url_Host u \<and> url_RawQuery v = url_RawQuery u \<and>
    url_Fragment v = url_Fragment u"
proof -
  from assms(1) obtain u where u: "parse_base L (complete_scheme ''http://'' (strings_TrimSpace baseURL)) = Inr u"
    "rest_verifyURL e = url_String (u\<lparr>url_Path := strings_TrimSuffix (url_Path u) ''/'' @ ''/verify''\<rparr>)"
    by (auto simp: NewRESTEndpoint_def Let_def split: if_splits sum.splits)
  moreover have "CHR ''['' \<notin> set (strings_TrimSpace baseURL)" using assms(2) set_TrimSpace by auto
  ultimately show ?thesis using parse_base_with_path [OF u(1), of _ "''verify''"] by simp
qed

section \<open>Verify\<close>

text \<open>
  \<open>json.Marshal\<close> of a \<open>map[string]string\<close> writes the keys in sorted order and cannot fail, so the
  branch for its error is dead. Header lookup by the server is not case sensitive, which
  \<open>Header.Set\<close> expresses by its canonical names.
\<close>

definition rest_body :: "string \<Rightarrow> string \<Rightarrow> string" where
  "rest_body resource action = json_Marshal (BObj [(''action'', BStr action), (''resource'', BStr resource)])"

definition rest_headers :: "restPolicyVerifierEndpoint \<Rightarrow> go_ctx \<Rightarrow> token \<Rightarrow> header \<Rightarrow> header" where
  "rest_headers e ctx tok h =
     (let h = Header_Set h ''Content-Type'' ''application/json'';
          h = Header_Set h ''Accept'' ''application/json'';
          h = Header_Set h ''Authorization'' (tok_TokenType tok @ '' '' @ tok_Value tok)
      in forward_request_id (rest_requestIDHeaderKey e) (rest_requestIDFunc e) ctx h)"

definition rest_evaluate :: "http_response \<Rightarrow> go_error option" where
  "rest_evaluate resp =
     (if 200 \<le> StatusCode resp \<and> StatusCode resp < 300 then None
      else if StatusCode resp = 403
      then Some (status_Error codes_PermissionDenied ''access denied'')
      else if StatusCode resp = 401
      then Some (status_Error codes_Unauthenticated ''invalid or expired token'')
      else Some (status_Error codes_Internal
                   (''authorization service error: '' @ fmt_d (StatusCode resp))))"

definition rest_Verify :: "'w net \<Rightarrow> restPolicyVerifierEndpoint \<Rightarrow> 'w verifier" where
  "rest_Verify n e ctx resource action w =
     (case getToken ctx of
        Inl err \<Rightarrow> (Some (no_token_error err), w)
      | Inr tok \<Rightarrow>
          (case http_NewRequest n (rest_verifyURL e) (rest_body resource action) of
             Inl err \<Rightarrow> (Some (status_Error codes_Internal (''failed to create request: '' @ err)), w)
           | Inr req \<Rightarrow>
               (case http_Do n (rest_httpClient e) ctx
                       (req\<lparr>req_header := rest_headers e ctx tok (req_header req)\<rparr>) w of
                  (Inl err, w') \<Rightarrow>
                    (Some (status_Error codes_Internal (''request failed: '' @ err)), w')
                | (Inr resp, w') \<Rightarrow> (rest_evaluate resp, w'))))"

interpretation rest: authenticating_verifier "rest_Verify n e" for n e
  by unfold_locales
    (auto simp: rest_Verify_def rest_evaluate_def no_token_error_def
      split: sum.splits prod.splits if_splits)

section \<open>Properties\<close>

text \<open>The one request a verification sends.\<close>

definition rest_request ::
  "restPolicyVerifierEndpoint \<Rightarrow> go_ctx \<Rightarrow> token \<Rightarrow> string \<Rightarrow> string \<Rightarrow> http_request" where
  "rest_request e ctx tok resource action =
     \<lparr>req_method = ''POST'', req_url = rest_verifyURL e,
      req_header = rest_headers e ctx tok Map.empty, req_body = rest_body resource action\<rparr>"

lemma rest_Verify_unfold:
  assumes "getToken ctx = Inr tok" and "http_url_error n (rest_verifyURL e) = None"
  shows "rest_Verify n e ctx resource action w =
           (case http_Do n (rest_httpClient e) ctx (rest_request e ctx tok resource action) w of
              (Inl err, w') \<Rightarrow> (Some (status_Error codes_Internal (''request failed: '' @ err)), w')
            | (Inr resp, w') \<Rightarrow> (rest_evaluate resp, w'))"
  using assms by (simp add: rest_Verify_def http_NewRequest_def rest_request_def)

lemma canonical_headers [simp]:
  "CanonicalHeaderKey ''Content-Type'' = ''Content-Type''"
  "CanonicalHeaderKey ''Accept'' = ''Accept''"
  "CanonicalHeaderKey ''Authorization'' = ''Authorization''"
  "CanonicalHeaderKey ''x-request-id'' = ''X-Request-Id''"
  by code_simp+

text \<open>
  C16. The REST endpoint allows a call exactly when the call has a token, the service's URL is
  usable, and the one POST request it sends is answered with a status from 200 to 299. The world
  is then the one the answer left behind.
\<close>

theorem rest_Verify_allows_iff:
  "rest_Verify n e ctx resource action w = (None, w') \<longleftrightarrow>
     (\<exists>tok resp. getToken ctx = Inr tok \<and> http_url_error n (rest_verifyURL e) = None \<and>
        http_Do n (rest_httpClient e) ctx (rest_request e ctx tok resource action) w = (Inr resp, w') \<and>
        is_2xx (StatusCode resp))"
proof (cases "getToken ctx")
  case (Inr tok)
  show ?thesis
  proof (cases "http_url_error n (rest_verifyURL e)")
    case None
    with Inr show ?thesis
      by (auto simp: rest_Verify_unfold rest_evaluate_def is_2xx_def
          split: sum.splits prod.splits)
  qed (use Inr in \<open>simp add: rest_Verify_def http_NewRequest_def\<close>)
qed (simp add: rest_Verify_def)

text \<open>
  What the authorization service receives: the JSON object with the action and the resource
  and nothing else, the caller's token type and token in the Authorization header, and the
  request identifier under the configured key. The two strings arrive unchanged when they are
  UTF-8, and a decoder can tell any two of them apart.
\<close>

theorem rest_request_content:
  assumes "utf8_Valid resource" "utf8_Valid action"
    and "CanonicalHeaderKey (rest_requestIDHeaderKey e)
           \<notin> {''Authorization'', ''Content-Type'', ''Accept''}"
  shows "json_parse (req_body (rest_request e ctx tok resource action)) =
           Some (JObj [(''action'', JStr action), (''resource'', JStr resource)]) \<and>
         req_header (rest_request e ctx tok resource action) ''Authorization'' =
           Some (tok_TokenType tok @ '' '' @ tok_Value tok) \<and>
         req_header (rest_request e ctx tok resource action) ''Content-Type'' =
           Some ''application/json'' \<and>
         (\<forall>f. rest_requestIDFunc e = Some f \<and> rest_requestIDHeaderKey e \<noteq> [] \<and> f ctx \<noteq> [] \<longrightarrow>
            req_header (rest_request e ctx tok resource action)
              (CanonicalHeaderKey (rest_requestIDHeaderKey e)) = Some (f ctx))"
proof -
  have "json_parse (rest_body resource action) =
          Some (JObj [(''action'', JStr action), (''resource'', JStr resource)])"
    using assms(1,2)
    by (simp add: rest_body_def json_parse_Marshal maxNestingDepth_def coerce_utf8_valid)
  then show ?thesis
    using assms(3)
    by (auto simp: rest_request_def rest_headers_def forward_request_id_other
        forward_request_id_self Header_Set_def)
qed

theorem rest_request_content_witness:
  "json_parse (req_body (rest_request
       \<lparr>rest_httpClient = defaultTimeout, rest_verifyURL = ''http://authz/verify'',
        rest_maxResponseBodySize = defaultMaxResponseBodySize, rest_logger = LevelError,
        rest_requestIDHeaderKey = ''x-request-id'', rest_requestIDFunc = Some (\<lambda>_. ''r1'')\<rparr>
       \<lparr>ctx_values = [], ctx_incoming = None\<rparr> \<lparr>tok_TokenType = ''Bearer'', tok_Value = ''t''\<rparr>
       ''posts/1'' ''read'')) =
     Some (JObj [(''action'', JStr ''read''), (''resource'', JStr ''posts/1'')])"
proof -
  have "utf8_Valid ''posts/1''" "utf8_Valid ''read''"
    by (rule utf8_Valid_ascii; simp add: ascii_def byte_in_def)+
  then show ?thesis
    using rest_request_content [of "''posts/1''" "''read''"
        "\<lparr>rest_httpClient = defaultTimeout, rest_verifyURL = ''http://authz/verify'',
          rest_maxResponseBodySize = defaultMaxResponseBodySize, rest_logger = LevelError,
          rest_requestIDHeaderKey = ''x-request-id'', rest_requestIDFunc = Some (\<lambda>_. ''r1'')\<rparr>"]
    by simp
qed

text \<open>
  Nothing the authorization service writes into a response body reaches the caller or the
  decision: replacing every body by any other one changes no result of the REST endpoint.
\<close>

theorem rest_Verify_ignores_body: "rest_Verify (replace_body f n) e = rest_Verify n e"
proof -
  have "rest_evaluate (resp\<lparr>Body := b\<rparr>) = rest_evaluate resp" for resp b
    by (simp add: rest_evaluate_def)
  then show ?thesis
    by (auto simp: fun_eq_iff rest_Verify_def replace_body_def http_NewRequest_def map_prod_def
        split: sum.splits prod.splits)
qed

lemma parse_base_example:
  "parse_base L ''http://HTTPS://pdp'' =
     Inr (new_URL\<lparr>url_Scheme := ''http'', url_Host := ''HTTPS:'', url_Path := ''//pdp''\<rparr>)"
proof -
  have "url_parts ''HTTPS:'' ''//pdp'' False []" by (simp add: url_parts_def)
  from parse_http [OF _ this, of "''http''" "url_literal L"] show ?thesis
    by (simp add: parse_base_def url_Parse_def cut_at_def print_query_def ctl_byte_def url_front_def new_URL_def
        parseAuthority_def parseHost_def cut_last_def validOptionalPort_def setPath_def char_refused_def
        shouldEscape_def url_alnum_def byte_in_def url_escape_def escape_char_def)
qed

end
