(* ===== verification/OPA_Endpoint.thy ===== *)
theory OPA_Endpoint
  imports REST_Endpoint
begin

text \<open>
  \<open>endpoint/rest_opa.go\<close>: the endpoint that evaluates a policy of an Open Policy Agent server through
  its data API and takes the boolean \<open>result\<close> of the answer as the decision.
\<close>

section \<open>Configuration\<close>

record opaBuildConfig =
  opac_timeout :: int
  opac_maxResponseBodySize :: int
  opac_logger :: int
  opac_requestIDHeaderKey :: string
  opac_requestIDFunc :: "(go_ctx \<Rightarrow> string) option"

type_synonym OPAOption = "opaBuildConfig \<Rightarrow> opaBuildConfig"

definition WithOPATimeout :: "int \<Rightarrow> OPAOption outcome" where
  "WithOPATimeout d =
     (if d \<le> 0 then Panic (''timeout must be positive, got '' @ duration_String d)
      else Return (\<lambda>c. c\<lparr>opac_timeout := d\<rparr>))"

definition WithOPAMaxResponseBodySize :: "int \<Rightarrow> OPAOption outcome" where
  "WithOPAMaxResponseBodySize sz =
     (if sz \<le> 0 then Panic (''maxResponseBodySize must be positive, got '' @ fmt_d sz)
      else Return (\<lambda>c. c\<lparr>opac_maxResponseBodySize := sz\<rparr>))"

definition WithOPALogLevel :: "int \<Rightarrow> OPAOption" where
  "WithOPALogLevel level = (\<lambda>c. c\<lparr>opac_logger := level\<rparr>)"

definition WithOPARequestIDHeaderKey :: "string \<Rightarrow> OPAOption" where
  "WithOPARequestIDHeaderKey key = (\<lambda>c. c\<lparr>opac_requestIDHeaderKey := key\<rparr>)"

definition WithOPARequestIDFunc :: "(go_ctx \<Rightarrow> string) option \<Rightarrow> OPAOption" where
  "WithOPARequestIDFunc fn = (\<lambda>c. c\<lparr>opac_requestIDFunc := fn\<rparr>)"

record restOPAEndpoint =
  opa_httpClient :: int
  opa_evaluateURL :: string
  opa_maxResponseBodySize :: int
  opa_logger :: int
  opa_requestIDHeaderKey :: string
  opa_requestIDFunc :: "(go_ctx \<Rightarrow> string) option"

definition opa_default :: opaBuildConfig where
  "opa_default =
     \<lparr>opac_timeout = defaultTimeout, opac_maxResponseBodySize = defaultMaxResponseBodySize,
      opac_logger = LevelError, opac_requestIDHeaderKey = ''x-request-id'',
      opac_requestIDFunc = None\<rparr>"

definition NewOPAEndpoint ::
  "'z url_env_scheme \<Rightarrow> string \<Rightarrow> string \<Rightarrow> OPAOption list \<Rightarrow> go_error + restOPAEndpoint" where
  "NewOPAEndpoint L baseURL policyPath opts =
     (let rawBase = strings_TrimSpace baseURL; rawPath = strings_TrimSpace policyPath
      in if rawBase = [] then Inl (fmt_Errorf ''baseURL must not be empty'')
         else if rawPath = [] then Inl (fmt_Errorf ''policyPath must not be empty'')
         else case parse_base L (complete_scheme ''http://'' rawBase) of
             Inl err \<Rightarrow> Inl (fmt_Errorf (''invalid OPA base URL: '' @ err))
           | Inr base \<Rightarrow>
               (let rawPath = strings_TrimPrefix rawPath ''/'';
                    base = base\<lparr>url_Path := strings_TrimSuffix (url_Path base) ''/'' @ ''/v1/data/'' @ rawPath\<rparr>;
                    cfg = apply_opts opts opa_default
                in Inr \<lparr>opa_httpClient = opac_timeout cfg,
                        opa_evaluateURL = url_String base,
                        opa_maxResponseBodySize = opac_maxResponseBodySize cfg,
                        opa_logger = opac_logger cfg,
                        opa_requestIDHeaderKey = opac_requestIDHeaderKey cfg,
                        opa_requestIDFunc = opac_requestIDFunc cfg\<rparr>))"

lemma NewOPAEndpoint_url:
  assumes "NewOPAEndpoint L baseURL policyPath opts = Inr e" "CHR ''['' \<notin> set baseURL"
  shows "\<exists>u v. parse_base L (complete_scheme ''http://'' (strings_TrimSpace baseURL)) = Inr u \<and>
    parse_base L (opa_evaluateURL e) = Inr v \<and>
    url_Path v = strings_TrimSuffix (url_Path u) ''/'' @ ''/v1/data/'' @
      strings_TrimPrefix (strings_TrimSpace policyPath) ''/'' \<and>
    url_Scheme v = url_Scheme u \<and> url_Host v = url_Host u \<and> url_RawQuery v = url_RawQuery u \<and>
    url_Fragment v = url_Fragment u"
proof -
  let ?t = "strings_TrimPrefix (strings_TrimSpace policyPath) ''/''"
  from assms(1) obtain u where u: "parse_base L (complete_scheme ''http://'' (strings_TrimSpace baseURL)) = Inr u"
    "opa_evaluateURL e =
      url_String (u\<lparr>url_Path := strings_TrimSuffix (url_Path u) ''/'' @ ''/v1/data/'' @ ?t\<rparr>)"
    by (auto simp: NewOPAEndpoint_def Let_def split: if_splits sum.splits)
  moreover have "CHR ''['' \<notin> set (strings_TrimSpace baseURL)" using assms(2) set_TrimSpace by auto
  ultimately show ?thesis using parse_base_with_path [OF u(1), of _ "''v1/data/'' @ ?t"] by simp
qed

section \<open>Verify\<close>

record opaInput =
  opa_Resource :: string
  opa_Action :: string
  opa_Token :: string

record opaRequest =
  opa_Input :: opaInput

text \<open>The \<open>json\<close> tags of the two structs; their fields are written in declaration order.\<close>

definition opa_Marshal :: "opaRequest \<Rightarrow> string" where
  "opa_Marshal r =
     json_Marshal (BObj [(''input'', BObj [(''resource'', BStr (opa_Resource (opa_Input r))),
                                          (''action'', BStr (opa_Action (opa_Input r))),
                                          (''token'', BStr (opa_Token (opa_Input r)))])])"

text \<open>
  \<open>opaResponse\<close> has one field, a \<open>*bool\<close>: \<open>null\<close> sets the pointer to \<open>nil\<close>, a boolean is stored,
  and anything else is a type error.
\<close>

record opaResponse =
  opa_Result :: "bool option"

fun opa_store :: "json \<Rightarrow> opaResponse \<Rightarrow> opaResponse option" where
  "opa_store JNull r = Some (r\<lparr>opa_Result := None\<rparr>)"
| "opa_store (JBool b) r = Some (r\<lparr>opa_Result := Some b\<rparr>)"
| "opa_store _ r = None"

definition opa_headers :: "restOPAEndpoint \<Rightarrow> go_ctx \<Rightarrow> header \<Rightarrow> header" where
  "opa_headers e ctx h =
     (let h = Header_Set h ''Content-Type'' ''application/json'';
          h = Header_Set h ''Accept'' ''application/json''
      in forward_request_id (opa_requestIDHeaderKey e) (opa_requestIDFunc e) ctx h)"

definition opa_evaluate :: "'w net \<Rightarrow> restOPAEndpoint \<Rightarrow> http_response \<Rightarrow> go_error option" where
  "opa_evaluate n e resp =
     (let respBody = read_or_nil (Body resp) (opa_maxResponseBodySize e)
      in if StatusCode resp < 200 \<or> StatusCode resp \<ge> 300
         then Some (status_Error codes_Internal
                      (''OPA returned non-2xx status: '' @ fmt_d (StatusCode resp)))
         else case unmarshal_struct ''result'' opa_store respBody \<lparr>opa_Result = None\<rparr> of
             None \<Rightarrow> Some (status_Error codes_Internal
                       (''failed to parse OPA response: '' @ json_error n respBody))
           | Some opaResp \<Rightarrow>
               (if opa_Result opaResp = None \<or> opa_Result opaResp = Some False
                then Some (status_Error codes_PermissionDenied ''access denied by policy'')
                else None))"

definition opa_Verify :: "'w net \<Rightarrow> restOPAEndpoint \<Rightarrow> 'w verifier" where
  "opa_Verify n e ctx resource action w =
     (case getToken ctx of
        Inl err \<Rightarrow> (Some (no_token_error err), w)
      | Inr tok \<Rightarrow>
          (let reqBody = \<lparr>opa_Input = \<lparr>opa_Resource = resource, opa_Action = action,
                                       opa_Token = tok_Value tok\<rparr>\<rparr>
           in case http_NewRequest n (opa_evaluateURL e) (opa_Marshal reqBody) of
             Inl err \<Rightarrow> (Some (status_Error codes_Internal (''failed to create OPA request: '' @ err)), w)
           | Inr req \<Rightarrow>
               (case http_Do n (opa_httpClient e) ctx
                       (req\<lparr>req_header := opa_headers e ctx (req_header req)\<rparr>) w of
                  (Inl err, w') \<Rightarrow>
                    (Some (status_Error codes_Internal (''OPA request failed: '' @ err)), w')
                | (Inr resp, w') \<Rightarrow> (opa_evaluate n e resp, w'))))"

lemma opa_evaluate_verdict: "opa_evaluate n e resp = Some err \<Longrightarrow> verdict_error err"
  by (auto simp: opa_evaluate_def Let_def split: if_splits option.splits)

interpretation opa: authenticating_verifier "opa_Verify n e" for n e
  by unfold_locales
    (auto simp: opa_Verify_def no_token_error_def Let_def opa_evaluate_verdict
      split: sum.splits prod.splits)

section \<open>Properties\<close>

text \<open>The one request a verification sends.\<close>

definition opa_request :: "restOPAEndpoint \<Rightarrow> go_ctx \<Rightarrow> token \<Rightarrow> string \<Rightarrow> string \<Rightarrow> http_request" where
  "opa_request e ctx tok resource action =
     \<lparr>req_method = ''POST'', req_url = opa_evaluateURL e,
      req_header = opa_headers e ctx Map.empty,
      req_body = opa_Marshal \<lparr>opa_Input = \<lparr>opa_Resource = resource, opa_Action = action,
                                          opa_Token = tok_Value tok\<rparr>\<rparr>\<rparr>"

text \<open>
  When a document grants access: it is an object, every value under a key that reads \<open>result\<close> up to
  case is a boolean or \<open>null\<close>, and the last of them is \<open>true\<close>.
\<close>

fun bool_or_null :: "json \<Rightarrow> bool" where
  "bool_or_null JNull = True"
| "bool_or_null (JBool b) = True"
| "bool_or_null _ = False"

fun opa_grants :: "json \<Rightarrow> bool" where
  "opa_grants (JObj kvs) =
     (let vs = field_values ''result'' kvs
      in list_all bool_or_null vs \<and> vs \<noteq> [] \<and> last vs = JBool True)"
| "opa_grants _ = False"

lemma opa_unmarshal_field:
  "unmarshal_field ''result'' opa_store kvs r =
     (let vs = field_values ''result'' kvs
      in if list_all bool_or_null vs
         then Some (if vs = [] then r
                    else r\<lparr>opa_Result := (case last vs of JBool b \<Rightarrow> Some b | _ \<Rightarrow> None)\<rparr>)
         else None)"
proof (induction kvs rule: rev_induct)
  case (snoc p kvs)
  obtain k v where p: "p = (k, v)" by fastforce
  show ?case
    using snoc by (cases v) (auto simp: p unmarshal_field_snoc field_values_snoc Let_def)
qed (simp add: field_values_def)

lemma opa_evaluate_None:
  "opa_evaluate n e resp = None \<longleftrightarrow>
     is_2xx (StatusCode resp) \<and>
     (\<exists>j. json_parse (read_or_nil (Body resp) (opa_maxResponseBodySize e)) = Some j \<and> opa_grants j)"
proof -
  have "(\<exists>r. unmarshal_struct ''result'' opa_store body \<lparr>opa_Result = None\<rparr> = Some r \<and>
              opa_Result r = Some True) \<longleftrightarrow> (\<exists>j. json_parse body = Some j \<and> opa_grants j)" for body
    by (cases "json_parse body")
      (auto simp: unmarshal_struct_def opa_unmarshal_field Let_def split: json.splits)
  moreover have "opa_evaluate n e resp = None \<longleftrightarrow> is_2xx (StatusCode resp) \<and>
      (\<exists>r. unmarshal_struct ''result'' opa_store (read_or_nil (Body resp) (opa_maxResponseBodySize e))
             \<lparr>opa_Result = None\<rparr> = Some r \<and> opa_Result r = Some True)"
    by (auto simp: opa_evaluate_def Let_def is_2xx_def split: option.splits)
  ultimately show ?thesis by simp
qed

text \<open>
  C14. The OPA endpoint allows a call exactly when the call has a token, the one POST request it
  sends is answered with a status from 200 to 299, and the part of the body that it reads is
  a JSON object whose last \<open>result\<close> is \<open>true\<close>. An undefined, \<open>null\<close>, false, non-boolean or repeated
  decision that does not end in \<open>true\<close> never allows.
\<close>

theorem opa_Verify_allows_iff:
  "opa_Verify n e ctx resource action w = (None, w') \<longleftrightarrow>
     (\<exists>tok resp j. getToken ctx = Inr tok \<and> http_url_error n (opa_evaluateURL e) = None \<and>
        http_Do n (opa_httpClient e) ctx (opa_request e ctx tok resource action) w = (Inr resp, w') \<and>
        is_2xx (StatusCode resp) \<and>
        json_parse (read_or_nil (Body resp) (opa_maxResponseBodySize e)) = Some j \<and> opa_grants j)"
proof (cases "getToken ctx")
  case (Inr tok)
  then show ?thesis
    by (auto simp: opa_Verify_def http_NewRequest_def opa_request_def opa_evaluate_None
        split: sum.splits prod.splits option.splits)
qed (simp add: opa_Verify_def)

text \<open>
  The document OPA evaluates holds exactly the resource, the action and the token of the call
  as its \<open>input\<close>, unchanged when they are UTF-8. The caller's credentials are nowhere else in the
  request: no Authorization header is sent unless the request identifier is configured to go there.
\<close>

theorem opa_request_content:
  assumes "utf8_Valid resource" "utf8_Valid action" "utf8_Valid (tok_Value tok)"
  shows "json_parse (req_body (opa_request e ctx tok resource action)) =
           Some (JObj [(''input'', JObj [(''resource'', JStr resource), (''action'', JStr action),
                                        (''token'', JStr (tok_Value tok))])]) \<and>
         (CanonicalHeaderKey (opa_requestIDHeaderKey e) \<noteq> ''Authorization'' \<longrightarrow>
            req_header (opa_request e ctx tok resource action) ''Authorization'' = None)"
  using assms
  by (simp add: opa_request_def opa_Marshal_def json_parse_Marshal maxNestingDepth_def
      coerce_utf8_valid opa_headers_def forward_request_id_other Header_Set_def)

theorem opa_request_content_witness:
  "json_parse (req_body (opa_request
       \<lparr>opa_httpClient = defaultTimeout, opa_evaluateURL = ''http://opa/v1/data/authz/allow'',
        opa_maxResponseBodySize = defaultMaxResponseBodySize, opa_logger = LevelError,
        opa_requestIDHeaderKey = ''x-request-id'', opa_requestIDFunc = None\<rparr>
       \<lparr>ctx_values = [], ctx_incoming = None\<rparr> \<lparr>tok_TokenType = ''Bearer'', tok_Value = ''t''\<rparr>
       ''posts/1'' ''read'')) =
     Some (JObj [(''input'', JObj [(''resource'', JStr ''posts/1''), (''action'', JStr ''read''),
                                  (''token'', JStr ''t'')])])"
proof -
  have "utf8_Valid ''posts/1''" "utf8_Valid ''read''" "utf8_Valid ''t''"
    by (rule utf8_Valid_ascii; simp add: ascii_def byte_in_def)+
  then show ?thesis
    using opa_request_content [of "''posts/1''" "''read''"
        "\<lparr>tok_TokenType = ''Bearer'', tok_Value = ''t''\<rparr>"]
    by simp
qed

text \<open>
  C19. The URL that is asked names the configured policy. Whatever bytes the policy path has, reading
  the URL of a constructed endpoint gives the path of the base URL, \<open>/v1/data/\<close> and the policy path,
  with the scheme, host, query and fragment of the base URL: a policy path cannot add a query or
  leave the host.
\<close>

theorem opa_url_addresses_policy:
  assumes "NewOPAEndpoint L baseURL policyPath opts = Inr e" "CHR ''['' \<notin> set baseURL"
  shows "\<exists>u v. parse_base L (complete_scheme ''http://'' (strings_TrimSpace baseURL)) = Inr u \<and>
    parse_base L (opa_evaluateURL e) = Inr v \<and>
    url_Path v = strings_TrimSuffix (url_Path u) ''/'' @ ''/v1/data/'' @
      strings_TrimPrefix (strings_TrimSpace policyPath) ''/'' \<and>
    url_Scheme v = url_Scheme u \<and> url_Host v = url_Host u \<and> url_RawQuery v = url_RawQuery u \<and>
    url_Fragment v = url_Fragment u"
  using assms by (rule NewOPAEndpoint_url)

lemma parse_base_opa:
  "parse_base L ''http://opa'' = Inr (new_URL\<lparr>url_Scheme := ''http'', url_Host := ''opa''\<rparr>)"
proof -
  have "url_parts ''opa'' [] False []" by (simp add: url_parts_def)
  from parse_http [OF _ this, of "''http''" "url_literal L"] show ?thesis
    by (simp add: parse_base_def url_Parse_def cut_at_def print_query_def ctl_byte_def url_front_def new_URL_def
        parseAuthority_def parseHost_def cut_last_def validOptionalPort_def setPath_def char_refused_def
        shouldEscape_def url_alnum_def byte_in_def url_escape_def escape_char_def)
qed

lemma opa_example_text:
  "strings_TrimSpace ''http://opa'' = ''http://opa''" "strings_TrimSpace ''authz?x'' = ''authz?x''"
  "complete_scheme ''http://'' ''http://opa'' = ''http://opa''"
proof -
  show "strings_TrimSpace ''http://opa'' = ''http://opa''" "strings_TrimSpace ''authz?x'' = ''authz?x''"
    by (rule TrimSpace_no_space, rule no_space_ascii, simp add: ascii_def byte_in_def unicode_IsSpace_def)+
qed (simp add: complete_scheme_def HasPrefix_iff)

definition plain_env :: url_env where
  "plain_env = \<lparr>url_literal = Inr, url_error_text = (\<lambda>u e. u)\<rparr>"

theorem opa_url_addresses_policy_witness:
  "\<exists>e v. NewOPAEndpoint plain_env ''http://opa'' ''authz?x'' [] = Inr e \<and>
     parse_base plain_env (opa_evaluateURL e) = Inr v \<and>
     url_Path v = ''/v1/data/authz?x'' \<and> url_Host v = ''opa'' \<and> url_RawQuery v = []"
proof -
  obtain e where e: "NewOPAEndpoint plain_env ''http://opa'' ''authz?x'' [] = Inr e"
    by (simp add: NewOPAEndpoint_def opa_example_text parse_base_opa Let_def)
  have "strings_TrimPrefix ''authz?x'' ''/'' = ''authz?x''" "strings_TrimSuffix [] ''/'' = []"
    by (simp_all add: strings_TrimPrefix_def strings_TrimSuffix_def strings_HasPrefix_def strings_HasSuffix_def)
  with e opa_url_addresses_policy [OF e] show ?thesis
    by (auto simp: opa_example_text parse_base_opa new_URL_def)
qed

end
