(* ===== verification/Cedar_Endpoint.thy ===== *)
theory Cedar_Endpoint
  imports REST_Endpoint
begin

text \<open>
  \<open>endpoint/rest_cedar_agent.go\<close>: the endpoint that asks a Cedar agent whether a principal may act
  on a resource, each named by a Cedar entity UID, and takes the \<open>decision\<close> of the answer.
\<close>

section \<open>Configuration\<close>

record cedarAgentBuildConfig =
  cedarc_timeout :: int
  cedarc_maxResponseBodySize :: int
  cedarc_logger :: int
  cedarc_requestIDHeaderKey :: string
  cedarc_principalPrefix :: string
  cedarc_actionPrefix :: string
  cedarc_resourcePrefix :: string
  cedarc_principalResolver :: "go_ctx \<Rightarrow> string \<Rightarrow> string"
  cedarc_requestIDFunc :: "(go_ctx \<Rightarrow> string) option"

type_synonym CedarAgentOption = "cedarAgentBuildConfig \<Rightarrow> cedarAgentBuildConfig"

definition WithCedarAgentTimeout :: "int \<Rightarrow> CedarAgentOption outcome" where
  "WithCedarAgentTimeout d =
     (if d \<le> 0 then Panic (''timeout must be positive, got '' @ duration_String d)
      else Return (\<lambda>c. c\<lparr>cedarc_timeout := d\<rparr>))"

definition WithCedarAgentMaxResponseBodySize :: "int \<Rightarrow> CedarAgentOption outcome" where
  "WithCedarAgentMaxResponseBodySize sz =
     (if sz \<le> 0 then Panic (''maxResponseBodySize must be positive, got '' @ fmt_d sz)
      else Return (\<lambda>c. c\<lparr>cedarc_maxResponseBodySize := sz\<rparr>))"

definition WithCedarAgentLogLevel :: "int \<Rightarrow> CedarAgentOption" where
  "WithCedarAgentLogLevel level = (\<lambda>c. c\<lparr>cedarc_logger := level\<rparr>)"

definition WithCedarAgentPrincipalPrefix :: "string \<Rightarrow> CedarAgentOption" where
  "WithCedarAgentPrincipalPrefix pre = (\<lambda>c. c\<lparr>cedarc_principalPrefix := pre\<rparr>)"

definition WithCedarAgentActionPrefix :: "string \<Rightarrow> CedarAgentOption" where
  "WithCedarAgentActionPrefix pre = (\<lambda>c. c\<lparr>cedarc_actionPrefix := pre\<rparr>)"

definition WithCedarAgentResourcePrefix :: "string \<Rightarrow> CedarAgentOption" where
  "WithCedarAgentResourcePrefix pre = (\<lambda>c. c\<lparr>cedarc_resourcePrefix := pre\<rparr>)"

definition WithCedarAgentRequestIDHeaderKey :: "string \<Rightarrow> CedarAgentOption" where
  "WithCedarAgentRequestIDHeaderKey key = (\<lambda>c. c\<lparr>cedarc_requestIDHeaderKey := key\<rparr>)"

definition WithCedarAgentRequestIDFunc :: "(go_ctx \<Rightarrow> string) option \<Rightarrow> CedarAgentOption" where
  "WithCedarAgentRequestIDFunc fn = (\<lambda>c. c\<lparr>cedarc_requestIDFunc := fn\<rparr>)"

definition WithCedarAgentPrincipalResolver ::
  "(go_ctx \<Rightarrow> string \<Rightarrow> string) option \<Rightarrow> CedarAgentOption outcome" where
  "WithCedarAgentPrincipalResolver fn =
     (case fn of
        None \<Rightarrow> Panic ''principalResolver must not be nil''
      | Some f \<Rightarrow> Return (\<lambda>c. c\<lparr>cedarc_principalResolver := f\<rparr>))"

record restCedarAgentEndpoint =
  cedar_httpClient :: int
  cedar_authorizeURL :: string
  cedar_maxResponseBodySize :: int
  cedar_logger :: int
  cedar_requestIDHeaderKey :: string
  cedar_principalPrefix :: string
  cedar_actionPrefix :: string
  cedar_resourcePrefix :: string
  cedar_principalResolver :: "go_ctx \<Rightarrow> string \<Rightarrow> string"
  cedar_requestIDFunc :: "(go_ctx \<Rightarrow> string) option"

definition cedar_default :: cedarAgentBuildConfig where
  "cedar_default =
     \<lparr>cedarc_timeout = defaultTimeout, cedarc_maxResponseBodySize = defaultMaxResponseBodySize,
      cedarc_logger = LevelError, cedarc_requestIDHeaderKey = ''x-request-id'',
      cedarc_principalPrefix = ''User'', cedarc_actionPrefix = ''Action'',
      cedarc_resourcePrefix = ''Resource'', cedarc_principalResolver = (\<lambda>_ tok. tok),
      cedarc_requestIDFunc = None\<rparr>"

definition NewCedarAgentEndpoint ::
  "'z url_env_scheme \<Rightarrow> string \<Rightarrow> CedarAgentOption list \<Rightarrow> go_error + restCedarAgentEndpoint" where
  "NewCedarAgentEndpoint L baseURL opts =
     (let rawBase = strings_TrimSpace baseURL
      in if rawBase = [] then Inl (fmt_Errorf ''baseURL must not be empty'')
         else case parse_base L (complete_scheme ''http://'' rawBase) of
             Inl err \<Rightarrow> Inl (fmt_Errorf (''invalid Cedar agent base URL: '' @ err))
           | Inr base \<Rightarrow>
               (let base = base\<lparr>url_Path := strings_TrimSuffix (url_Path base) ''/'' @ ''/v1/is_authorized''\<rparr>;
                    cfg = apply_opts opts cedar_default
                in Inr \<lparr>cedar_httpClient = cedarc_timeout cfg,
                        cedar_authorizeURL = url_String base,
                        cedar_maxResponseBodySize = cedarc_maxResponseBodySize cfg,
                        cedar_logger = cedarc_logger cfg,
                        cedar_requestIDHeaderKey = cedarc_requestIDHeaderKey cfg,
                        cedar_principalPrefix = cedarc_principalPrefix cfg,
                        cedar_actionPrefix = cedarc_actionPrefix cfg,
                        cedar_resourcePrefix = cedarc_resourcePrefix cfg,
                        cedar_principalResolver = cedarc_principalResolver cfg,
                        cedar_requestIDFunc = cedarc_requestIDFunc cfg\<rparr>))"

lemma NewCedarAgentEndpoint_url:
  assumes "NewCedarAgentEndpoint L baseURL opts = Inr e" "CHR ''['' \<notin> set baseURL"
  shows "\<exists>u v. parse_base L (complete_scheme ''http://'' (strings_TrimSpace baseURL)) = Inr u \<and>
    parse_base L (cedar_authorizeURL e) = Inr v \<and>
    url_Path v = strings_TrimSuffix (url_Path u) ''/'' @ ''/v1/is_authorized'' \<and>
    url_Scheme v = url_Scheme u \<and> url_Host v = url_Host u \<and> url_RawQuery v = url_RawQuery u \<and>
    url_Fragment v = url_Fragment u"
proof -
  from assms(1) obtain u where u: "parse_base L (complete_scheme ''http://'' (strings_TrimSpace baseURL)) = Inr u"
    "cedar_authorizeURL e =
      url_String (u\<lparr>url_Path := strings_TrimSuffix (url_Path u) ''/'' @ ''/v1/is_authorized''\<rparr>)"
    by (auto simp: NewCedarAgentEndpoint_def Let_def split: if_splits sum.splits)
  moreover have "CHR ''['' \<notin> set (strings_TrimSpace baseURL)" using assms(2) set_TrimSpace by auto
  ultimately show ?thesis using parse_base_with_path [OF u(1), of _ "''v1/is_authorized''"] by simp
qed

section \<open>Verify\<close>

text \<open>\<open>Context\<close> is a \<open>map[string]any\<close> in the code, and the code only ever puts an empty one there.\<close>

record cedarAgentRequest =
  cedar_Principal :: string
  cedar_Action :: string
  cedar_Resource :: string
  cedar_Context :: "(string \<times> jbody) list"

definition cedar_Marshal :: "cedarAgentRequest \<Rightarrow> string" where
  "cedar_Marshal r =
     json_Marshal (BObj [(''principal'', BStr (cedar_Principal r)), (''action'', BStr (cedar_Action r)),
                         (''resource'', BStr (cedar_Resource r)), (''context'', BObj (cedar_Context r))])"

text \<open>\<open>cedarAgentResponse\<close> has one \<open>string\<close> field, which a \<open>null\<close> leaves as it is.\<close>

record cedarAgentResponse =
  cedar_Decision :: string

fun cedar_store :: "json \<Rightarrow> cedarAgentResponse \<Rightarrow> cedarAgentResponse option" where
  "cedar_store JNull r = Some r"
| "cedar_store (JStr s) r = Some (r\<lparr>cedar_Decision := s\<rparr>)"
| "cedar_store _ r = None"

definition formatEntityUID :: "string \<Rightarrow> string \<Rightarrow> string" where
  "formatEntityUID entityType i = entityType @ ''::'' @ [CHR 0x22] @ i @ [CHR 0x22]"

definition cedar_headers :: "restCedarAgentEndpoint \<Rightarrow> go_ctx \<Rightarrow> header \<Rightarrow> header" where
  "cedar_headers e ctx h =
     (let h = Header_Set h ''Content-Type'' ''application/json'';
          h = Header_Set h ''Accept'' ''application/json''
      in forward_request_id (cedar_requestIDHeaderKey e) (cedar_requestIDFunc e) ctx h)"

definition cedar_evaluate :: "'w net \<Rightarrow> restCedarAgentEndpoint \<Rightarrow> http_response \<Rightarrow> go_error option" where
  "cedar_evaluate n e resp =
     (let respBody = read_or_nil (Body resp) (cedar_maxResponseBodySize e)
      in if StatusCode resp < 200 \<or> StatusCode resp \<ge> 300
         then Some (status_Error codes_Internal
                      (''Cedar agent returned non-2xx status: '' @ fmt_d (StatusCode resp)))
         else case unmarshal_struct ''decision'' cedar_store respBody \<lparr>cedar_Decision = []\<rparr> of
             None \<Rightarrow> Some (status_Error codes_Internal
                       (''failed to parse Cedar agent response: '' @ json_error n respBody))
           | Some cedarResp \<Rightarrow>
               (if cedar_Decision cedarResp = ''Allow'' then None
                else Some (status_Error codes_PermissionDenied ''access denied by policy'')))"

definition cedar_Verify :: "'w net \<Rightarrow> restCedarAgentEndpoint \<Rightarrow> 'w verifier" where
  "cedar_Verify n e ctx resource action w =
     (case getToken ctx of
        Inl err \<Rightarrow> (Some (no_token_error err), w)
      | Inr tok \<Rightarrow>
          (let principalID = cedar_principalResolver e ctx (tok_Value tok);
               reqBody = \<lparr>cedar_Principal = formatEntityUID (cedar_principalPrefix e) principalID,
                          cedar_Action = formatEntityUID (cedar_actionPrefix e) action,
                          cedar_Resource = formatEntityUID (cedar_resourcePrefix e) resource,
                          cedar_Context = []\<rparr>
           in case http_NewRequest n (cedar_authorizeURL e) (cedar_Marshal reqBody) of
             Inl err \<Rightarrow>
               (Some (status_Error codes_Internal (''failed to create Cedar agent request: '' @ err)), w)
           | Inr req \<Rightarrow>
               (case http_Do n (cedar_httpClient e) ctx
                       (req\<lparr>req_header := cedar_headers e ctx (req_header req)\<rparr>) w of
                  (Inl err, w') \<Rightarrow>
                    (Some (status_Error codes_Internal (''Cedar agent request failed: '' @ err)), w')
                | (Inr resp, w') \<Rightarrow> (cedar_evaluate n e resp, w'))))"

lemma cedar_evaluate_verdict: "cedar_evaluate n e resp = Some err \<Longrightarrow> verdict_error err"
  by (auto simp: cedar_evaluate_def Let_def split: if_splits option.splits)

interpretation cedar: authenticating_verifier "cedar_Verify n e" for n e
  by unfold_locales
    (auto simp: cedar_Verify_def no_token_error_def Let_def cedar_evaluate_verdict
      split: sum.splits prod.splits)

section \<open>Properties\<close>

text \<open>The one request a verification sends.\<close>

definition cedar_request ::
  "restCedarAgentEndpoint \<Rightarrow> go_ctx \<Rightarrow> token \<Rightarrow> string \<Rightarrow> string \<Rightarrow> http_request" where
  "cedar_request e ctx tok resource action =
     \<lparr>req_method = ''POST'', req_url = cedar_authorizeURL e,
      req_header = cedar_headers e ctx Map.empty,
      req_body = cedar_Marshal
        \<lparr>cedar_Principal = formatEntityUID (cedar_principalPrefix e)
                            (cedar_principalResolver e ctx (tok_Value tok)),
         cedar_Action = formatEntityUID (cedar_actionPrefix e) action,
         cedar_Resource = formatEntityUID (cedar_resourcePrefix e) resource,
         cedar_Context = []\<rparr>\<rparr>"

text \<open>
  When a document grants access: it is an object, every value under a key that reads \<open>decision\<close> up
  to case is a string or \<open>null\<close>, and the last string among them is \<open>Allow\<close>.
\<close>

fun string_or_null :: "json \<Rightarrow> bool" where
  "string_or_null JNull = True"
| "string_or_null (JStr s) = True"
| "string_or_null _ = False"

fun cedar_grants :: "json \<Rightarrow> bool" where
  "cedar_grants (JObj kvs) =
     (let vs = field_values ''decision'' kvs; ss = filter (\<lambda>v. v \<noteq> JNull) vs
      in list_all string_or_null vs \<and> ss \<noteq> [] \<and> last ss = JStr ''Allow'')"
| "cedar_grants _ = False"

lemma cedar_unmarshal_field:
  "unmarshal_field ''decision'' cedar_store kvs r =
     (let vs = field_values ''decision'' kvs; ss = filter (\<lambda>v. v \<noteq> JNull) vs
      in if list_all string_or_null vs
         then Some (if ss = [] then r
                    else r\<lparr>cedar_Decision := (case last ss of JStr s \<Rightarrow> s | _ \<Rightarrow> [])\<rparr>)
         else None)"
proof (induction kvs rule: rev_induct)
  case (snoc p kvs)
  obtain k v where p: "p = (k, v)" by fastforce
  show ?case
    using snoc by (cases v) (auto simp: p unmarshal_field_snoc field_values_snoc Let_def)
qed (simp add: field_values_def)

lemma string_or_null_last:
  "list_all string_or_null vs \<Longrightarrow> filter (\<lambda>v. v \<noteq> JNull) vs \<noteq> [] \<Longrightarrow>
   \<exists>s. last (filter (\<lambda>v. v \<noteq> JNull) vs) = JStr s"
proof -
  assume all: "list_all string_or_null vs" and ne: "filter (\<lambda>v. v \<noteq> JNull) vs \<noteq> []"
  from last_in_set [OF ne] have "last (filter (\<lambda>v. v \<noteq> JNull) vs) \<in> set vs"
    "last (filter (\<lambda>v. v \<noteq> JNull) vs) \<noteq> JNull" by auto
  with all show ?thesis
    by (cases "last (filter (\<lambda>v. v \<noteq> JNull) vs)") (auto simp: list_all_iff)
qed

lemma cedar_evaluate_None:
  "cedar_evaluate n e resp = None \<longleftrightarrow>
     is_2xx (StatusCode resp) \<and>
     (\<exists>j. json_parse (read_or_nil (Body resp) (cedar_maxResponseBodySize e)) = Some j \<and> cedar_grants j)"
proof -
  have "(\<exists>r. unmarshal_struct ''decision'' cedar_store body \<lparr>cedar_Decision = []\<rparr> = Some r \<and>
              cedar_Decision r = ''Allow'') \<longleftrightarrow> (\<exists>j. json_parse body = Some j \<and> cedar_grants j)" for body
    by (cases "json_parse body")
      (auto simp: unmarshal_struct_def cedar_unmarshal_field Let_def split: json.splits if_splits
        dest: string_or_null_last)
  moreover have "cedar_evaluate n e resp = None \<longleftrightarrow> is_2xx (StatusCode resp) \<and>
      (\<exists>r. unmarshal_struct ''decision'' cedar_store
             (read_or_nil (Body resp) (cedar_maxResponseBodySize e)) \<lparr>cedar_Decision = []\<rparr> = Some r \<and>
             cedar_Decision r = ''Allow'')"
    by (auto simp: cedar_evaluate_def Let_def is_2xx_def split: option.splits)
  ultimately show ?thesis by simp
qed

text \<open>
  C15. The Cedar endpoint allows a call exactly when the call has a token, the one POST request it
  sends is answered with a status from 200 to 299, and the part of the body that it reads is
  a JSON object whose last \<open>decision\<close> that is a string is \<open>Allow\<close>; the comparison is case sensitive.
\<close>

theorem cedar_Verify_allows_iff:
  "cedar_Verify n e ctx resource action w = (None, w') \<longleftrightarrow>
     (\<exists>tok resp j. getToken ctx = Inr tok \<and> http_url_error n (cedar_authorizeURL e) = None \<and>
        http_Do n (cedar_httpClient e) ctx (cedar_request e ctx tok resource action) w = (Inr resp, w') \<and>
        is_2xx (StatusCode resp) \<and>
        json_parse (read_or_nil (Body resp) (cedar_maxResponseBodySize e)) = Some j \<and> cedar_grants j)"
proof (cases "getToken ctx")
  case (Inr tok)
  then show ?thesis
    by (auto simp: cedar_Verify_def http_NewRequest_def cedar_request_def cedar_evaluate_None Let_def
        split: sum.splits prod.splits option.splits)
qed (simp add: cedar_Verify_def)

lemma formatEntityUID_inj: "formatEntityUID ty a = formatEntityUID ty b \<longleftrightarrow> a = b"
  by (simp add: formatEntityUID_def)

lemma utf8_Valid_formatEntityUID:
  "utf8_Valid (formatEntityUID ty i) \<longleftrightarrow> utf8_Valid ty \<and> utf8_Valid i"
proof -
  have q: "ascii CHR 0x22" "ascii CHR '':''" by (simp_all add: ascii_def byte_in_def)
  have "utf8_Valid (i @ [CHR 0x22]) \<longleftrightarrow> utf8_Valid i"
    using q(1) by (simp add: utf8_Valid_append_ascii utf8_Valid_ascii)
  then show ?thesis
    using q by (simp add: formatEntityUID_def utf8_Valid_append_ascii utf8_Valid_Cons_ascii)
qed

text \<open>
  C35. With the prefixes of the endpoint fixed, two requests to the Cedar agent have the same body
  exactly when they name the same principal, action and resource: for UTF-8 names no two questions
  are confused on the wire, quotation marks and control characters included.
\<close>

theorem cedar_request_injective:
  assumes "utf8_Valid (cedar_principalPrefix e)" "utf8_Valid (cedar_actionPrefix e)"
      "utf8_Valid (cedar_resourcePrefix e)"
    and "utf8_Valid (cedar_principalResolver e ctx (tok_Value tok))" "utf8_Valid a" "utf8_Valid r"
    and "utf8_Valid (cedar_principalResolver e ctx' (tok_Value tok'))" "utf8_Valid a'" "utf8_Valid r'"
  shows "req_body (cedar_request e ctx tok r a) = req_body (cedar_request e ctx' tok' r' a') \<longleftrightarrow>
         cedar_principalResolver e ctx (tok_Value tok) = cedar_principalResolver e ctx' (tok_Value tok') \<and>
         a = a' \<and> r = r'"
proof -
  define p where "p ctx tok = formatEntityUID (cedar_principalPrefix e)
                                (cedar_principalResolver e ctx (tok_Value tok))" for ctx and tok :: token
  have parse: "json_parse (req_body (cedar_request e ctx tok r a)) =
      Some (JObj [(''principal'', JStr (p ctx tok)),
                  (''action'', JStr (formatEntityUID (cedar_actionPrefix e) a)),
                  (''resource'', JStr (formatEntityUID (cedar_resourcePrefix e) r)),
                  (''context'', JObj [])])"
    if "utf8_Valid (cedar_principalResolver e ctx (tok_Value tok))" "utf8_Valid a" "utf8_Valid r"
    for ctx tok r a
    using that assms(1-3)
    by (simp add: cedar_request_def cedar_Marshal_def json_parse_Marshal maxNestingDepth_def
        coerce_utf8_valid utf8_Valid_formatEntityUID p_def)
  show ?thesis
    using parse [OF assms(4-6)] parse [OF assms(7-9)]
    by (auto simp: formatEntityUID_inj p_def) (simp_all add: cedar_request_def)
qed

definition example_cedar :: restCedarAgentEndpoint where
  "example_cedar =
     \<lparr>cedar_httpClient = defaultTimeout, cedar_authorizeURL = ''http://cedar/v1/is_authorized'',
      cedar_maxResponseBodySize = defaultMaxResponseBodySize, cedar_logger = LevelError,
      cedar_requestIDHeaderKey = ''x-request-id'', cedar_principalPrefix = ''User'',
      cedar_actionPrefix = ''Action'', cedar_resourcePrefix = ''Resource'',
      cedar_principalResolver = (\<lambda>_ tok. tok), cedar_requestIDFunc = None\<rparr>"

theorem cedar_request_injective_witness:
  "req_body (cedar_request example_cedar \<lparr>ctx_values = [], ctx_incoming = None\<rparr>
       \<lparr>tok_TokenType = ''Bearer'', tok_Value = ''alice''\<rparr> ''posts/1'' ''read'') \<noteq>
   req_body (cedar_request example_cedar \<lparr>ctx_values = [], ctx_incoming = None\<rparr>
       \<lparr>tok_TokenType = ''Bearer'', tok_Value = ''alice''\<rparr> ''posts/2'' ''read'')"
proof -
  have "utf8_Valid ''User''" "utf8_Valid ''Action''" "utf8_Valid ''Resource''" "utf8_Valid ''alice''"
    "utf8_Valid ''read''" "utf8_Valid ''posts/1''" "utf8_Valid ''posts/2''"
    by (rule utf8_Valid_ascii; simp add: ascii_def byte_in_def)+
  then show ?thesis
    by (subst cedar_request_injective) (simp_all add: example_cedar_def)
qed

end
