(* ===== verification/Policy_Verification.thy ===== *)
theory Policy_Verification
  imports Policy_Option OPA_Endpoint Cedar_Endpoint
begin

text \<open>
  Package \<open>policy_verification\<close> (\<open>interceptor.go\<close>): the interceptors that ask a verifier endpoint
  about the policy the previous interceptor left in the context. The unary interceptor asks once;
  the stream interceptor wraps the stream so that every \<open>RecvMsg\<close> asks first. What the
  interceptors promise is proved from the contract of the endpoints alone.
\<close>

section \<open>Request identifiers\<close>

definition pv_generateRequestID :: "civil \<Rightarrow> byte list \<Rightarrow> string" where
  "pv_generateRequestID now rnd =
     (let timestamp = format_timestamp now;
          b = rnd[6 := (rnd ! 6 AND 0x0f) OR 0x40];
          b = b[8 := (b ! 8 AND 0x3f) OR 0x80]
      in timestamp @ ''_'' @ fmt_x b)"

definition pv_extractOrGenerateRequestID :: "go_ctx \<Rightarrow> civil \<Rightarrow> byte list \<Rightarrow> string" where
  "pv_extractOrGenerateRequestID ctx now rnd =
     (case ctx_incoming ctx of
        Some md \<Rightarrow>
          (case md ''x-request-id'' of
             v # _ \<Rightarrow> if v \<noteq> [] then v else pv_generateRequestID now rnd
           | [] \<Rightarrow> pv_generateRequestID now rnd)
      | None \<Rightarrow> pv_generateRequestID now rnd)"

text \<open>The first statements of both interceptors.\<close>

definition pv_enrich :: "civil \<Rightarrow> byte list \<Rightarrow> go_ctx \<Rightarrow> go_ctx" where
  "pv_enrich now rnd ctx =
     (let requestID = RequestIDFromContext ctx
      in if requestID = []
         then WithRequestID ctx (pv_extractOrGenerateRequestID ctx now rnd) else ctx)"

lemma pv_enrich_tracked: "pv_enrich now rnd ctx = tracked ''x-request-id'' now rnd ctx"
proof -
  have "pv_generateRequestID now rnd = generateRequestID now rnd"
    by (simp add: pv_generateRequestID_def generateRequestID_def uuid_bits_def Let_def)
  then have "pv_extractOrGenerateRequestID ctx now rnd =
      extractOrGenerateRequestID ctx ''x-request-id'' now rnd"
    by (simp add: pv_extractOrGenerateRequestID_def extractOrGenerateRequestID_def
        split: option.split list.split)
  then show ?thesis by (simp add: pv_enrich_def tracked_def Let_def)
qed

section \<open>The interceptors\<close>

record pv_config =
  pv_logLevel :: int

type_synonym pv_Option = "pv_config \<Rightarrow> pv_config"

definition pv_WithLogLevel :: "int \<Rightarrow> pv_Option" where
  "pv_WithLogLevel level = (\<lambda>c. c\<lparr>pv_logLevel := level\<rparr>)"

definition pv_misconfigured :: go_error where
  "pv_misconfigured = status_Error codes_Internal
     ''protobuf_policy_option.Interceptor is not registered in the interceptor chain''"

text \<open>The two wrapped streams: each overrides methods of the stream it embeds.\<close>

definition requestIDStream :: "go_ctx \<Rightarrow> ('m, 'w) ServerStream \<Rightarrow> ('m, 'w) ServerStream" where
  "requestIDStream ctx ss = ss\<lparr>ss_Context := ctx\<rparr>"

definition authServerStream_RecvMsg ::
  "'w verifier \<Rightarrow> go_ctx \<Rightarrow> string \<Rightarrow> string \<Rightarrow> ('m, 'w) ServerStream \<Rightarrow> 'w \<Rightarrow> (go_error + 'm) \<times> 'w" where
  "authServerStream_RecvMsg verify ctx resource action ss w =
     (case verify ctx resource action w of
        (Some err, w') \<Rightarrow> (Inl err, w')
      | (None, w') \<Rightarrow> ss_RecvMsg ss w')"

definition authServerStream ::
  "'w verifier \<Rightarrow> go_ctx \<Rightarrow> string \<Rightarrow> string \<Rightarrow> ('m, 'w) ServerStream \<Rightarrow> ('m, 'w) ServerStream" where
  "authServerStream verify ctx resource action ss =
     ss\<lparr>ss_Context := ctx, ss_RecvMsg := authServerStream_RecvMsg verify ctx resource action ss\<rparr>"

text \<open>
  The interceptors are closures over the endpoint; building one from a \<open>nil\<close> endpoint panics. The
  clock reading and random bytes of a call are arguments of the closure.
\<close>

definition pv_unary ::
  "'w verifier \<Rightarrow> civil \<Rightarrow> byte list \<Rightarrow> go_ctx \<Rightarrow> 'q \<Rightarrow> ('q, 'p, 'w) unary_handler \<Rightarrow> 'w \<Rightarrow> 'p reply \<times> 'w" where
  "pv_unary verify now rnd ctx req handler w =
     (let ctx = pv_enrich now rnd ctx
      in if \<not> InterceptorRanFromContext ctx then ((None, Some pv_misconfigured), w)
         else case PolicyFromContext ctx of
             None \<Rightarrow> handler ctx req w
           | Some policyData \<Rightarrow>
               (case verify ctx (Resource policyData) (Action policyData) w of
                  (Some err, w') \<Rightarrow> ((None, Some err), w')
                | (None, w') \<Rightarrow> handler ctx req w'))"

definition pv_stream ::
  "'w verifier \<Rightarrow> civil \<Rightarrow> byte list \<Rightarrow> ('m, 'w) ServerStream \<Rightarrow> ('m, 'w) stream_handler \<Rightarrow> 'w \<Rightarrow>
   go_error option \<times> 'w" where
  "pv_stream verify now rnd ss handler w =
     (let ctx = pv_enrich now rnd (ss_Context ss)
      in if \<not> InterceptorRanFromContext ctx then (Some pv_misconfigured, w)
         else case PolicyFromContext ctx of
             None \<Rightarrow> handler (requestIDStream ctx ss) w
           | Some policyData \<Rightarrow>
               handler (authServerStream verify ctx (Resource policyData) (Action policyData) ss) w)"

definition pv_Interceptor ::
  "'w verifier option \<Rightarrow> pv_Option list \<Rightarrow>
   (civil \<Rightarrow> byte list \<Rightarrow> go_ctx \<Rightarrow> 'q \<Rightarrow> ('q, 'p, 'w) unary_handler \<Rightarrow> 'w \<Rightarrow> 'p reply \<times> 'w) outcome" where
  "pv_Interceptor verifierEndpoint opts =
     (case verifierEndpoint of
        None \<Rightarrow> Panic ''verifierEndpoint must not be nil''
      | Some verify \<Rightarrow> Return (pv_unary verify))"

definition pv_StreamInterceptor ::
  "'w verifier option \<Rightarrow> pv_Option list \<Rightarrow>
   (civil \<Rightarrow> byte list \<Rightarrow> ('m, 'w) ServerStream \<Rightarrow> ('m, 'w) stream_handler \<Rightarrow> 'w \<Rightarrow>
    go_error option \<times> 'w) outcome" where
  "pv_StreamInterceptor verifierEndpoint opts =
     (case verifierEndpoint of
        None \<Rightarrow> Panic ''verifierEndpoint must not be nil''
      | Some verify \<Rightarrow> Return (pv_stream verify))"

section \<open>Traces\<close>

text \<open>
  To say in which order things happen, a world is extended with a log, and the verifier, the
  handler and the stream are made to write into it. Nothing else changes: the program cannot
  see the log.
\<close>

datatype event =
    EvVerify string string bool
  | EvHandler
  | EvRecv
  | EvSend

definition log_verify :: "'w verifier \<Rightarrow> ('w \<times> event list) verifier" where
  "log_verify verify ctx resource action s =
     (let (r, w') = verify ctx resource action (fst s)
      in (r, w', snd s @ [EvVerify resource action (r = None)]))"

definition log_handler :: "('q, 'p, 'w) unary_handler \<Rightarrow> ('q, 'p, 'w \<times> event list) unary_handler" where
  "log_handler handler ctx req s =
     (let (r, w') = handler ctx req (fst s) in (r, w', snd s @ [EvHandler]))"

definition log_stream :: "('m, 'w) ServerStream \<Rightarrow> ('m, 'w \<times> event list) ServerStream" where
  "log_stream ss =
     \<lparr>ss_Context = ss_Context ss,
      ss_RecvMsg = (\<lambda>s. let (r, w') = ss_RecvMsg ss (fst s) in (r, w', snd s @ [EvRecv])),
      ss_SendMsg = (\<lambda>m s. let (r, w') = ss_SendMsg ss m (fst s) in (r, w', snd s @ [EvSend]))\<rparr>"

text \<open>
  A stream handler as what it does with its stream: it receives and continues with what came,
  sends and continues, or returns. Any handler that uses the stream only through its methods has
  this form.
\<close>

datatype 'm stream_prog =
    Finish "go_error option"
  | Receive "go_error + 'm \<Rightarrow> 'm stream_prog"
  | Send 'm "go_error option \<Rightarrow> 'm stream_prog"

primrec run_prog :: "'m stream_prog \<Rightarrow> ('m, 'w) stream_handler" where
  "run_prog (Finish r) = (\<lambda>ss w. (r, w))"
| "run_prog (Receive k) = (\<lambda>ss w. let (x, w') = ss_RecvMsg ss w in run_prog (k x) ss w')"
| "run_prog (Send m k) = (\<lambda>ss w. let (x, w') = ss_SendMsg ss m w in run_prog (k x) ss w')"

text \<open>Every message taken off the wire comes right after a granted verification.\<close>

fun mediated :: "string \<Rightarrow> string \<Rightarrow> event list \<Rightarrow> bool" where
  "mediated resource action [] = True"
| "mediated resource action (EvVerify r a ok # EvRecv # es) \<longleftrightarrow>
     r = resource \<and> a = action \<and> ok \<and> mediated resource action es"
| "mediated resource action (EvRecv # es) = False"
| "mediated resource action (e # es) = mediated resource action es"

lemma mediated_append:
  "mediated r a es \<Longrightarrow> mediated r a fs \<Longrightarrow> mediated r a (es @ fs) \<or> (\<exists>gs. fs = EvRecv # gs)"
  by (induction r a es rule: mediated.induct) (auto elim: mediated.elims)

lemma mediated_snoc:
  assumes "mediated r a es"
  shows "mediated r a (es @ [EvVerify r a ok])" "mediated r a (es @ [EvVerify r a True, EvRecv])"
    "mediated r a (es @ [EvSend])"
  using mediated_append [OF assms, of "[EvVerify r a ok]"]
    mediated_append [OF assms, of "[EvVerify r a True, EvRecv]"]
    mediated_append [OF assms, of "[EvSend]"] by auto

lemma run_prog_mediated:
  assumes "mediated r a l"
  shows "mediated r a (snd (snd (run_prog prog
           (authServerStream (log_verify verify) ctx r a (log_stream ss)) (w, l))))"
  using assms
proof (induction prog arbitrary: w l)
  case (Receive k)
  obtain v w1 where v: "verify ctx r a w = (v, w1)" by fastforce
  show ?case
  proof (cases v)
    case None
    obtain x w2 where x: "ss_RecvMsg ss w1 = (x, w2)" by fastforce
    from Receive.IH [of "k x" "l @ [EvVerify r a True, EvRecv]" w2] Receive.prems v None x
    show ?thesis
      by (simp add: authServerStream_def authServerStream_RecvMsg_def log_verify_def log_stream_def
          mediated_snoc)
  next
    case (Some err)
    from Receive.IH [of "k (Inl err)" "l @ [EvVerify r a False]" w1] Receive.prems v Some
    show ?thesis
      by (simp add: authServerStream_def authServerStream_RecvMsg_def log_verify_def mediated_snoc)
  qed
next
  case (Send m k)
  obtain x w1 where x: "ss_SendMsg ss m w = (x, w1)" by fastforce
  from Send.IH [of "k x" "l @ [EvSend]" w1] Send.prems x show ?case
    by (simp add: authServerStream_def log_stream_def mediated_snoc)
qed simp

section \<open>What the interceptors promise for every endpoint\<close>

lemma pv_enrich_simps [ctx_simps]:
  "RequestIDFromContext (pv_enrich now rnd ctx) \<noteq> []"
  "ctx_incoming (pv_enrich now rnd ctx) = ctx_incoming ctx"
  "InterceptorRanFromContext (pv_enrich now rnd ctx) = InterceptorRanFromContext ctx"
  "PolicyFromContext (pv_enrich now rnd ctx) = PolicyFromContext ctx"
  "getToken (pv_enrich now rnd ctx) = getToken ctx"
  by (simp_all add: pv_enrich_tracked ctx_simps InterceptorRanFromContext_def PolicyFromContext_def
      getToken_incoming [of "tracked ''x-request-id'' now rnd ctx" ctx])

context verifier
begin

text \<open>A call that the interceptor itself ends carries one of the three codes.\<close>

lemma unary_outcome:
  "(\<exists>w'. pv_unary verify now rnd ctx req handler w = handler (pv_enrich now rnd ctx) req w') \<or>
   (\<exists>e w'. pv_unary verify now rnd ctx req handler w = ((None, Some e), w') \<and> verdict_error e)"
proof (cases "InterceptorRanFromContext ctx")
  case True
  show ?thesis
  proof (cases "PolicyFromContext ctx")
    case None
    with True show ?thesis by (auto simp: pv_unary_def Let_def ctx_simps)
  next
    case (Some p)
    obtain v w' where "verify (pv_enrich now rnd ctx) (Resource p) (Action p) w = (v, w')" by fastforce
    with True Some verdict [of "pv_enrich now rnd ctx" "Resource p" "Action p" w] show ?thesis
      by (cases v) (auto simp: pv_unary_def Let_def ctx_simps)
  qed
qed (auto simp: pv_unary_def Let_def ctx_simps pv_misconfigured_def)

end

context authenticating_verifier
begin

text \<open>A method with a policy is closed to callers without a token.\<close>

lemma unary_no_token:
  assumes "InterceptorRanFromContext ctx" "PolicyFromContext ctx = Some p" "getToken ctx = Inl err"
  shows "pv_unary verify now rnd ctx req handler w = ((None, Some (no_token_error err)), w)"
  using assms by (simp add: pv_unary_def Let_def ctx_simps no_token)

lemma stream_no_token:
  assumes "getToken ctx = Inl err"
  shows "authServerStream_RecvMsg verify ctx resource action ss w = (Inl (no_token_error err), w)"
  using assms by (simp add: authServerStream_RecvMsg_def no_token)

end

definition bearer_example :: go_ctx where
  "bearer_example = \<lparr>ctx_values = [], ctx_incoming = Some ((\<lambda>_. [])(''authorization'' := [''Bearer t'']))\<rparr>"

lemma bearer_example_token: "getToken bearer_example = Inr \<lparr>tok_TokenType = ''Bearer'', tok_Value = ''t''\<rparr>"
proof -
  have "no_space ''t''"
    by (rule no_space_ascii) (simp add: ascii_def byte_in_def unicode_IsSpace_def)
  then show ?thesis
    using getToken_pair [of bearer_example _ "''Bearer''" "''t''" "[]"] no_space_Bearer
    by (simp add: bearer_example_def)
qed

section \<open>Properties\<close>

text \<open>
  Complete mediation of unary calls. An interceptor can be built from any endpoint but \<open>nil\<close>.
  What a call then does, in order: without the mark of \<open>protobuf_policy_option\<close> nothing at all; without
  a policy the handler; with a policy one verification of exactly its resource and action, and
  the handler after it if and only if that verification granted access.
\<close>

theorem pv_Interceptor_mediates:
  "pv_Interceptor None opts = Panic ''verifierEndpoint must not be nil'' \<and>
   (\<exists>f. pv_Interceptor (Some (log_verify verify)) opts = Return f \<and>
      snd (snd (f now rnd ctx req (log_handler handler) (w, []))) =
        (if \<not> InterceptorRanFromContext ctx then []
         else case PolicyFromContext ctx of
             None \<Rightarrow> [EvHandler]
           | Some p \<Rightarrow>
               (if fst (verify (pv_enrich now rnd ctx) (Resource p) (Action p) w) = None
                then [EvVerify (Resource p) (Action p) True, EvHandler]
                else [EvVerify (Resource p) (Action p) False])))"
  by (auto simp: pv_Interceptor_def pv_unary_def Let_def ctx_simps log_verify_def log_handler_def
      split: option.splits prod.splits)

text \<open>
  What the caller and the handler get. The handler sees the request unchanged, in a context that
  has a non-empty request identifier and otherwise the values it had, and acts on the world
  the verification left; its reply is the reply of the call. A refused call yields the endpoint's
  own error and a misconfigured chain \<open>codes.Internal\<close>, both without a response.
\<close>

theorem pv_Interceptor_replies:
  "\<exists>ctx'. RequestIDFromContext ctx' \<noteq> [] \<and> PolicyFromContext ctx' = PolicyFromContext ctx \<and>
     ctx_incoming ctx' = ctx_incoming ctx \<and> getToken ctx' = getToken ctx \<and>
     pv_unary verify now rnd ctx req handler w =
       (if \<not> InterceptorRanFromContext ctx
        then ((None, Some (status_Error codes_Internal
               ''protobuf_policy_option.Interceptor is not registered in the interceptor chain'')), w)
        else case PolicyFromContext ctx of
            None \<Rightarrow> handler ctx' req w
          | Some p \<Rightarrow>
              (case verify ctx' (Resource p) (Action p) w of
                 (None, w') \<Rightarrow> handler ctx' req w'
               | (Some e, w') \<Rightarrow> ((None, Some e), w')))"
  by (rule exI [of _ "pv_enrich now rnd ctx"])
    (simp add: pv_unary_def Let_def ctx_simps pv_misconfigured_def split: option.split)

text \<open>
  Complete mediation of streams. Whatever the handler does with its stream, each message taken
  off the wire comes right after a verification of the policy's resource and action that
  granted access, so a revoked permission stops the stream at the next message. A stream
  without a policy is never verified, and without the mark of the policy interceptor the handler
  does not run.
\<close>

theorem pv_stream_mediates:
  "pv_StreamInterceptor (Some (log_verify verify)) opts = Return (pv_stream (log_verify verify)) \<and>
   (let (reply, w', trace) = pv_stream (log_verify verify) now rnd (log_stream ss) (run_prog prog) (w, [])
    in if \<not> InterceptorRanFromContext (ss_Context ss)
       then reply = Some pv_misconfigured \<and> w' = w \<and> trace = []
       else case PolicyFromContext (ss_Context ss) of
           Some p \<Rightarrow> mediated (Resource p) (Action p) trace
         | None \<Rightarrow> list_all (\<lambda>e. e = EvRecv \<or> e = EvSend) trace)"
proof -
  have unverified: "list_all (\<lambda>e. e = EvRecv \<or> e = EvSend)
      (snd (snd (run_prog prog (requestIDStream ctx (log_stream ss)) (w, l))))"
    if "list_all (\<lambda>e. e = EvRecv \<or> e = EvSend) l" for ctx w l
    using that
    by (induction prog arbitrary: w l) (simp_all add: requestIDStream_def log_stream_def split: prod.split)
  have ctx: "ss_Context (log_stream ss) = ss_Context ss" by (simp add: log_stream_def)
  show ?thesis
    using unverified [of "[]"] run_prog_mediated [of _ _ "[]"]
    by (auto simp: pv_StreamInterceptor_def pv_stream_def Let_def ctx ctx_simps case_prod_beta
        split: option.split)
qed

text \<open>
  Verification costs an allowed stream nothing but the verifications: under an endpoint that
  always allows, every handler receives, sends and returns exactly what it would on the
  stream itself.
\<close>

theorem pv_stream_allow_transparent:
  "InterceptorRanFromContext (ss_Context ss) \<Longrightarrow>
   pv_stream Allow now rnd ss (run_prog prog) w = run_prog prog ss w"
proof -
  have auth: "run_prog prog (authServerStream Allow ctx r a ss) w = run_prog prog ss w" for ctx r a w
    by (induction prog arbitrary: w)
      (auto simp: authServerStream_def authServerStream_RecvMsg_def Allow_def mock_Verify_def
        split: prod.split)
  have "run_prog prog (requestIDStream ctx ss) w = run_prog prog ss w" for ctx w
    by (induction prog arbitrary: w) (auto simp: requestIDStream_def split: prod.split)
  with auth show "InterceptorRanFromContext (ss_Context ss) \<Longrightarrow> ?thesis"
    by (simp add: pv_stream_def Let_def ctx_simps split: option.split)
qed

theorem pv_stream_allow_transparent_witness:
  "pv_stream Allow \<lparr>year = 2026, month = 1, day = 2, hour = 3, minute = 4, second = 5\<rparr> (replicate 16 0)
     \<lparr>ss_Context = markInterceptorRan \<lparr>ctx_values = [], ctx_incoming = None\<rparr>,
      ss_RecvMsg = (\<lambda>w. (Inr (), w + 1)), ss_SendMsg = (\<lambda>_ w. (None, w + 10))\<rparr>
     (run_prog (Receive (\<lambda>x. Send () (\<lambda>y. Finish y)))) (0 :: nat) = (None, 11)"
  by (subst pv_stream_allow_transparent) (simp_all add: ctx_simps)

text \<open>
  C31. A method with a policy is closed to callers without a usable token, whichever of the four
  endpoints verifies: the call ends with \<open>codes.Unauthenticated\<close>, the handler does not run, and neither
  the network nor anything else has been touched.
\<close>

theorem endpoints_closed_without_token:
  assumes "InterceptorRanFromContext ctx" "PolicyFromContext ctx = Some p" "getToken ctx = Inl err"
    and "verify = static_Verify s \<or> verify = rest_Verify n r \<or> verify = opa_Verify n o' \<or>
         verify = cedar_Verify n c"
  shows "pv_unary verify now rnd ctx req handler w =
    ((None, Some (status_Error codes_Unauthenticated (''failed to get authorization token: '' @ err))), w)"
  using assms(4) static.unary_no_token [OF assms(1-3)] rest.unary_no_token [OF assms(1-3)]
    opa.unary_no_token [OF assms(1-3)] cedar.unary_no_token [OF assms(1-3)]
  by (auto simp: no_token_error_def)

theorem endpoints_closed_without_token_witness:
  "pv_unary (static_Verify (NewStaticEndpoint [\<lparr>rule_Resource = ''*'', rule_Action = ''*''\<rparr>]))
     \<lparr>year = 2026, month = 1, day = 2, hour = 3, minute = 4, second = 5\<rparr> (replicate 16 0)
     (withPolicy (markInterceptorRan \<lparr>ctx_values = [], ctx_incoming = None\<rparr>) ''a'' ''b'') ()
     (\<lambda>ctx req w. ((Some (), None), w + 1)) (0 :: nat) =
   ((None, Some (status_Error codes_Unauthenticated
      ''failed to get authorization token: no metadata found in context'')), 0)"
  by (subst endpoints_closed_without_token) (auto simp: ctx_simps getToken_def)

text \<open>
  The codes a client can see from authorization. With any of the four endpoints a unary call
  either runs the handler or ends with a status error whose code is Unauthenticated,
  PermissionDenied or Internal; a transport failure, a malformed answer or an unknown HTTP status
  never surfaces as any other code and never runs the handler.
\<close>

theorem endpoints_status_codes:
  assumes "verify = static_Verify s \<or> verify = rest_Verify n r \<or> verify = opa_Verify n o' \<or>
           verify = cedar_Verify n c"
  shows "(\<exists>w'. pv_unary verify now rnd ctx req handler w = handler (pv_enrich now rnd ctx) req w') \<or>
    (\<exists>e w' code. pv_unary verify now rnd ctx req handler w = ((None, Some e), w') \<and>
       err_status e = Some code \<and>
       code \<in> {codes_Unauthenticated, codes_PermissionDenied, codes_Internal})"
proof -
  have "(\<exists>w'. pv_unary verify now rnd ctx req handler w = handler (pv_enrich now rnd ctx) req w') \<or>
    (\<exists>e w'. pv_unary verify now rnd ctx req handler w = ((None, Some e), w') \<and> verdict_error e)"
    using assms static.unary_outcome [of s now rnd ctx req handler w]
      rest.unary_outcome [of n r now rnd ctx req handler w]
      opa.unary_outcome [of n o' now rnd ctx req handler w]
      cedar.unary_outcome [of n c now rnd ctx req handler w] by (elim disjE) simp_all
  then show ?thesis by (auto simp: verdict_error_def verdict_code_def split: option.splits)
qed

theorem endpoints_status_codes_witness:
  "\<exists>e w' code. pv_unary (static_Verify (NewStaticEndpoint []))
     \<lparr>year = 2026, month = 1, day = 2, hour = 3, minute = 4, second = 5\<rparr> (replicate 16 0)
     \<lparr>ctx_values = [], ctx_incoming = None\<rparr> () (\<lambda>ctx req w. ((Some (), None), w + 1)) (0 :: nat) =
       ((None, Some e), w') \<and> err_status e = Some code \<and>
     code \<in> {codes_Unauthenticated, codes_PermissionDenied, codes_Internal}"
proof -
  have "\<not> InterceptorRanFromContext \<lparr>ctx_values = [], ctx_incoming = None\<rparr>"
    by (simp add: InterceptorRanFromContext_def context_Value_def)
  then show ?thesis
    using endpoints_status_codes [of "static_Verify (NewStaticEndpoint [])" "NewStaticEndpoint []"
        undefined undefined undefined undefined
        "\<lparr>year = 2026, month = 1, day = 2, hour = 3, minute = 4, second = 5\<rparr>" "replicate 16 0"
        "\<lparr>ctx_values = [], ctx_incoming = None\<rparr>" "()" "\<lambda>ctx req w. ((Some (), None), w + 1)" "0 :: nat"]
    by (auto simp: pv_unary_def Let_def ctx_simps)
qed

text \<open>
  C18. An endpoint that could be constructed can be asked. For each of the three HTTP endpoints, as its
  constructor returns it, a verification with a token always gets as far as sending its request to
  the URL of the endpoint: the branch for a request that cannot be created is dead. (Base URLs with
  IP literals are left aside.)
\<close>

theorem constructed_endpoints_ask:
  assumes "NewRESTEndpoint n base restOpts = Inr r" "NewOPAEndpoint n base policyPath opaOpts = Inr p"
    and "NewCedarAgentEndpoint n base cedarOpts = Inr c" and "CHR ''['' \<notin> set base"
    and "getToken ctx = Inr tok"
  shows "snd (rest_Verify n r ctx resource action w) =
      snd (http_Do n (rest_httpClient r) ctx (rest_request r ctx tok resource action) w) \<and>
    snd (opa_Verify n p ctx resource action w) =
      snd (http_Do n (opa_httpClient p) ctx (opa_request p ctx tok resource action) w) \<and>
    snd (cedar_Verify n c ctx resource action w) =
      snd (http_Do n (cedar_httpClient c) ctx (cedar_request c ctx tok resource action) w)"
proof -
  have "http_url_error n (rest_verifyURL r) = None" "http_url_error n (opa_evaluateURL p) = None"
    "http_url_error n (cedar_authorizeURL c) = None"
    using NewRESTEndpoint_url [OF assms(1,4)] NewOPAEndpoint_url [OF assms(2,4)]
      NewCedarAgentEndpoint_url [OF assms(3,4)] by (auto simp: http_url_error_def)
  with assms(5) show ?thesis
    by (simp add: rest_Verify_def opa_Verify_def cedar_Verify_def http_NewRequest_def rest_request_def
        opa_request_def cedar_request_def split: sum.split prod.split)
qed

definition counting_net :: "nat net" where
  "counting_net = \<lparr>url_literal = Inr, url_error_text = (\<lambda>u e. u), http_Do = (\<lambda>_ _ _ w. (Inl ''refused'', Suc w)),
     json_error = (\<lambda>_. [])\<rparr>"

theorem constructed_endpoints_ask_witness:
  "\<exists>r p c. NewRESTEndpoint counting_net ''http://opa'' [] = Inr r \<and>
     NewOPAEndpoint counting_net ''http://opa'' ''authz?x'' [] = Inr p \<and>
     NewCedarAgentEndpoint counting_net ''http://opa'' [] = Inr c \<and>
     snd (rest_Verify counting_net r bearer_example ''a'' ''b'' 0) = 1 \<and>
     snd (opa_Verify counting_net p bearer_example ''a'' ''b'' 0) = 1 \<and>
     snd (cedar_Verify counting_net c bearer_example ''a'' ''b'' 0) = 1"
proof -
  obtain r where r: "NewRESTEndpoint counting_net ''http://opa'' [] = Inr r"
    by (simp add: NewRESTEndpoint_def opa_example_text parse_base_opa Let_def)
  obtain p where p: "NewOPAEndpoint counting_net ''http://opa'' ''authz?x'' [] = Inr p"
    by (simp add: NewOPAEndpoint_def opa_example_text parse_base_opa Let_def)
  obtain c where c: "NewCedarAgentEndpoint counting_net ''http://opa'' [] = Inr c"
    by (simp add: NewCedarAgentEndpoint_def opa_example_text parse_base_opa Let_def)
  have "http_Do counting_net d x q w = (Inl ''refused'', Suc w)" for d x q w by (simp add: counting_net_def)
  with constructed_endpoints_ask [OF r p c _ bearer_example_token, of "''a''" "''b''" 0] r p c show ?thesis by auto
qed

end
