(* ===== verification/Interceptor_Chain.thy ===== *)
theory Interceptor_Chain
  imports Token_Introspection Policy_Verification
begin

text \<open>
  The interceptors composed in the order in which the README has a server install them, for unary calls
  and for streams, and what every call and every stream must leave behind in the log of
  verifications, handler calls and messages. The properties of the whole chain are stated in the root
  theory; the service of the end-to-end tests uses the lemmas here.
\<close>

section \<open>The interceptor chain\<close>

text \<open>
  The chains a server installs (README, "Interceptor chain"): the policy interceptor in front of
  the verification interceptor, and the full chain with request tracking and token introspection in
  front of both, each for unary calls and for streams.
\<close>

definition policy_chain ::
  "registry \<Rightarrow> ('m, 'fd, 'v) protoreflect \<Rightarrow> 'w verifier \<Rightarrow> civil \<Rightarrow> byte list \<Rightarrow> policy_cache \<Rightarrow> string \<Rightarrow>
   go_ctx \<Rightarrow> 'm request \<Rightarrow> ('m request, 'p, 'w) unary_handler \<Rightarrow> 'w \<Rightarrow> 'p reply \<times> policy_cache \<times> 'w" where
  "policy_chain reg pr verify now rnd cache fm ctx req handler w =
     po_Interceptor reg pr cache fm ctx req
       (\<lambda>ctx req w. pv_unary verify now rnd ctx req handler w) w"

definition policy_stream_chain ::
  "registry \<Rightarrow> 'w verifier \<Rightarrow> civil \<Rightarrow> byte list \<Rightarrow> policy_cache \<Rightarrow> string \<Rightarrow> ('m, 'w) ServerStream \<Rightarrow>
   ('m, 'w) stream_handler \<Rightarrow> 'w \<Rightarrow> go_error option \<times> policy_cache \<times> 'w" where
  "policy_stream_chain reg verify now rnd cache fm ss handler w =
     po_StreamInterceptor reg cache fm ss (\<lambda>ss w. pv_stream verify now rnd ss handler w) w"

definition authz_chain ::
  "(rt_config \<Rightarrow> rt_config) list \<Rightarrow> (rune \<Rightarrow> rune) \<Rightarrow> (policy_cache \<times> 'w) ti_Option list \<Rightarrow>
   registry \<Rightarrow> ('m, 'fd, 'v) protoreflect \<Rightarrow> 'w verifier \<Rightarrow> civil \<Rightarrow> byte list \<Rightarrow> string \<Rightarrow>
   go_ctx \<Rightarrow> 'm request \<Rightarrow> ('m request, 'p, 'w) unary_handler \<Rightarrow> policy_cache \<times> 'w \<Rightarrow>
   ('p reply \<times> policy_cache \<times> 'w) outcome" where
  "authz_chain rt_opts ulower ti_opts reg pr verify now rnd fm ctx req handler w =
     rt_Interceptor rt_opts now rnd ctx req
       (\<lambda>ctx req w. ti_Interceptor ulower ti_opts ctx req
          (\<lambda>ctx req (cache, w). policy_chain reg pr verify now rnd cache fm ctx req handler w) w) w"

definition authz_stream_chain ::
  "(rt_config \<Rightarrow> rt_config) list \<Rightarrow> (rune \<Rightarrow> rune) \<Rightarrow> (policy_cache \<times> 'w) ti_Option list \<Rightarrow>
   registry \<Rightarrow> 'w verifier \<Rightarrow> civil \<Rightarrow> byte list \<Rightarrow> string \<Rightarrow> ('m, 'w) ServerStream \<Rightarrow>
   ('m, 'w) stream_handler \<Rightarrow> policy_cache \<times> 'w \<Rightarrow> (go_error option \<times> policy_cache \<times> 'w) outcome" where
  "authz_stream_chain rt_opts ulower ti_opts reg verify now rnd fm ss handler w =
     rt_StreamInterceptor rt_opts now rnd ss
       (\<lambda>ss w. ti_StreamInterceptor ulower ti_opts ss
          (\<lambda>ss (cache, w). policy_stream_chain reg verify now rnd cache fm ss handler w) w) w"

section \<open>Complete mediation\<close>

text \<open>What a call must leave in the log, given what the registry declares for its method.\<close>

definition mandated ::
  "registry \<Rightarrow> ('m, 'fd, 'v) protoreflect \<Rightarrow> (string \<Rightarrow> string \<Rightarrow> bool) \<Rightarrow> string \<Rightarrow> 'm request \<Rightarrow> event list" where
  "mandated reg pr allowed fm req =
     (case lookupMethodPolicy reg fm of
        (_, Some _) \<Rightarrow> []
      | (None, None) \<Rightarrow> [EvHandler]
      | (Some policy, None) \<Rightarrow>
          (case resolveResourceFromRequest pr policy req of
             Inl _ \<Rightarrow> []
           | Inr p \<Rightarrow>
               if allowed (Resource p) (Action p)
               then [EvVerify (Resource p) (Action p) True, EvHandler]
               else [EvVerify (Resource p) (Action p) False]))"

lemma pv_unary_log:
  "snd (snd (pv_unary (log_verify verify) now rnd ctx req (log_handler handler) (w, l))) =
     l @ (if \<not> InterceptorRanFromContext ctx then []
          else case PolicyFromContext ctx of
              None \<Rightarrow> [EvHandler]
            | Some p \<Rightarrow>
                (if fst (verify (pv_enrich now rnd ctx) (Resource p) (Action p) w) = None
                 then [EvVerify (Resource p) (Action p) True, EvHandler]
                 else [EvVerify (Resource p) (Action p) False]))"
  by (auto simp: pv_unary_def Let_def ctx_simps log_verify_def log_handler_def
      split: option.splits prod.splits)

lemma policy_chain_log:
  assumes "policy_cache_ok reg cache" and "PolicyFromContext ctx = None"
  shows "\<exists>ctx2. RequestIDFromContext ctx2 \<noteq> [] \<and>
      (RequestIDFromContext ctx \<noteq> [] \<longrightarrow> RequestIDFromContext ctx2 = RequestIDFromContext ctx) \<and>
      ctx_incoming ctx2 = ctx_incoming ctx \<and>
      snd (snd (snd (policy_chain reg pr (log_verify verify) now rnd cache fm ctx req (log_handler handler) (w, l)))) =
        l @ mandated reg pr (\<lambda>r a. fst (verify ctx2 r a w) = None) fm req"
proof -
  from assms(1) obtain cache' where get: "getMethodPolicy reg cache fm = (lookupMethodPolicy reg fm, cache')"
    by (rule getMethodPolicy_coherent)
  obtain policy err where look: "lookupMethodPolicy reg fm = (policy, err)" by fastforce
  have enrich: "RequestIDFromContext (pv_enrich now rnd c) = RequestIDFromContext c"
    if "RequestIDFromContext c \<noteq> []" for c
    using that by (simp add: pv_enrich_tracked tracked_present)
  show ?thesis
  proof (cases "\<exists>p x. err = None \<and> policy = Some p \<and> resolveResourceFromRequest pr p req = Inr x")
    case True
    then obtain p x where p: "err = None" "policy = Some p" "resolveResourceFromRequest pr p req = Inr x" by blast
    let ?ctx = "withPolicy (markInterceptorRan ctx) (Resource x) (Action x)"
    have "\<lparr>Resource = Resource x, Action = Action x\<rparr> = x" by simp
    with p show ?thesis
      using enrich [of ?ctx]
      by (intro exI [of _ "pv_enrich now rnd ?ctx"])
        (simp add: policy_chain_def po_Interceptor_def get look Let_def case_prod_beta mandated_def
          pv_unary_log ctx_simps)
  next
    case False
    with assms(2) show ?thesis
      using enrich [of ctx]
      by (intro exI [of _ "pv_enrich now rnd ctx"])
        (auto simp: policy_chain_def po_Interceptor_def get look Let_def case_prod_beta mandated_def
          pv_unary_log ctx_simps split: option.split sum.split)
  qed
qed

lemma policy_stream_chain_log:
  assumes "policy_cache_ok reg cache" and "lookupMethodPolicy reg fm = (Some policy, None)"
  shows "let (reply, cache', w', trace) = policy_stream_chain reg (log_verify verify) now rnd cache fm
        (log_stream ss) (run_prog prog) (w, [])
    in policy_cache_ok reg cache' \<and>
       (if hasFieldMappings policy
        then trace = [] \<and> map_option err_status reply = Some (Some codes_Internal)
        else mediated (pb_Resource policy) (pb_Action policy) trace)"
proof -
  from assms(1) obtain cache' where get: "getMethodPolicy reg cache fm = (lookupMethodPolicy reg fm, cache')"
    and ok: "policy_cache_ok reg cache'" by (rule getMethodPolicy_coherent)
  show ?thesis
  proof (cases "hasFieldMappings policy")
    case True
    with ok get assms(2) show ?thesis
      by (simp add: policy_stream_chain_def po_StreamInterceptor_def Let_def fieldMappingsNotSupportedError_def)
  next
    case False
    let ?ctx = "withPolicy (markInterceptorRan (ss_Context ss)) (pb_Resource policy) (pb_Action policy)"
    have ss: "(log_stream ss)\<lparr>ss_Context := c\<rparr> = log_stream (ss\<lparr>ss_Context := c\<rparr>)" for c
      by (simp add: log_stream_def)
    have ctx: "ss_Context (log_stream ss) = ss_Context ss" by (simp add: log_stream_def)
    from run_prog_mediated [of "pb_Resource policy" "pb_Action policy" "[]" prog verify
        "pv_enrich now rnd ?ctx" "ss\<lparr>ss_Context := ?ctx\<rparr>" w] False ok get assms(2)
    show ?thesis
      by (auto simp: policy_stream_chain_def po_StreamInterceptor_def Let_def ss ctx pv_stream_def ctx_simps
          case_prod_beta) (simp add: log_stream_def)
  qed
qed

lemma authz_chain_log:
  assumes "introspect ulower (ti_buildConfig ti_opts) (tracked (snd (applyOptions rt_opts)) now rnd ctx)
      (cache, w, l) = Return ((ctx1, err), (cache1, w1, l))"
    and "policy_cache_ok reg cache1" and "PolicyFromContext ctx = None"
  shows "\<exists>ctx2 reply cache2 w2.
      RequestIDFromContext ctx2 = RequestIDFromContext (tracked (snd (applyOptions rt_opts)) now rnd ctx) \<and>
      ctx_incoming ctx2 = ctx_incoming ctx \<and>
      authz_chain rt_opts ulower ti_opts reg pr (log_verify verify) now rnd fm ctx req (log_handler handler)
        (cache, w, l) =
      Return (reply, cache2, w2,
        if err \<noteq> None then l else l @ mandated reg pr (\<lambda>r a. fst (verify ctx2 r a w1) = None) fm req)"
proof (cases err)
  case None
  let ?t = "tracked (snd (applyOptions rt_opts)) now rnd ctx"
  from introspect_preserves [OF assms(1)] have c1: "ctx_incoming ctx1 = ctx_incoming ?t"
    "RequestIDFromContext ctx1 = RequestIDFromContext ?t" "PolicyFromContext ctx1 = PolicyFromContext ?t"
    by (simp_all add: RequestIDFromContext_def PolicyFromContext_def)
  with assms(3) have "PolicyFromContext ctx1 = None" by (simp add: PolicyFromContext_def ctx_simps)
  from policy_chain_log [OF assms(2) this, of pr verify now rnd fm req handler w1 l] obtain ctx2 where
    "RequestIDFromContext ctx2 \<noteq> [] \<and> (RequestIDFromContext ctx1 \<noteq> [] \<longrightarrow>
      RequestIDFromContext ctx2 = RequestIDFromContext ctx1) \<and> ctx_incoming ctx2 = ctx_incoming ctx1"
    "snd (snd (snd (policy_chain reg pr (log_verify verify) now rnd cache1 fm ctx1 req (log_handler handler) (w1, l)))) =
      l @ mandated reg pr (\<lambda>r a. fst (verify ctx2 r a w1) = None) fm req" by auto
  with None c1 assms(1) show ?thesis
    by (intro exI [of _ ctx2])
      (simp add: authz_chain_def rt_Interceptor_tracked ti_Interceptor_def ctx_simps, metis prod.collapse)
next
  case (Some e)
  with assms(1) show ?thesis
    by (intro exI [of _ "tracked (snd (applyOptions rt_opts)) now rnd ctx"])
      (simp add: authz_chain_def rt_Interceptor_tracked ti_Interceptor_def ctx_simps)
qed

lemma log_stream_Context [simp]: "ss_Context (log_stream ss) = ss_Context ss"
  by (simp add: log_stream_def)

lemma authz_stream_chain_log:
  assumes "introspect ulower (ti_buildConfig ti_opts) (tracked (snd (applyOptions rt_opts)) now rnd (ss_Context ss))
      (cache, w, []) = Return ((ctx1, err), (cache1, w1, []))"
    and "policy_cache_ok reg cache1" and "lookupMethodPolicy reg fm = (Some policy, None)"
  shows "\<exists>reply cache2 w2 trace.
      authz_stream_chain rt_opts ulower ti_opts reg (log_verify verify) now rnd fm (log_stream ss) (run_prog prog)
        (cache, w, []) = Return (reply, cache2, w2, trace) \<and>
      (if err \<noteq> None then reply = err \<and> trace = []
       else if hasFieldMappings policy
       then trace = [] \<and> map_option err_status reply = Some (Some codes_Internal)
       else mediated (pb_Resource policy) (pb_Action policy) trace)"
proof (cases err)
  case None
  let ?ss = "log_stream (ss\<lparr>ss_Context := ctx1\<rparr>)"
  have ss: "(log_stream ss)\<lparr>ss_Context := ctx1\<rparr> = ?ss"
    by (simp add: log_stream_def)
  obtain reply cache2 w2 trace where p: "policy_stream_chain reg (log_verify verify) now rnd cache1 fm
      ?ss (run_prog prog) (w1, []) = (reply, cache2, w2, trace)"
    by (metis prod_cases4)
  have "authz_stream_chain rt_opts ulower ti_opts reg (log_verify verify) now rnd fm (log_stream ss) (run_prog prog)
      (cache, w, []) = Return (reply, cache2, w2, trace)"
    using assms(1) None
    by (simp add: authz_stream_chain_def rt_StreamInterceptor_tracked ti_StreamInterceptor_def ss p)
  with policy_stream_chain_log [OF assms(2,3), of verify now rnd "ss\<lparr>ss_Context := ctx1\<rparr>" prog w1] p None
  show ?thesis by (auto split: if_splits)
next
  case (Some e)
  with assms(1) show ?thesis
    by (simp add: authz_stream_chain_def rt_StreamInterceptor_tracked ti_StreamInterceptor_def)
qed

definition example_time :: civil where
  "example_time = \<lparr>year = 2026, month = 1, day = 2, hour = 3, minute = 4, second = 5\<rparr>"

definition no_ctx :: go_ctx where
  "no_ctx = \<lparr>ctx_values = [], ctx_incoming = None\<rparr>"

end
