(* ===== verification/Protobuf_Wire.thy ===== *)
theory Protobuf_Wire
  imports Policy_Option
begin

text \<open>
  The generated code carries its descriptors as bytes: a \<open>FileDescriptorProto\<close> in the protobuf wire
  format, which the protobuf runtime decodes when the program starts. The wire format (tags, varints
  and length-delimited fields) is given here as the encoding specification has it, with the fields
  of the descriptor messages that the policy lookup depends on. So what the registry holds for a
  service can be computed from the bytes in the source.
\<close>

section \<open>The wire format\<close>

text \<open>A varint: seven bits per byte, least significant first, at most ten bytes.\<close>

fun varint :: "nat \<Rightarrow> nat list \<Rightarrow> (nat \<times> nat list) option" where
  "varint i [] = None"
| "varint i (b # bs) =
     (if i = 10 then None
      else if b < 128 then Some (b, bs)
      else (case varint (i + 1) bs of None \<Rightarrow> None | Some (v, rest) \<Rightarrow> Some (b - 128 + 128 * v, rest)))"

lemma varint_shorter: "varint i bs = Some (v, rest) \<Longrightarrow> length rest < length bs"
  by (induction i bs arbitrary: v rest rule: varint.induct) (fastforce split: if_splits option.splits)+

datatype wire_value = WireVarint nat | WireFixed "nat list" | WireLen "nat list"

definition wire_field :: "nat list \<Rightarrow> ((nat \<times> wire_value) \<times> nat list) option" where
  "wire_field bs =
     (case varint 0 bs of
        None \<Rightarrow> None
      | Some (tag, rest) \<Rightarrow>
          (if tag mod 8 = 0 then
             (case varint 0 rest of
                None \<Rightarrow> None
              | Some (v, rest) \<Rightarrow> Some ((tag div 8, WireVarint v), rest))
           else if tag mod 8 = 1 then
             (if length rest < 8 then None else Some ((tag div 8, WireFixed (take 8 rest)), drop 8 rest))
           else if tag mod 8 = 5 then
             (if length rest < 4 then None else Some ((tag div 8, WireFixed (take 4 rest)), drop 4 rest))
           else if tag mod 8 = 2 then
             (case varint 0 rest of
                None \<Rightarrow> None
              | Some (n, rest) \<Rightarrow>
                  if length rest < n then None else Some ((tag div 8, WireLen (take n rest)), drop n rest))
           else None))"

lemma wire_field_shorter: "wire_field bs = Some (f, rest) \<Longrightarrow> length rest < length bs"
  by (auto simp: wire_field_def split: option.splits if_splits dest!: varint_shorter; linarith)

function wire_fields :: "nat list \<Rightarrow> (nat \<times> wire_value) list option" where
  "wire_fields bs =
     (if bs = [] then Some []
      else case wire_field bs of
          None \<Rightarrow> None
        | Some (f, rest) \<Rightarrow> map_option ((#) f) (wire_fields rest))"
  by auto
termination by (relation "measure length") (auto dest: wire_field_shorter)

declare wire_fields.simps [simp del]

lemma wire_fields_Nil [simp]: "wire_fields [] = Some []"
  by (simp add: wire_fields.simps)

text \<open>The submessages of a repeated field, and the last value of a string field.\<close>

fun sub_messages :: "nat \<Rightarrow> (nat \<times> wire_value) list \<Rightarrow> nat list list" where
  "sub_messages n [] = []"
| "sub_messages n ((k, WireLen bs) # fs) = (if k = n then bs # sub_messages n fs else sub_messages n fs)"
| "sub_messages n (f # fs) = sub_messages n fs"

definition string_field :: "nat \<Rightarrow> (nat \<times> wire_value) list \<Rightarrow> string" where
  "string_field n fs =
     (case sub_messages n fs of [] \<Rightarrow> [] | bss \<Rightarrow> map char_of (last bss))"

fun collect :: "'a option list \<Rightarrow> 'a list option" where
  "collect [] = Some []"
| "collect (x # xs) = (case (x, collect xs) of (Some y, Some ys) \<Rightarrow> Some (y # ys) | _ \<Rightarrow> None)"

section \<open>Descriptors\<close>

definition decode_FieldMapping :: "nat list \<Rightarrow> FieldMapping option" where
  "decode_FieldMapping bs =
     map_option (\<lambda>fs. \<lparr>Placeholder = string_field 1 fs, RequestField = string_field 2 fs\<rparr>) (wire_fields bs)"

definition decode_Policy :: "nat list \<Rightarrow> pb_Policy option" where
  "decode_Policy bs =
     (case wire_fields bs of
        None \<Rightarrow> None
      | Some fs \<Rightarrow>
          map_option (\<lambda>ms. \<lparr>pb_Resource = string_field 1 fs, pb_Action = string_field 2 fs, FieldMappings = ms\<rparr>)
            (collect (map decode_FieldMapping (sub_messages 3 fs))))"

text \<open>\<open>MethodOptions\<close>: the policy extension has number 50000. Unset options are an empty message.\<close>

definition decode_MethodOptions :: "nat list list \<Rightarrow> method_options option" where
  "decode_MethodOptions opts =
     (case wire_fields (concat opts) of
        None \<Rightarrow> None
      | Some fs \<Rightarrow>
          (case sub_messages 50000 fs of
             [] \<Rightarrow> Some (MethodOptions None)
           | bss \<Rightarrow> map_option (\<lambda>p. MethodOptions (Some (ExtPolicy p))) (decode_Policy (concat bss))))"

definition decode_Method :: "nat list \<Rightarrow> MethodDescriptor option" where
  "decode_Method bs =
     (case wire_fields bs of
        None \<Rightarrow> None
      | Some fs \<Rightarrow>
          map_option (\<lambda>opts. \<lparr>md_Name = string_field 1 fs, md_Options = opts\<rparr>)
            (decode_MethodOptions (sub_messages 4 fs)))"

definition decode_Service :: "string \<Rightarrow> nat list \<Rightarrow> ServiceDescriptor option" where
  "decode_Service package bs =
     (case wire_fields bs of
        None \<Rightarrow> None
      | Some fs \<Rightarrow>
          map_option (\<lambda>ms. \<lparr>svc_FullName = (if package = [] then [] else package @ ''.'') @ string_field 1 fs,
                            svc_Methods = ms\<rparr>)
            (collect (map decode_Method (sub_messages 2 fs))))"

definition decode_File :: "nat list \<Rightarrow> FileDescriptor option" where
  "decode_File bs =
     (case wire_fields bs of
        None \<Rightarrow> None
      | Some fs \<Rightarrow>
          map_option (\<lambda>svcs. \<lparr>fd_Services = svcs\<rparr>)
            (collect (map (decode_Service (string_field 2 fs)) (sub_messages 6 fs))))"

section \<open>The descriptor of the end-to-end test service\<close>

definition file_proto_test_service_proto_rawDesc :: "nat list" where
  "file_proto_test_service_proto_rawDesc =
     [0x0a, 0x18, 0x70, 0x72, 0x6f, 0x74, 0x6f, 0x2f, 0x74, 0x65, 0x73, 0x74, 0x5f, 0x73, 0x65, 0x72,
      0x76, 0x69, 0x63, 0x65, 0x2e, 0x70, 0x72, 0x6f, 0x74, 0x6f, 0x12, 0x07, 0x74, 0x65, 0x73, 0x74,
      0x2e, 0x76, 0x31, 0x1a, 0x13, 0x73, 0x63, 0x68, 0x65, 0x6d, 0x61, 0x2f, 0x70, 0x6f, 0x6c, 0x69,
      0x63, 0x79, 0x2e, 0x70, 0x72, 0x6f, 0x74, 0x6f, 0x22, 0x24, 0x0a, 0x12, 0x47, 0x65, 0x74, 0x52,
      0x65, 0x73, 0x6f, 0x75, 0x72, 0x63, 0x65, 0x52, 0x65, 0x71, 0x75, 0x65, 0x73, 0x74, 0x12, 0x0e,
      0x0a, 0x02, 0x69, 0x64, 0x18, 0x01, 0x20, 0x01, 0x28, 0x09, 0x52, 0x02, 0x69, 0x64, 0x22, 0x39,
      0x0a, 0x13, 0x47, 0x65, 0x74, 0x52, 0x65, 0x73, 0x6f, 0x75, 0x72, 0x63, 0x65, 0x52, 0x65, 0x73,
      0x70, 0x6f, 0x6e, 0x73, 0x65, 0x12, 0x0e, 0x0a, 0x02, 0x69, 0x64, 0x18, 0x01, 0x20, 0x01, 0x28,
      0x09, 0x52, 0x02, 0x69, 0x64, 0x12, 0x12, 0x0a, 0x04, 0x6e, 0x61, 0x6d, 0x65, 0x18, 0x02, 0x20,
      0x01, 0x28, 0x09, 0x52, 0x04, 0x6e, 0x61, 0x6d, 0x65, 0x22, 0x2b, 0x0a, 0x15, 0x43, 0x72, 0x65,
      0x61, 0x74, 0x65, 0x52, 0x65, 0x73, 0x6f, 0x75, 0x72, 0x63, 0x65, 0x52, 0x65, 0x71, 0x75, 0x65,
      0x73, 0x74, 0x12, 0x12, 0x0a, 0x04, 0x6e, 0x61, 0x6d, 0x65, 0x18, 0x01, 0x20, 0x01, 0x28, 0x09,
      0x52, 0x04, 0x6e, 0x61, 0x6d, 0x65, 0x22, 0x28, 0x0a, 0x16, 0x43, 0x72, 0x65, 0x61, 0x74, 0x65,
      0x52, 0x65, 0x73, 0x6f, 0x75, 0x72, 0x63, 0x65, 0x52, 0x65, 0x73, 0x70, 0x6f, 0x6e, 0x73, 0x65,
      0x12, 0x0e, 0x0a, 0x02, 0x69, 0x64, 0x18, 0x01, 0x20, 0x01, 0x28, 0x09, 0x52, 0x02, 0x69, 0x64,
      0x22, 0x14, 0x0a, 0x12, 0x48, 0x65, 0x61, 0x6c, 0x74, 0x68, 0x43, 0x68, 0x65, 0x63, 0x6b, 0x52,
      0x65, 0x71, 0x75, 0x65, 0x73, 0x74, 0x22, 0x2d, 0x0a, 0x13, 0x48, 0x65, 0x61, 0x6c, 0x74, 0x68,
      0x43, 0x68, 0x65, 0x63, 0x6b, 0x52, 0x65, 0x73, 0x70, 0x6f, 0x6e, 0x73, 0x65, 0x12, 0x16, 0x0a,
      0x06, 0x73, 0x74, 0x61, 0x74, 0x75, 0x73, 0x18, 0x01, 0x20, 0x01, 0x28, 0x09, 0x52, 0x06, 0x73,
      0x74, 0x61, 0x74, 0x75, 0x73, 0x32, 0xa1, 0x02, 0x0a, 0x0b, 0x54, 0x65, 0x73, 0x74, 0x53, 0x65,
      0x72, 0x76, 0x69, 0x63, 0x65, 0x12, 0x5e, 0x0a, 0x0b, 0x47, 0x65, 0x74, 0x52, 0x65, 0x73, 0x6f,
      0x75, 0x72, 0x63, 0x65, 0x12, 0x1b, 0x2e, 0x74, 0x65, 0x73, 0x74, 0x2e, 0x76, 0x31, 0x2e, 0x47,
      0x65, 0x74, 0x52, 0x65, 0x73, 0x6f, 0x75, 0x72, 0x63, 0x65, 0x52, 0x65, 0x71, 0x75, 0x65, 0x73,
      0x74, 0x1a, 0x1c, 0x2e, 0x74, 0x65, 0x73, 0x74, 0x2e, 0x76, 0x31, 0x2e, 0x47, 0x65, 0x74, 0x52,
      0x65, 0x73, 0x6f, 0x75, 0x72, 0x63, 0x65, 0x52, 0x65, 0x73, 0x70, 0x6f, 0x6e, 0x73, 0x65, 0x22,
      0x14, 0x82, 0xb5, 0x18, 0x10, 0x0a, 0x08, 0x72, 0x65, 0x73, 0x6f, 0x75, 0x72, 0x63, 0x65, 0x12,
      0x04, 0x72, 0x65, 0x61, 0x64, 0x12, 0x68, 0x0a, 0x0e, 0x43, 0x72, 0x65, 0x61, 0x74, 0x65, 0x52,
      0x65, 0x73, 0x6f, 0x75, 0x72, 0x63, 0x65, 0x12, 0x1e, 0x2e, 0x74, 0x65, 0x73, 0x74, 0x2e, 0x76,
      0x31, 0x2e, 0x43, 0x72, 0x65, 0x61, 0x74, 0x65, 0x52, 0x65, 0x73, 0x6f, 0x75, 0x72, 0x63, 0x65,
      0x52, 0x65, 0x71, 0x75, 0x65, 0x73, 0x74, 0x1a, 0x1f, 0x2e, 0x74, 0x65, 0x73, 0x74, 0x2e, 0x76,
      0x31, 0x2e, 0x43, 0x72, 0x65, 0x61, 0x74, 0x65, 0x52, 0x65, 0x73, 0x6f, 0x75, 0x72, 0x63, 0x65,
      0x52, 0x65, 0x73, 0x70, 0x6f, 0x6e, 0x73, 0x65, 0x22, 0x15, 0x82, 0xb5, 0x18, 0x11, 0x0a, 0x08,
      0x72, 0x65, 0x73, 0x6f, 0x75, 0x72, 0x63, 0x65, 0x12, 0x05, 0x77, 0x72, 0x69, 0x74, 0x65, 0x12,
      0x48, 0x0a, 0x0b, 0x48, 0x65, 0x61, 0x6c, 0x74, 0x68, 0x43, 0x68, 0x65, 0x63, 0x6b, 0x12, 0x1b,
      0x2e, 0x74, 0x65, 0x73, 0x74, 0x2e, 0x76, 0x31, 0x2e, 0x48, 0x65, 0x61, 0x6c, 0x74, 0x68, 0x43,
      0x68, 0x65, 0x63, 0x6b, 0x52, 0x65, 0x71, 0x75, 0x65, 0x73, 0x74, 0x1a, 0x1c, 0x2e, 0x74, 0x65,
      0x73, 0x74, 0x2e, 0x76, 0x31, 0x2e, 0x48, 0x65, 0x61, 0x6c, 0x74, 0x68, 0x43, 0x68, 0x65, 0x63,
      0x6b, 0x52, 0x65, 0x73, 0x70, 0x6f, 0x6e, 0x73, 0x65, 0x42, 0x33, 0x5a, 0x31, 0x67, 0x69, 0x74,
      0x68, 0x75, 0x62, 0x2e, 0x63, 0x6f, 0x6d, 0x2f, 0x6f, 0x33, 0x63, 0x6f, 0x2f, 0x67, 0x72, 0x70,
      0x63, 0x2e, 0x61, 0x75, 0x74, 0x68, 0x7a, 0x2f, 0x74, 0x65, 0x73, 0x74, 0x73, 0x2f, 0x65, 0x32,
      0x65, 0x2f, 0x70, 0x72, 0x6f, 0x74, 0x6f, 0x3b, 0x74, 0x65, 0x73, 0x74, 0x70, 0x62, 0x62, 0x06,
      0x70, 0x72, 0x6f, 0x74, 0x6f, 0x33]"

definition test_registry :: registry where
  "test_registry =
     [\<lparr>fd_Services =
        [\<lparr>svc_FullName = ''test.v1.TestService'',
          svc_Methods =
            [\<lparr>md_Name = ''GetResource'',
              md_Options = MethodOptions (Some (ExtPolicy
                \<lparr>pb_Resource = ''resource'', pb_Action = ''read'', FieldMappings = []\<rparr>))\<rparr>,
             \<lparr>md_Name = ''CreateResource'',
              md_Options = MethodOptions (Some (ExtPolicy
                \<lparr>pb_Resource = ''resource'', pb_Action = ''write'', FieldMappings = []\<rparr>))\<rparr>,
             \<lparr>md_Name = ''HealthCheck'', md_Options = MethodOptions None\<rparr>]\<rparr>]\<rparr>]"

lemmas wire_eval =
  wire_fields.simps wire_field_def string_field_def char_of_def bit_Suc_0_iff

text \<open>
  The policies compiled into the test service are those its schema declares: decoding the
  descriptor bytes of the generated code yields the service with its three methods, the policies of
  \<open>GetResource\<close> and \<open>CreateResource\<close>, and none for \<open>HealthCheck\<close>.
\<close>

theorem test_registry_decoded:
  "map decode_File [file_proto_test_service_proto_rawDesc] = map Some test_registry"
  by (simp add: file_proto_test_service_proto_rawDesc_def decode_File_def decode_Service_def decode_Method_def
      decode_MethodOptions_def decode_Policy_def test_registry_def wire_eval)

section \<open>The descriptor of the policy schema\<close>

definition file_policy_proto_rawDesc :: "nat list" where
  "file_policy_proto_rawDesc =
     [0x0a, 0x0c, 0x70, 0x6f, 0x6c, 0x69, 0x63, 0x79, 0x2e, 0x70, 0x72, 0x6f, 0x74, 0x6f, 0x12, 0x0d,
      0x6f, 0x33, 0x63, 0x6f, 0x2e, 0x61, 0x75, 0x74, 0x68, 0x7a, 0x2e, 0x76, 0x31, 0x1a, 0x20, 0x67,
      0x6f, 0x6f, 0x67, 0x6c, 0x65, 0x2f, 0x70, 0x72, 0x6f, 0x74, 0x6f, 0x62, 0x75, 0x66, 0x2f, 0x64,
      0x65, 0x73, 0x63, 0x72, 0x69, 0x70, 0x74, 0x6f, 0x72, 0x2e, 0x70, 0x72, 0x6f, 0x74, 0x6f, 0x22,
      0x55, 0x0a, 0x0c, 0x46, 0x69, 0x65, 0x6c, 0x64, 0x4d, 0x61, 0x70, 0x70, 0x69, 0x6e, 0x67, 0x12,
      0x20, 0x0a, 0x0b, 0x70, 0x6c, 0x61, 0x63, 0x65, 0x68, 0x6f, 0x6c, 0x64, 0x65, 0x72, 0x18, 0x01,
      0x20, 0x01, 0x28, 0x09, 0x52, 0x0b, 0x70, 0x6c, 0x61, 0x63, 0x65, 0x68, 0x6f, 0x6c, 0x64, 0x65,
      0x72, 0x12, 0x23, 0x0a, 0x0d, 0x72, 0x65, 0x71, 0x75, 0x65, 0x73, 0x74, 0x5f, 0x66, 0x69, 0x65,
      0x6c, 0x64, 0x18, 0x02, 0x20, 0x01, 0x28, 0x09, 0x52, 0x0c, 0x72, 0x65, 0x71, 0x75, 0x65, 0x73,
      0x74, 0x46, 0x69, 0x65, 0x6c, 0x64, 0x22, 0x80, 0x01, 0x0a, 0x06, 0x50, 0x6f, 0x6c, 0x69, 0x63,
      0x79, 0x12, 0x1a, 0x0a, 0x08, 0x72, 0x65, 0x73, 0x6f, 0x75, 0x72, 0x63, 0x65, 0x18, 0x01, 0x20,
      0x01, 0x28, 0x09, 0x52, 0x08, 0x72, 0x65, 0x73, 0x6f, 0x75, 0x72, 0x63, 0x65, 0x12, 0x16, 0x0a,
      0x06, 0x61, 0x63, 0x74, 0x69, 0x6f, 0x6e, 0x18, 0x02, 0x20, 0x01, 0x28, 0x09, 0x52, 0x06, 0x61,
      0x63, 0x74, 0x69, 0x6f, 0x6e, 0x12, 0x42, 0x0a, 0x0e, 0x66, 0x69, 0x65, 0x6c, 0x64, 0x5f, 0x6d,
      0x61, 0x70, 0x70, 0x69, 0x6e, 0x67, 0x73, 0x18, 0x03, 0x20, 0x03, 0x28, 0x0b, 0x32, 0x1b, 0x2e,
      0x6f, 0x33, 0x63, 0x6f, 0x2e, 0x61, 0x75, 0x74, 0x68, 0x7a, 0x2e, 0x76, 0x31, 0x2e, 0x46, 0x69,
      0x65, 0x6c, 0x64, 0x4d, 0x61, 0x70, 0x70, 0x69, 0x6e, 0x67, 0x52, 0x0d, 0x66, 0x69, 0x65, 0x6c,
      0x64, 0x4d, 0x61, 0x70, 0x70, 0x69, 0x6e, 0x67, 0x73, 0x3a, 0x4f, 0x0a, 0x06, 0x70, 0x6f, 0x6c,
      0x69, 0x63, 0x79, 0x12, 0x1e, 0x2e, 0x67, 0x6f, 0x6f, 0x67, 0x6c, 0x65, 0x2e, 0x70, 0x72, 0x6f,
      0x74, 0x6f, 0x62, 0x75, 0x66, 0x2e, 0x4d, 0x65, 0x74, 0x68, 0x6f, 0x64, 0x4f, 0x70, 0x74, 0x69,
      0x6f, 0x6e, 0x73, 0x18, 0xd0, 0x86, 0x03, 0x20, 0x01, 0x28, 0x0b, 0x32, 0x15, 0x2e, 0x6f, 0x33,
      0x63, 0x6f, 0x2e, 0x61, 0x75, 0x74, 0x68, 0x7a, 0x2e, 0x76, 0x31, 0x2e, 0x50, 0x6f, 0x6c, 0x69,
      0x63, 0x79, 0x52, 0x06, 0x70, 0x6f, 0x6c, 0x69, 0x63, 0x79, 0x42, 0x41, 0x5a, 0x3f, 0x67, 0x69,
      0x74, 0x68, 0x75, 0x62, 0x2e, 0x63, 0x6f, 0x6d, 0x2f, 0x6f, 0x33, 0x63, 0x6f, 0x2f, 0x67, 0x72,
      0x70, 0x63, 0x2e, 0x61, 0x75, 0x74, 0x68, 0x7a, 0x2f, 0x70, 0x72, 0x6f, 0x74, 0x6f, 0x62, 0x75,
      0x66, 0x5f, 0x70, 0x6f, 0x6c, 0x69, 0x63, 0x79, 0x5f, 0x6f, 0x70, 0x74, 0x69, 0x6f, 0x6e, 0x2f,
      0x73, 0x63, 0x68, 0x65, 0x6d, 0x61, 0x3b, 0x70, 0x6f, 0x6c, 0x69, 0x63, 0x79, 0x62, 0x06, 0x70,
      0x72, 0x6f, 0x74, 0x6f, 0x33]"

text \<open>
  Names and numbers of the fields of a message (\<open>DescriptorProto\<close> and \<open>FieldDescriptorProto\<close>), and of the
  extensions that a file declares.
\<close>

fun varint_field :: "nat \<Rightarrow> (nat \<times> wire_value) list \<Rightarrow> nat" where
  "varint_field n [] = 0"
| "varint_field n ((k, WireVarint v) # fs) = (if k = n then v else varint_field n fs)"
| "varint_field n (f # fs) = varint_field n fs"

definition decode_field :: "nat list \<Rightarrow> (string \<times> nat) option" where
  "decode_field bs = map_option (\<lambda>fs. (string_field 1 fs, varint_field 3 fs)) (wire_fields bs)"

definition decode_message :: "nat list \<Rightarrow> (string \<times> (string \<times> nat) list) option" where
  "decode_message bs =
     (case wire_fields bs of
        None \<Rightarrow> None
      | Some fs \<Rightarrow> map_option (Pair (string_field 1 fs)) (collect (map decode_field (sub_messages 2 fs))))"

definition decode_schema :: "nat list \<Rightarrow> ((string \<times> (string \<times> nat) list) list \<times> (string \<times> nat) list) option" where
  "decode_schema bs =
     (case wire_fields bs of
        None \<Rightarrow> None
      | Some fs \<Rightarrow>
          (case (collect (map decode_message (sub_messages 4 fs)), collect (map decode_field (sub_messages 7 fs))) of
             (Some ms, Some es) \<Rightarrow> Some (ms, es)
           | _ \<Rightarrow> None))"

definition E_Policy :: "string \<times> nat" where
  "E_Policy = (''policy'', 50000)"

text \<open>
  The field numbers with which policies are read are those of the schema in the generated code:
  \<open>Policy\<close> has \<open>resource\<close>, \<open>action\<close> and \<open>field_mappings\<close> as fields 1 to 3, \<open>FieldMapping\<close> has \<open>placeholder\<close> and
  \<open>request_field\<close> as 1 and 2, and the extension of \<open>MethodOptions\<close> is field 50000.
\<close>

theorem policy_schema_decoded:
  "decode_schema file_policy_proto_rawDesc =
   Some ([(''FieldMapping'', [(''placeholder'', 1), (''request_field'', 2)]),
          (''Policy'', [(''resource'', 1), (''action'', 2), (''field_mappings'', 3)])], [E_Policy])"
  by (simp add: file_policy_proto_rawDesc_def decode_schema_def decode_message_def decode_field_def
      E_Policy_def wire_eval)

end
