(* ===== verification/E2E_Service.thy ===== *)
theory E2E_Service
  imports Interceptor_Chain Protobuf_Wire
begin

text \<open>
  The service of the end-to-end tests, as the generated code under \<open>tests/e2e/proto\<close> and
  \<open>protobuf_policy_option/schema\<close> has it: messages and their getters, the client and server
  interfaces, the three method handlers and the service description that registers them. The
  handlers are put behind the full interceptor chain, with the policies that the bytes of the
  descriptor declare, so that the properties of the chain become statements about calls to a
  service. A pointer to a message is an option; the fields that only the protobuf runtime uses
  are left out.
\<close>

section \<open>Messages\<close>

definition Policy_GetResource :: "pb_Policy option \<Rightarrow> string" where
  "Policy_GetResource x = (case x of Some m \<Rightarrow> pb_Resource m | None \<Rightarrow> [])"

definition Policy_GetAction :: "pb_Policy option \<Rightarrow> string" where
  "Policy_GetAction x = (case x of Some m \<Rightarrow> pb_Action m | None \<Rightarrow> [])"

definition Policy_GetFieldMappings :: "pb_Policy option \<Rightarrow> FieldMapping list" where
  "Policy_GetFieldMappings x = (case x of Some m \<Rightarrow> FieldMappings m | None \<Rightarrow> [])"

definition FieldMapping_GetPlaceholder :: "FieldMapping option \<Rightarrow> string" where
  "FieldMapping_GetPlaceholder x = (case x of Some m \<Rightarrow> Placeholder m | None \<Rightarrow> [])"

definition FieldMapping_GetRequestField :: "FieldMapping option \<Rightarrow> string" where
  "FieldMapping_GetRequestField x = (case x of Some m \<Rightarrow> RequestField m | None \<Rightarrow> [])"

record GetResourceRequest =
  GetResourceRequest_Id :: string

record GetResourceResponse =
  GetResourceResponse_Id :: string
  GetResourceResponse_Name :: string

record CreateResourceRequest =
  CreateResourceRequest_Name :: string

record CreateResourceResponse =
  CreateResourceResponse_Id :: string

datatype HealthCheckRequest = HealthCheckRequest

record HealthCheckResponse =
  HealthCheckResponse_Status :: string

definition GetResourceRequest_GetId :: "GetResourceRequest option \<Rightarrow> string" where
  "GetResourceRequest_GetId x = (case x of Some m \<Rightarrow> GetResourceRequest_Id m | None \<Rightarrow> [])"

definition GetResourceResponse_GetId :: "GetResourceResponse option \<Rightarrow> string" where
  "GetResourceResponse_GetId x = (case x of Some m \<Rightarrow> GetResourceResponse_Id m | None \<Rightarrow> [])"

definition GetResourceResponse_GetName :: "GetResourceResponse option \<Rightarrow> string" where
  "GetResourceResponse_GetName x = (case x of Some m \<Rightarrow> GetResourceResponse_Name m | None \<Rightarrow> [])"

definition CreateResourceRequest_GetName :: "CreateResourceRequest option \<Rightarrow> string" where
  "CreateResourceRequest_GetName x = (case x of Some m \<Rightarrow> CreateResourceRequest_Name m | None \<Rightarrow> [])"

definition CreateResourceResponse_GetId :: "CreateResourceResponse option \<Rightarrow> string" where
  "CreateResourceResponse_GetId x = (case x of Some m \<Rightarrow> CreateResourceResponse_Id m | None \<Rightarrow> [])"

definition HealthCheckResponse_GetStatus :: "HealthCheckResponse option \<Rightarrow> string" where
  "HealthCheckResponse_GetStatus x = (case x of Some m \<Rightarrow> HealthCheckResponse_Status m | None \<Rightarrow> [])"

text \<open>A value of one of these types behind an interface.\<close>

datatype test_message =
    MGetResourceRequest GetResourceRequest
  | MGetResourceResponse GetResourceResponse
  | MCreateResourceRequest CreateResourceRequest
  | MCreateResourceResponse CreateResourceResponse
  | MHealthCheckRequest HealthCheckRequest
  | MHealthCheckResponse HealthCheckResponse

section \<open>Client and server\<close>

definition TestService_GetResource_FullMethodName :: string where
  "TestService_GetResource_FullMethodName = ''/test.v1.TestService/GetResource''"

definition TestService_CreateResource_FullMethodName :: string where
  "TestService_CreateResource_FullMethodName = ''/test.v1.TestService/CreateResource''"

definition TestService_HealthCheck_FullMethodName :: string where
  "TestService_HealthCheck_FullMethodName = ''/test.v1.TestService/HealthCheck''"

text \<open>
  A client stub calls \<open>Invoke\<close> of its connection, which fills in the response or fails; the
  connection is the argument \<open>invoke\<close>.
\<close>

definition client_call ::
  "(go_ctx \<Rightarrow> string \<Rightarrow> 'i \<Rightarrow> 'w \<Rightarrow> ('o \<times> go_error option) \<times> 'w) \<Rightarrow> string \<Rightarrow> go_ctx \<Rightarrow> 'i \<Rightarrow> 'w \<Rightarrow> 'o reply \<times> 'w" where
  "client_call invoke meth ctx in_msg w =
     (case invoke ctx meth in_msg w of
        ((out, Some err), w') \<Rightarrow> ((None, Some err), w')
      | ((out, None), w') \<Rightarrow> ((Some out, None), w'))"

definition testServiceClient_GetResource ::
  "(go_ctx \<Rightarrow> string \<Rightarrow> GetResourceRequest \<Rightarrow> 'w \<Rightarrow> (GetResourceResponse \<times> go_error option) \<times> 'w) \<Rightarrow>
   go_ctx \<Rightarrow> GetResourceRequest \<Rightarrow> 'w \<Rightarrow> GetResourceResponse reply \<times> 'w" where
  "testServiceClient_GetResource invoke = client_call invoke TestService_GetResource_FullMethodName"

definition testServiceClient_CreateResource ::
  "(go_ctx \<Rightarrow> string \<Rightarrow> CreateResourceRequest \<Rightarrow> 'w \<Rightarrow> (CreateResourceResponse \<times> go_error option) \<times> 'w) \<Rightarrow>
   go_ctx \<Rightarrow> CreateResourceRequest \<Rightarrow> 'w \<Rightarrow> CreateResourceResponse reply \<times> 'w" where
  "testServiceClient_CreateResource invoke = client_call invoke TestService_CreateResource_FullMethodName"

definition testServiceClient_HealthCheck ::
  "(go_ctx \<Rightarrow> string \<Rightarrow> HealthCheckRequest \<Rightarrow> 'w \<Rightarrow> (HealthCheckResponse \<times> go_error option) \<times> 'w) \<Rightarrow>
   go_ctx \<Rightarrow> HealthCheckRequest \<Rightarrow> 'w \<Rightarrow> HealthCheckResponse reply \<times> 'w" where
  "testServiceClient_HealthCheck invoke = client_call invoke TestService_HealthCheck_FullMethodName"

record 'w TestServiceServer =
  srv_GetResource :: "(GetResourceRequest, GetResourceResponse, 'w) unary_handler"
  srv_CreateResource :: "(CreateResourceRequest, CreateResourceResponse, 'w) unary_handler"
  srv_HealthCheck :: "(HealthCheckRequest, HealthCheckResponse, 'w) unary_handler"

text \<open>\<open>codes.Unimplemented\<close> is code 12.\<close>

definition UnimplementedTestServiceServer :: "'w TestServiceServer" where
  "UnimplementedTestServiceServer =
     \<lparr>srv_GetResource = (\<lambda>ctx req w.
        ((None, Some (status_Error (codes_Other 12) ''method GetResource not implemented'')), w)),
      srv_CreateResource = (\<lambda>ctx req w.
        ((None, Some (status_Error (codes_Other 12) ''method CreateResource not implemented'')), w)),
      srv_HealthCheck = (\<lambda>ctx req w.
        ((None, Some (status_Error (codes_Other 12) ''method HealthCheck not implemented'')), w))\<rparr>"

section \<open>Method handlers\<close>

text \<open>
  \<open>dec\<close> decodes the bytes of the request into a message of the type it is given. An interceptor
  gets the full method name and the handler, in a world that also has the state \<open>'c\<close> of the
  interceptors. The handler asserts the type of the request it is handed; a failed assertion is
  a panic, which no interceptor recovers, and travels as the response value.
\<close>

record decoder =
  dec_GetResourceRequest :: "go_error + GetResourceRequest"
  dec_CreateResourceRequest :: "go_error + CreateResourceRequest"
  dec_HealthCheckRequest :: "go_error + HealthCheckRequest"

type_synonym ('c, 'w) server_interceptor =
  "string \<Rightarrow> go_ctx \<Rightarrow> test_message request \<Rightarrow>
   (test_message request, test_message outcome, 'w) unary_handler \<Rightarrow>
   'c \<times> 'w \<Rightarrow> (test_message outcome reply \<times> 'c \<times> 'w) outcome"

type_synonym ('c, 'w) method_handler =
  "'w TestServiceServer \<Rightarrow> go_ctx \<Rightarrow> decoder \<Rightarrow> ('c, 'w) server_interceptor option \<Rightarrow>
   'c \<times> 'w \<Rightarrow> (test_message reply \<times> 'c \<times> 'w) outcome"

definition settle :: "(test_message outcome reply \<times> 'c \<times> 'w) outcome \<Rightarrow> (test_message reply \<times> 'c \<times> 'w) outcome" where
  "settle r =
     (case r of
        Panic m \<Rightarrow> Panic m
      | Return ((Some (Panic m), _), _) \<Rightarrow> Panic m
      | Return ((Some (Return x), err), s) \<Rightarrow> Return ((Some x, err), s)
      | Return ((None, err), s) \<Rightarrow> Return ((None, err), s))"

definition asserted ::
  "(test_message \<Rightarrow> 'i option) \<Rightarrow> ('o \<Rightarrow> test_message) \<Rightarrow> ('i, 'o, 'w) unary_handler \<Rightarrow>
   (test_message request, test_message outcome, 'w) unary_handler" where
  "asserted unwrap wrap call ctx req w =
     (case req of
        ProtoMessage m \<Rightarrow>
          (case unwrap m of
             Some x \<Rightarrow> (let ((resp, err), w') = call ctx x w in ((map_option (Return \<circ> wrap) resp, err), w'))
           | None \<Rightarrow> ((Some (Panic ''interface conversion''), None), w))
      | NonProto t \<Rightarrow> ((Some (Panic ''interface conversion''), None), w))"

definition unary_method ::
  "string \<Rightarrow> ('i \<Rightarrow> test_message) \<Rightarrow> (test_message \<Rightarrow> 'i option) \<Rightarrow> ('o \<Rightarrow> test_message) \<Rightarrow>
   ('i, 'o, 'w) unary_handler \<Rightarrow> go_error + 'i \<Rightarrow> go_ctx \<Rightarrow> ('c, 'w) server_interceptor option \<Rightarrow>
   'c \<times> 'w \<Rightarrow> (test_message reply \<times> 'c \<times> 'w) outcome" where
  "unary_method fullMethod wrap_in unwrap wrap call dec ctx interceptor s =
     (case dec of
        Inl err \<Rightarrow> Return ((None, Some err), s)
      | Inr in_msg \<Rightarrow>
          (case interceptor of
             None \<Rightarrow>
               (let ((resp, err), w') = call ctx in_msg (snd s)
                in Return ((map_option wrap resp, err), fst s, w'))
           | Some icpt \<Rightarrow>
               settle (icpt fullMethod ctx (ProtoMessage (wrap_in in_msg)) (asserted unwrap wrap call) s)))"

definition TestService_GetResource_Handler :: "('c, 'w) method_handler" where
  "TestService_GetResource_Handler srv ctx dec =
     unary_method TestService_GetResource_FullMethodName MGetResourceRequest
       (\<lambda>m. case m of MGetResourceRequest x \<Rightarrow> Some x | _ \<Rightarrow> None) MGetResourceResponse
       (srv_GetResource srv) (dec_GetResourceRequest dec) ctx"

definition TestService_CreateResource_Handler :: "('c, 'w) method_handler" where
  "TestService_CreateResource_Handler srv ctx dec =
     unary_method TestService_CreateResource_FullMethodName MCreateResourceRequest
       (\<lambda>m. case m of MCreateResourceRequest x \<Rightarrow> Some x | _ \<Rightarrow> None) MCreateResourceResponse
       (srv_CreateResource srv) (dec_CreateResourceRequest dec) ctx"

definition TestService_HealthCheck_Handler :: "('c, 'w) method_handler" where
  "TestService_HealthCheck_Handler srv ctx dec =
     unary_method TestService_HealthCheck_FullMethodName MHealthCheckRequest
       (\<lambda>m. case m of MHealthCheckRequest x \<Rightarrow> Some x | _ \<Rightarrow> None) MHealthCheckResponse
       (srv_HealthCheck srv) (dec_HealthCheckRequest dec) ctx"

record ('c, 'w) ServiceDesc =
  ServiceName :: string
  Methods :: "(string \<times> ('c, 'w) method_handler) list"

definition TestService_ServiceDesc :: "('c, 'w) ServiceDesc" where
  "TestService_ServiceDesc =
     \<lparr>ServiceName = ''test.v1.TestService'',
      Methods =
        [(''GetResource'', TestService_GetResource_Handler),
         (''CreateResource'', TestService_CreateResource_Handler),
         (''HealthCheck'', TestService_HealthCheck_Handler)]\<rparr>"

section \<open>The policies of the service\<close>

text \<open>What \<open>test_service.proto\<close> declares for each method: resource and action, or nothing.\<close>

definition declared :: "string \<Rightarrow> (string \<times> string) option" where
  "declared = [''GetResource'' \<mapsto> (''resource'', ''read''), ''CreateResource'' \<mapsto> (''resource'', ''write'')]"

lemma lookup_test_registry:
  assumes "registry_unique reg" and "hd test_registry \<in> set reg"
    and "meth \<in> {''GetResource'', ''CreateResource'', ''HealthCheck''}"
  shows "lookupMethodPolicy reg (''/test.v1.TestService/'' @ meth) =
    (map_option (\<lambda>(r, a). \<lparr>pb_Resource = r, pb_Action = a, FieldMappings = []\<rparr>) (declared meth), None)"
proof -
  define svc where "svc = hd (fd_Services (hd test_registry))"
  have svcs: "fd_Services (hd test_registry) = [svc]" "svc_FullName svc = ''test.v1.TestService''"
    by (simp_all add: svc_def test_registry_def)
  have "(''test.v1.TestService'', svc) \<in> set (services_of reg)"
    using assms(2) svcs by (force simp: services_of_def)
  with assms(1) have "range_files ''test.v1.TestService'' reg = Some svc"
    by (simp add: range_files_map_of registry_unique_def)
  moreover have "parseFullMethodName (''/test.v1.TestService/'' @ meth) =
      Inr \<lparr>Service = ''test.v1.TestService'', Method = meth\<rparr>"
    using parse_slash [of meth "''test.v1.TestService''"] assms(3) by auto
  ultimately show ?thesis
    using assms(3)
    by (auto simp: lookupMethodPolicy_def Methods_ByName_def svc_def test_registry_def declared_def)
qed

section \<open>The service behind the chain\<close>

definition log_server :: "'w TestServiceServer \<Rightarrow> ('w \<times> event list) TestServiceServer" where
  "log_server srv =
     \<lparr>srv_GetResource = log_handler (srv_GetResource srv),
      srv_CreateResource = log_handler (srv_CreateResource srv),
      srv_HealthCheck = log_handler (srv_HealthCheck srv)\<rparr>"

text \<open>The interceptors hand the request on as they got it.\<close>

lemma policy_chain_cong:
  "(\<And>ctx w. h ctx req w = h' ctx req w) \<Longrightarrow>
   policy_chain reg pr verify now rnd cache fm ctx req h w = policy_chain reg pr verify now rnd cache fm ctx req h' w"
  by (simp add: policy_chain_def po_Interceptor_def pv_unary_def Let_def
      split: option.split sum.split prod.split)

lemma authz_chain_cong:
  assumes "\<And>ctx w. h ctx req w = h' ctx req w"
  shows "authz_chain rt_opts ulower ti_opts reg pr verify now rnd fm ctx req h s =
   authz_chain rt_opts ulower ti_opts reg pr verify now rnd fm ctx req h' s"
proof -
  have "policy_chain reg pr verify now rnd c fm ctx' req h w = policy_chain reg pr verify now rnd c fm ctx' req h' w"
    for c ctx' w
    by (rule policy_chain_cong) (rule assms)
  then show ?thesis
    by (simp add: authz_chain_def rt_Interceptor_tracked ti_Interceptor_def
        split: outcome.split prod.split option.split)
qed

lemma asserted_log:
  "unwrap m = Some x \<Longrightarrow>
   asserted unwrap wrap (log_handler call) ctx (ProtoMessage m) s =
   log_handler (asserted unwrap wrap call) ctx (ProtoMessage m) s"
  by (simp add: asserted_def log_handler_def Let_def split: prod.split)

text \<open>What a call to a method of the service must leave in the log.\<close>

definition service_trace :: "(string \<Rightarrow> string \<Rightarrow> bool) \<Rightarrow> string \<Rightarrow> event list" where
  "service_trace allowed meth =
     (case declared meth of
        None \<Rightarrow> [EvHandler]
      | Some (r, a) \<Rightarrow> if allowed r a then [EvVerify r a True, EvHandler] else [EvVerify r a False])"

lemma mandated_service:
  assumes "registry_unique reg" and "hd test_registry \<in> set reg"
    and "meth \<in> {''GetResource'', ''CreateResource'', ''HealthCheck''}"
  shows "mandated reg pr allowed (''/test.v1.TestService/'' @ meth) req = service_trace allowed meth"
  using lookup_test_registry [OF assms] assms(3)
  by (auto simp: mandated_def service_trace_def declared_def resolveResourceFromRequest_def)

text \<open>A reply of the chain is an error of its own or what the handler answered.\<close>

lemma policy_chain_reply:
  assumes "\<And>ctx w. P (fst (h ctx req w))" and "\<And>e. P (None, Some e)"
  shows "P (fst (policy_chain reg pr verify now rnd cache fm ctx req h w))"
  using assms
  by (simp add: policy_chain_def po_Interceptor_def pv_unary_def Let_def case_prod_beta
      split: option.split sum.split)

lemma authz_chain_reply:
  assumes "\<And>ctx w. P (fst (h ctx req w))" and "\<And>e. P (None, Some e)"
    and "authz_chain rt_opts ulower ti_opts reg pr verify now rnd fm ctx req h s = Return (r, s')"
  shows "P r"
proof -
  have "P (fst (policy_chain reg pr verify now rnd c fm ctx' req h w))" for c ctx' w
    by (rule policy_chain_reply) (rule assms)+
  with assms(2,3) show ?thesis
    by (auto simp: authz_chain_def rt_Interceptor_tracked ti_Interceptor_def
        split: outcome.splits prod.splits option.splits) (metis fst_conv)
qed

definition no_panic :: "test_message outcome reply \<Rightarrow> bool" where
  "no_panic r \<longleftrightarrow> (\<forall>m. fst r \<noteq> Some (Panic m))"

lemma settle_no_panic:
  "no_panic r \<Longrightarrow> \<exists>r'. settle (Return (r, s)) = Return (r', s)"
  by (cases r) (auto simp: settle_def no_panic_def split: option.split outcome.split)

lemma asserted_no_panic: "unwrap m = Some x \<Longrightarrow> no_panic (fst (log_handler (asserted unwrap wrap call) ctx (ProtoMessage m) s))"
  by (auto simp: asserted_def log_handler_def no_panic_def Let_def split: prod.split)

abbreviation service_chain ::
  "(rt_config \<Rightarrow> rt_config) list \<Rightarrow> (rune \<Rightarrow> rune) \<Rightarrow> (policy_cache \<times> 'w) ti_Option list \<Rightarrow> registry \<Rightarrow>
   (test_message, 'fd, 'v) protoreflect \<Rightarrow> 'w verifier \<Rightarrow> civil \<Rightarrow> byte list \<Rightarrow> (policy_cache, 'w) server_interceptor" where
  "service_chain \<equiv> authz_chain"

lemma unary_method_log:
  assumes "introspect ulower (ti_buildConfig ti_opts) (tracked (snd (applyOptions rt_opts)) now rnd ctx)
      (cache, w, []) = Return ((ctx1, err), (cache1, w1, []))"
    and "policy_cache_ok reg cache1" and "PolicyFromContext ctx = None"
    and "unwrap (wrap_in x) = Some x"
  shows "\<exists>ctx2 reply cache2 w2.
      RequestIDFromContext ctx2 = RequestIDFromContext (tracked (snd (applyOptions rt_opts)) now rnd ctx) \<and>
      ctx_incoming ctx2 = ctx_incoming ctx \<and>
      unary_method fm wrap_in unwrap wrap (log_handler call) (Inr x) ctx
        (Some (service_chain rt_opts ulower ti_opts reg pr (log_verify verify) now rnd)) (cache, w, []) =
      Return (reply, cache2, w2,
        if err \<noteq> None then []
        else mandated reg pr (\<lambda>r a. fst (verify ctx2 r a w1) = None) fm (ProtoMessage (wrap_in x)))"
proof -
  let ?h = "log_handler (asserted unwrap wrap call)" and ?m = "ProtoMessage (wrap_in x)"
  from authz_chain_log [OF assms(1-3), of pr verify fm ?m "asserted unwrap wrap call"]
  obtain ctx2 reply cache2 w2 where r:
    "RequestIDFromContext ctx2 = RequestIDFromContext (tracked (snd (applyOptions rt_opts)) now rnd ctx)"
    "ctx_incoming ctx2 = ctx_incoming ctx"
    "authz_chain rt_opts ulower ti_opts reg pr (log_verify verify) now rnd fm ctx ?m ?h (cache, w, []) =
      Return (reply, cache2, w2,
        if err \<noteq> None then [] else mandated reg pr (\<lambda>r a. fst (verify ctx2 r a w1) = None) fm ?m)"
    by (auto simp only: append_Nil)
  have "no_panic reply"
  proof (rule authz_chain_reply [OF _ _ r(3)])
    show "no_panic (fst (?h c ?m s))" for c s using assms(4) by (rule asserted_no_panic)
  qed (simp add: no_panic_def)
  note s = settle_no_panic [OF this]
  have "authz_chain rt_opts ulower ti_opts reg pr (log_verify verify) now rnd fm ctx ?m
      (asserted unwrap wrap (log_handler call)) (cache, w, []) =
    authz_chain rt_opts ulower ti_opts reg pr (log_verify verify) now rnd fm ctx ?m ?h (cache, w, [])"
    by (rule authz_chain_cong) (rule asserted_log, rule assms(4))
  with r s show ?thesis by (fastforce simp: unary_method_def)
qed

text \<open>The error with which decoding the request of a method fails, if it does.\<close>

definition decode_error :: "string \<Rightarrow> decoder \<Rightarrow> go_error option" where
  "decode_error meth dec =
     (if meth = ''GetResource'' then (case dec_GetResourceRequest dec of Inl e \<Rightarrow> Some e | Inr _ \<Rightarrow> None)
      else if meth = ''CreateResource'' then (case dec_CreateResourceRequest dec of Inl e \<Rightarrow> Some e | Inr _ \<Rightarrow> None)
      else (case dec_HealthCheckRequest dec of Inl e \<Rightarrow> Some e | Inr _ \<Rightarrow> None))"

text \<open>
  Every handler of the service, called with the full chain in front of it, behaves as the generic
  method handler under the name it is registered with.
\<close>

lemma service_method_log:
  assumes "introspect ulower (ti_buildConfig ti_opts) (tracked (snd (applyOptions rt_opts)) now rnd ctx)
      (cache, w, []) = Return ((ctx1, err), (cache1, w1, []))"
    and "policy_cache_ok reg cache1" and "PolicyFromContext ctx = None"
    and "registry_unique reg" and "hd test_registry \<in> set reg"
    and "meth \<in> {''GetResource'', ''CreateResource'', ''HealthCheck''}"
    and "unwrap (wrap_in x) = Some x"
  shows "\<exists>ctx2 reply cache2 w2.
      RequestIDFromContext ctx2 = RequestIDFromContext (tracked (snd (applyOptions rt_opts)) now rnd ctx) \<and>
      ctx_incoming ctx2 = ctx_incoming ctx \<and>
      unary_method (''/test.v1.TestService/'' @ meth) wrap_in unwrap wrap (log_handler call) (Inr x) ctx
        (Some (service_chain rt_opts ulower ti_opts reg pr (log_verify verify) now rnd)) (cache, w, []) =
      Return (reply, cache2, w2,
        if err \<noteq> None then [] else service_trace (\<lambda>r a. fst (verify ctx2 r a w1) = None) meth)"
  unfolding mandated_service [OF assms(4-6), symmetric, where pr = pr and req = "ProtoMessage (wrap_in x)"]
  using assms(1-3,7) by (rule unary_method_log)

text \<open>
  C5. The service of the end-to-end tests is protected as its descriptor declares. Whichever of its
  methods is called through the generated handler with the four interceptors in front: an
  undecodable request is refused before any interceptor runs; a call that introspection refuses is
  neither verified nor handled; otherwise \<open>GetResource\<close> reaches the server only after \<open>resource\<close>/\<open>read\<close>
  was granted, \<open>CreateResource\<close> only after \<open>resource\<close>/\<open>write\<close> was, and \<open>HealthCheck\<close>, which has no policy,
  always; and no type assertion of the generated code fails. The registry may hold any other files.
\<close>

theorem e2e_service_mediated:
  assumes "introspect ulower (ti_buildConfig ti_opts) (tracked (snd (applyOptions rt_opts)) now rnd ctx)
      (cache, w, []) = Return ((ctx1, err), (cache1, w1, []))"
    and "policy_cache_ok reg cache1" and "PolicyFromContext ctx = None"
    and "registry_unique reg" and "hd test_registry \<in> set reg"
    and "(meth, handler) \<in> set (Methods TestService_ServiceDesc)"
  shows "\<exists>ctx2 reply cache2 w2.
      RequestIDFromContext ctx2 = RequestIDFromContext (tracked (snd (applyOptions rt_opts)) now rnd ctx) \<and>
      ctx_incoming ctx2 = ctx_incoming ctx \<and>
      handler (log_server srv) ctx dec
        (Some (service_chain rt_opts ulower ti_opts reg pr (log_verify verify) now rnd)) (cache, w, []) =
      (case decode_error meth dec of
         Some e \<Rightarrow> Return ((None, Some e), cache, w, [])
       | None \<Rightarrow>
           Return (reply, cache2, w2,
             if err \<noteq> None then [] else service_trace (\<lambda>r a. fst (verify ctx2 r a w1) = None) meth))"
proof (cases "decode_error meth dec")
  case (Some e)
  with assms(6) have "handler (log_server srv) ctx dec
      (Some (service_chain rt_opts ulower ti_opts reg pr (log_verify verify) now rnd)) (cache, w, []) =
    Return ((None, Some e), cache, w, [])"
    by (auto simp: TestService_ServiceDesc_def decode_error_def TestService_GetResource_Handler_def
        TestService_CreateResource_Handler_def TestService_HealthCheck_Handler_def unary_method_def
        split: sum.splits)
  with Some show ?thesis
    by (intro exI [of _ "tracked (snd (applyOptions rt_opts)) now rnd ctx"]) (simp add: ctx_simps)
next
  case None
  from assms(6) consider
      "meth = ''GetResource''" "handler = TestService_GetResource_Handler"
    | "meth = ''CreateResource''" "handler = TestService_CreateResource_Handler"
    | "meth = ''HealthCheck''" "handler = TestService_HealthCheck_Handler"
    by (auto simp: TestService_ServiceDesc_def)
  then show ?thesis
  proof cases
    case 1
    with None obtain x where x: "dec_GetResourceRequest dec = Inr x"
      by (auto simp: decode_error_def split: sum.splits)
    show ?thesis
      using service_method_log [OF assms(1-5), of meth "\<lambda>m. case m of MGetResourceRequest x \<Rightarrow> Some x | _ \<Rightarrow> None"
          MGetResourceRequest x MGetResourceResponse "srv_GetResource srv" pr verify] 1 None x
      by (simp add: TestService_GetResource_Handler_def log_server_def TestService_GetResource_FullMethodName_def)
  next
    case 2
    with None obtain x where x: "dec_CreateResourceRequest dec = Inr x"
      by (auto simp: decode_error_def split: sum.splits)
    show ?thesis
      using service_method_log [OF assms(1-5), of meth "\<lambda>m. case m of MCreateResourceRequest x \<Rightarrow> Some x | _ \<Rightarrow> None"
          MCreateResourceRequest x MCreateResourceResponse "srv_CreateResource srv" pr verify] 2 None x
      by (simp add: TestService_CreateResource_Handler_def log_server_def TestService_CreateResource_FullMethodName_def)
  next
    case 3
    with None obtain x where x: "dec_HealthCheckRequest dec = Inr x"
      by (auto simp: decode_error_def split: sum.splits)
    show ?thesis
      using service_method_log [OF assms(1-5), of meth "\<lambda>m. case m of MHealthCheckRequest x \<Rightarrow> Some x | _ \<Rightarrow> None"
          MHealthCheckRequest x MHealthCheckResponse "srv_HealthCheck srv" pr verify] 3 None x
      by (simp add: TestService_HealthCheck_Handler_def log_server_def TestService_HealthCheck_FullMethodName_def)
  qed
qed

text \<open>
  Reflection on the messages of the service: all their fields are strings, under the names of the
  struct tags.
\<close>

fun message_fields :: "test_message \<Rightarrow> (string \<times> string) list" where
  "message_fields (MGetResourceRequest m) = [(''id'', GetResourceRequest_Id m)]"
| "message_fields (MGetResourceResponse m) =
     [(''id'', GetResourceResponse_Id m), (''name'', GetResourceResponse_Name m)]"
| "message_fields (MCreateResourceRequest m) = [(''name'', CreateResourceRequest_Name m)]"
| "message_fields (MCreateResourceResponse m) = [(''id'', CreateResourceResponse_Id m)]"
| "message_fields (MHealthCheckRequest m) = []"
| "message_fields (MHealthCheckResponse m) = [(''status'', HealthCheckResponse_Status m)]"

definition test_reflect :: "(test_message, string, string) protoreflect" where
  "test_reflect =
     \<lparr>Fields_ByName = (\<lambda>m n. map_option (\<lambda>_. n) (map_of (message_fields m) n)),
      msg_Get = (\<lambda>m n. case map_of (message_fields m) n of Some v \<Rightarrow> v | None \<Rightarrow> []),
      fd_IsList = (\<lambda>_. False), fd_IsMap = (\<lambda>_. False), fd_Kind = (\<lambda>_. StringKind),
      kind_String = (\<lambda>_. ''string''), val_String = id, val_Bytes = id,
      val_Int = (\<lambda>_. 0), val_Uint = (\<lambda>_. 0), val_Bool = (\<lambda>_. False)\<rparr>"

definition demo_decoder :: decoder where
  "demo_decoder =
     \<lparr>dec_GetResourceRequest = Inr \<lparr>GetResourceRequest_Id = ''42''\<rparr>,
      dec_CreateResourceRequest = Inl (status_Error codes_Internal ''bad request''),
      dec_HealthCheckRequest = Inr HealthCheckRequest\<rparr>"

theorem e2e_service_mediated_witness:
  "\<exists>reply cache2 w2.
     TestService_GetResource_Handler (log_server UnimplementedTestServiceServer) no_ctx demo_decoder
       (Some (service_chain [] id [] test_registry test_reflect (log_verify Deny) example_time (replicate 16 0)))
       (Map.empty, (), []) =
     Return (reply, cache2, w2, [EvVerify ''resource'' ''read'' False])"
proof -
  let ?t = "tracked (snd (applyOptions [])) example_time (replicate 16 0) no_ctx"
  have 1: "introspect id (ti_buildConfig []) ?t (Map.empty, (), []) = Return ((?t, None), (Map.empty, (), []))"
    by (simp add: introspect_def ctx_simps no_ctx_def)
  have 2: "PolicyFromContext no_ctx = None"
    by (simp add: PolicyFromContext_def context_Value_def no_ctx_def)
  have 3: "registry_unique test_registry" "hd test_registry \<in> set test_registry"
    by (simp_all add: registry_unique_def services_of_def test_registry_def)
  have 4: "(''GetResource'', TestService_GetResource_Handler) \<in> set (Methods TestService_ServiceDesc)"
    by (simp add: TestService_ServiceDesc_def)
  have "decode_error ''GetResource'' demo_decoder = None"
    by (simp add: decode_error_def demo_decoder_def)
  with e2e_service_mediated [OF 1 policy_cache_ok_empty 2 3 4, of UnimplementedTestServiceServer demo_decoder
      test_reflect Deny]
  show ?thesis
    by (auto simp: service_trace_def declared_def Deny_def mock_Verify_def)
qed

end
