(* ===== verification/Generated_Proto.thy ===== *)
theory Generated_Proto
  imports E2E_Service
begin

text \<open>
  What the generated files \<open>policy.pb.go\<close> and \<open>test_service.pb.go\<close> hold beside messages and descriptor
  bytes: the tables of Go types and dependency indexes that are handed to the protobuf runtime, the
  initialisation that hands them over once, the compressed descriptor behind \<open>sync.Once\<close>, and the methods
  that tie a message to its entry in these tables. \<open>TypeBuilder.Build\<close> and \<open>CompressGZIP\<close> of the runtime
  are arguments; \<open>unsafe\<close> is its constant \<open>UnsafeEnabled\<close>.
\<close>

section \<open>Types and tables\<close>

text \<open>The Go types that the tables mention, as nil pointers of these types.\<close>

datatype go_type =
    GoGetResourceRequest | GoGetResourceResponse | GoCreateResourceRequest | GoCreateResourceResponse
  | GoHealthCheckRequest | GoHealthCheckResponse | GoFieldMapping | GoPolicy | GoMethodOptions

definition file_proto_test_service_proto_goTypes :: "go_type list" where
  "file_proto_test_service_proto_goTypes =
     [GoGetResourceRequest, GoGetResourceResponse, GoCreateResourceRequest, GoCreateResourceResponse,
      GoHealthCheckRequest, GoHealthCheckResponse]"

definition file_proto_test_service_proto_depIdxs :: "nat list" where
  "file_proto_test_service_proto_depIdxs = [0, 2, 4, 1, 3, 5, 3, 0, 0, 0, 0]"

definition file_policy_proto_goTypes :: "go_type list" where
  "file_policy_proto_goTypes = [GoFieldMapping, GoPolicy, GoMethodOptions]"

definition file_policy_proto_depIdxs :: "nat list" where
  "file_policy_proto_depIdxs = [0, 2, 1, 3, 3, 2, 1, 0]"

record ExtensionInfo =
  ExtendedType :: go_type
  ExtensionType :: go_type
  ext_Field :: nat
  ext_Name :: string
  ext_Tag :: string
  ext_Filename :: string

definition file_policy_proto_extTypes :: "ExtensionInfo list" where
  "file_policy_proto_extTypes =
     [\<lparr>ExtendedType = GoMethodOptions, ExtensionType = GoPolicy, ext_Field = 50000,
       ext_Name = ''o3co.authz.v1.policy'', ext_Tag = ''bytes,50000,opt,name=policy'',
       ext_Filename = ''policy.proto''\<rparr>]"

text \<open>
  The exporter of a message type, needed without \<open>unsafe\<close>: the address of one of the three fields that
  the runtime uses. A value of another type fails the type assertion.
\<close>

datatype struct_part = PartState | PartSizeCache | PartUnknownFields

type_synonym exporter = "go_type \<Rightarrow> int \<Rightarrow> struct_part option outcome"

definition exporter_of :: "go_type \<Rightarrow> exporter" where
  "exporter_of t v i =
     (if v \<noteq> t then Panic ''interface conversion''
      else Return (if i = 0 then Some PartState else if i = 1 then Some PartSizeCache
                   else if i = 2 then Some PartUnknownFields else None))"

record type_builder =
  RawDescriptor :: "nat list"
  NumEnums :: nat
  NumMessages :: nat
  NumExtensions :: nat
  NumServices :: nat
  GoTypes :: "go_type list"
  DependencyIndexes :: "nat list"
  MessageInfos :: "exporter option list"
  ExtensionInfos :: "ExtensionInfo list"

section \<open>Initialisation\<close>

text \<open>
  The package variables of a generated file. A nil slice is the empty list. The bytes of \<open>policy.pb.go\<close>
  are a constant; its field of this record is not written.
\<close>

record 'fd proto_file =
  pf_File :: "'fd option"
  pf_rawDesc :: "nat list"
  pf_rawDescOnce :: bool
  pf_rawDescData :: "nat list"
  pf_msgTypes :: "exporter option list"
  pf_goTypes :: "go_type list"
  pf_depIdxs :: "nat list"

definition test_service_vars :: "'fd proto_file" where
  "test_service_vars =
     \<lparr>pf_File = None, pf_rawDesc = file_proto_test_service_proto_rawDesc, pf_rawDescOnce = False,
      pf_rawDescData = file_proto_test_service_proto_rawDesc, pf_msgTypes = replicate 6 None,
      pf_goTypes = file_proto_test_service_proto_goTypes, pf_depIdxs = file_proto_test_service_proto_depIdxs\<rparr>"

definition policy_vars :: "'fd proto_file" where
  "policy_vars =
     \<lparr>pf_File = None, pf_rawDesc = file_policy_proto_rawDesc, pf_rawDescOnce = False, pf_rawDescData = [],
      pf_msgTypes = replicate 2 None, pf_goTypes = file_policy_proto_goTypes,
      pf_depIdxs = file_policy_proto_depIdxs\<rparr>"

definition file_proto_test_service_proto_init ::
  "bool \<Rightarrow> (type_builder \<Rightarrow> 'w \<Rightarrow> 'fd \<times> 'w) \<Rightarrow> 'fd proto_file \<Rightarrow> 'w \<Rightarrow> 'fd proto_file \<times> 'w" where
  "file_proto_test_service_proto_init unsafe build s w =
     (if pf_File s \<noteq> None then (s, w)
      else
        let s = (if \<not> unsafe
                 then s\<lparr>pf_msgTypes := (pf_msgTypes s)
                          [0 := Some (exporter_of GoGetResourceRequest),
                           1 := Some (exporter_of GoGetResourceResponse),
                           2 := Some (exporter_of GoCreateResourceRequest),
                           3 := Some (exporter_of GoCreateResourceResponse),
                           4 := Some (exporter_of GoHealthCheckRequest),
                           5 := Some (exporter_of GoHealthCheckResponse)]\<rparr>
                 else s);
            (out, w) = build
              \<lparr>RawDescriptor = pf_rawDesc s, NumEnums = 0, NumMessages = 6, NumExtensions = 0, NumServices = 1,
               GoTypes = pf_goTypes s, DependencyIndexes = pf_depIdxs s, MessageInfos = pf_msgTypes s,
               ExtensionInfos = []\<rparr> w
        in (s\<lparr>pf_File := Some out, pf_rawDesc := [], pf_goTypes := [], pf_depIdxs := []\<rparr>, w))"

definition file_policy_proto_init ::
  "(type_builder \<Rightarrow> 'w \<Rightarrow> 'fd \<times> 'w) \<Rightarrow> 'fd proto_file \<Rightarrow> 'w \<Rightarrow> 'fd proto_file \<times> 'w" where
  "file_policy_proto_init build s w =
     (if pf_File s \<noteq> None then (s, w)
      else
        let (out, w) = build
              \<lparr>RawDescriptor = pf_rawDesc s, NumEnums = 0, NumMessages = 2, NumExtensions = 1, NumServices = 0,
               GoTypes = pf_goTypes s, DependencyIndexes = pf_depIdxs s, MessageInfos = pf_msgTypes s,
               ExtensionInfos = file_policy_proto_extTypes\<rparr> w
        in (s\<lparr>pf_File := Some out, pf_goTypes := [], pf_depIdxs := []\<rparr>, w))"

text \<open>The compressed descriptor, computed by the first call.\<close>

definition file_proto_test_service_proto_rawDescGZIP ::
  "(nat list \<Rightarrow> nat list) \<Rightarrow> 'fd proto_file \<Rightarrow> nat list \<times> 'fd proto_file" where
  "file_proto_test_service_proto_rawDescGZIP gzip s =
     (let s = (if pf_rawDescOnce s then s
               else s\<lparr>pf_rawDescOnce := True, pf_rawDescData := gzip (pf_rawDescData s)\<rparr>)
      in (pf_rawDescData s, s))"

definition file_policy_proto_rawDescGZIP ::
  "(nat list \<Rightarrow> nat list) \<Rightarrow> 'fd proto_file \<Rightarrow> nat list \<times> 'fd proto_file" where
  "file_policy_proto_rawDescGZIP gzip s =
     (let s = (if pf_rawDescOnce s then s
               else s\<lparr>pf_rawDescOnce := True, pf_rawDescData := gzip file_policy_proto_rawDesc\<rparr>)
      in (pf_rawDescData s, s))"

section \<open>Messages and their types\<close>

text \<open>
  A message with the fields that the runtime uses. \<open>TestInfo i\<close> and \<open>PolicyInfo i\<close> are the addresses of the
  entries of \<open>file_proto_test_service_proto_msgTypes\<close> and \<open>file_policy_proto_msgTypes\<close>.
\<close>

datatype message_info = TestInfo nat | PolicyInfo nat

record 'm proto_struct =
  pm_state :: "message_info option"
  pm_sizeCache :: int
  pm_unknownFields :: "nat list"
  pm_fields :: 'm

definition new_struct :: "'m \<Rightarrow> 'm proto_struct" where
  "new_struct zero = \<lparr>pm_state = None, pm_sizeCache = 0, pm_unknownFields = [], pm_fields = zero\<rparr>"

text \<open>
  A reflected message is the state inside the message, whose stored info gives the type, or a view made
  by \<open>MessageOf\<close>.
\<close>

datatype 'm reflected = MessageState "'m proto_struct" | MessageOf message_info "'m proto_struct option"

definition message_Reset ::
  "bool \<Rightarrow> message_info \<Rightarrow> 'm \<Rightarrow> 'm proto_struct option \<Rightarrow> 'm proto_struct outcome" where
  "message_Reset unsafe mi zero x =
     (case x of
        None \<Rightarrow> Panic nil_dereference
      | Some _ \<Rightarrow>
          Return (let x = new_struct zero in if unsafe then x\<lparr>pm_state := Some mi\<rparr> else x))"

definition message_ProtoReflect ::
  "bool \<Rightarrow> message_info \<Rightarrow> 'm proto_struct option \<Rightarrow> 'm reflected \<times> 'm proto_struct option" where
  "message_ProtoReflect unsafe mi x =
     (case x of
        Some m \<Rightarrow>
          if unsafe
          then (let m = (if pm_state m = None then m\<lparr>pm_state := Some mi\<rparr> else m) in (MessageState m, Some m))
          else (MessageOf mi x, x)
      | None \<Rightarrow> (MessageOf mi x, x))"

definition GetResourceRequest_Reset :: "bool \<Rightarrow> GetResourceRequest proto_struct option \<Rightarrow> GetResourceRequest proto_struct outcome" where
  "GetResourceRequest_Reset unsafe = message_Reset unsafe (TestInfo 0) \<lparr>GetResourceRequest_Id = []\<rparr>"

definition GetResourceRequest_ProtoReflect ::
  "bool \<Rightarrow> GetResourceRequest proto_struct option \<Rightarrow> GetResourceRequest reflected \<times> GetResourceRequest proto_struct option" where
  "GetResourceRequest_ProtoReflect unsafe = message_ProtoReflect unsafe (TestInfo 0)"

definition GetResourceRequest_Descriptor ::
  "(nat list \<Rightarrow> nat list) \<Rightarrow> 'fd proto_file \<Rightarrow> (nat list \<times> nat list) \<times> 'fd proto_file" where
  "GetResourceRequest_Descriptor gzip s =
     (let (d, s) = file_proto_test_service_proto_rawDescGZIP gzip s in ((d, [0]), s))"

definition GetResourceResponse_Reset :: "bool \<Rightarrow> GetResourceResponse proto_struct option \<Rightarrow> GetResourceResponse proto_struct outcome" where
  "GetResourceResponse_Reset unsafe = message_Reset unsafe (TestInfo 1) \<lparr>GetResourceResponse_Id = [], GetResourceResponse_Name = []\<rparr>"

definition GetResourceResponse_ProtoReflect ::
  "bool \<Rightarrow> GetResourceResponse proto_struct option \<Rightarrow> GetResourceResponse reflected \<times> GetResourceResponse proto_struct option" where
  "GetResourceResponse_ProtoReflect unsafe = message_ProtoReflect unsafe (TestInfo 1)"

definition GetResourceResponse_Descriptor ::
  "(nat list \<Rightarrow> nat list) \<Rightarrow> 'fd proto_file \<Rightarrow> (nat list \<times> nat list) \<times> 'fd proto_file" where
  "GetResourceResponse_Descriptor gzip s =
     (let (d, s) = file_proto_test_service_proto_rawDescGZIP gzip s in ((d, [1]), s))"

definition CreateResourceRequest_Reset :: "bool \<Rightarrow> CreateResourceRequest proto_struct option \<Rightarrow> CreateResourceRequest proto_struct outcome" where
  "CreateResourceRequest_Reset unsafe = message_Reset unsafe (TestInfo 2) \<lparr>CreateResourceRequest_Name = []\<rparr>"

definition CreateResourceRequest_ProtoReflect ::
  "bool \<Rightarrow> CreateResourceRequest proto_struct option \<Rightarrow> CreateResourceRequest reflected \<times> CreateResourceRequest proto_struct option" where
  "CreateResourceRequest_ProtoReflect unsafe = message_ProtoReflect unsafe (TestInfo 2)"

definition CreateResourceRequest_Descriptor ::
  "(nat list \<Rightarrow> nat list) \<Rightarrow> 'fd proto_file \<Rightarrow> (nat list \<times> nat list) \<times> 'fd proto_file" where
  "CreateResourceRequest_Descriptor gzip s =
     (let (d, s) = file_proto_test_service_proto_rawDescGZIP gzip s in ((d, [2]), s))"

definition CreateResourceResponse_Reset :: "bool \<Rightarrow> CreateResourceResponse proto_struct option \<Rightarrow> CreateResourceResponse proto_struct outcome" where
  "CreateResourceResponse_Reset unsafe = message_Reset unsafe (TestInfo 3) \<lparr>CreateResourceResponse_Id = []\<rparr>"

definition CreateResourceResponse_ProtoReflect ::
  "bool \<Rightarrow> CreateResourceResponse proto_struct option \<Rightarrow> CreateResourceResponse reflected \<times> CreateResourceResponse proto_struct option" where
  "CreateResourceResponse_ProtoReflect unsafe = message_ProtoReflect unsafe (TestInfo 3)"

definition CreateResourceResponse_Descriptor ::
  "(nat list \<Rightarrow> nat list) \<Rightarrow> 'fd proto_file \<Rightarrow> (nat list \<times> nat list) \<times> 'fd proto_file" where
  "CreateResourceResponse_Descriptor gzip s =
     (let (d, s) = file_proto_test_service_proto_rawDescGZIP gzip s in ((d, [3]), s))"

definition HealthCheckRequest_Reset :: "bool \<Rightarrow> HealthCheckRequest proto_struct option \<Rightarrow> HealthCheckRequest proto_struct outcome" where
  "HealthCheckRequest_Reset unsafe = message_Reset unsafe (TestInfo 4) HealthCheckRequest"

definition HealthCheckRequest_ProtoReflect ::
  "bool \<Rightarrow> HealthCheckRequest proto_struct option \<Rightarrow> HealthCheckRequest reflected \<times> HealthCheckRequest proto_struct option" where
  "HealthCheckRequest_ProtoReflect unsafe = message_ProtoReflect unsafe (TestInfo 4)"

definition HealthCheckRequest_Descriptor ::
  "(nat list \<Rightarrow> nat list) \<Rightarrow> 'fd proto_file \<Rightarrow> (nat list \<times> nat list) \<times> 'fd proto_file" where
  "HealthCheckRequest_Descriptor gzip s =
     (let (d, s) = file_proto_test_service_proto_rawDescGZIP gzip s in ((d, [4]), s))"

definition HealthCheckResponse_Reset :: "bool \<Rightarrow> HealthCheckResponse proto_struct option \<Rightarrow> HealthCheckResponse proto_struct outcome" where
  "HealthCheckResponse_Reset unsafe = message_Reset unsafe (TestInfo 5) \<lparr>HealthCheckResponse_Status = []\<rparr>"

definition HealthCheckResponse_ProtoReflect ::
  "bool \<Rightarrow> HealthCheckResponse proto_struct option \<Rightarrow> HealthCheckResponse reflected \<times> HealthCheckResponse proto_struct option" where
  "HealthCheckResponse_ProtoReflect unsafe = message_ProtoReflect unsafe (TestInfo 5)"

definition HealthCheckResponse_Descriptor ::
  "(nat list \<Rightarrow> nat list) \<Rightarrow> 'fd proto_file \<Rightarrow> (nat list \<times> nat list) \<times> 'fd proto_file" where
  "HealthCheckResponse_Descriptor gzip s =
     (let (d, s) = file_proto_test_service_proto_rawDescGZIP gzip s in ((d, [5]), s))"

text \<open>The newer generator of \<open>policy.pb.go\<close> always stores the message info.\<close>

definition FieldMapping_Reset :: "FieldMapping proto_struct option \<Rightarrow> FieldMapping proto_struct outcome" where
  "FieldMapping_Reset = message_Reset True (PolicyInfo 0) \<lparr>Placeholder = [], RequestField = []\<rparr>"

definition FieldMapping_ProtoReflect ::
  "FieldMapping proto_struct option \<Rightarrow> FieldMapping reflected \<times> FieldMapping proto_struct option" where
  "FieldMapping_ProtoReflect = message_ProtoReflect True (PolicyInfo 0)"

definition FieldMapping_Descriptor ::
  "(nat list \<Rightarrow> nat list) \<Rightarrow> 'fd proto_file \<Rightarrow> (nat list \<times> nat list) \<times> 'fd proto_file" where
  "FieldMapping_Descriptor gzip s =
     (let (d, s) = file_policy_proto_rawDescGZIP gzip s in ((d, [0]), s))"

definition Policy_Reset :: "pb_Policy proto_struct option \<Rightarrow> pb_Policy proto_struct outcome" where
  "Policy_Reset = message_Reset True (PolicyInfo 1) \<lparr>pb_Resource = [], pb_Action = [], FieldMappings = []\<rparr>"

definition Policy_ProtoReflect ::
  "pb_Policy proto_struct option \<Rightarrow> pb_Policy reflected \<times> pb_Policy proto_struct option" where
  "Policy_ProtoReflect = message_ProtoReflect True (PolicyInfo 1)"

definition Policy_Descriptor ::
  "(nat list \<Rightarrow> nat list) \<Rightarrow> 'fd proto_file \<Rightarrow> (nat list \<times> nat list) \<times> 'fd proto_file" where
  "Policy_Descriptor gzip s =
     (let (d, s) = file_policy_proto_rawDescGZIP gzip s in ((d, [1]), s))"

section \<open>Registration of the service\<close>

text \<open>
  How an implementation embeds \<open>UnimplementedTestServiceServer\<close>: by value, by pointer, nil or not, or not at
  all. The check of the registration calls a method with a value receiver, which dereferences the
  pointer; \<open>RegisterService\<close> of the registrar is an argument.
\<close>

datatype embedding = EmbeddedByValue | EmbeddedByPointer bool | NotEmbedded

definition testEmbeddedByValue :: "embedding \<Rightarrow> unit outcome" where
  "testEmbeddedByValue emb =
     (if emb = EmbeddedByPointer True then Panic nil_dereference else Return ())"

definition RegisterTestServiceServer ::
  "(('c, 'w) ServiceDesc \<Rightarrow> 'w TestServiceServer \<Rightarrow> 's \<Rightarrow> 's) \<Rightarrow> embedding \<Rightarrow> 'w TestServiceServer \<Rightarrow> 's \<Rightarrow> 's outcome" where
  "RegisterTestServiceServer registerService emb srv s =
     (if emb \<noteq> NotEmbedded
      then (case testEmbeddedByValue emb of
              Panic p \<Rightarrow> Panic p
            | Return _ \<Rightarrow> Return (registerService TestService_ServiceDesc srv s))
      else Return (registerService TestService_ServiceDesc srv s))"

lemma RegisterTestServiceServer_iff:
  "RegisterTestServiceServer registerService emb srv s =
   (if emb = EmbeddedByPointer True then Panic nil_dereference
    else Return (registerService TestService_ServiceDesc srv s))"
  by (simp add: RegisterTestServiceServer_def testEmbeddedByValue_def)

section \<open>What the runtime is handed\<close>

definition test_builder :: "bool \<Rightarrow> type_builder" where
  "test_builder unsafe =
     \<lparr>RawDescriptor = file_proto_test_service_proto_rawDesc, NumEnums = 0, NumMessages = 6, NumExtensions = 0,
      NumServices = 1, GoTypes = file_proto_test_service_proto_goTypes,
      DependencyIndexes = file_proto_test_service_proto_depIdxs,
      MessageInfos = map (\<lambda>t. if unsafe then None else Some (exporter_of t)) file_proto_test_service_proto_goTypes,
      ExtensionInfos = []\<rparr>"

definition policy_builder :: type_builder where
  "policy_builder =
     \<lparr>RawDescriptor = file_policy_proto_rawDesc, NumEnums = 0, NumMessages = 2, NumExtensions = 1,
      NumServices = 0, GoTypes = file_policy_proto_goTypes, DependencyIndexes = file_policy_proto_depIdxs,
      MessageInfos = [None, None], ExtensionInfos = file_policy_proto_extTypes\<rparr>"

text \<open>
  The variables of a file are touched by its initialisation, by \<open>init\<close> or an importing file, and by the
  \<open>Descriptor\<close> methods. The contract of a generated file: it is built once, and its compressed descriptor is
  computed once, from bytes that the initialisation leaves alone.
\<close>

datatype file_call = CallInit | CallGZIP

fun run_file_calls ::
  "('fd proto_file \<Rightarrow> 'w \<Rightarrow> 'fd proto_file \<times> 'w) \<Rightarrow> ('fd proto_file \<Rightarrow> nat list \<times> 'fd proto_file) \<Rightarrow>
   file_call list \<Rightarrow> 'fd proto_file \<Rightarrow> 'w \<Rightarrow> nat list list \<times> 'fd proto_file \<times> 'w" where
  "run_file_calls init gz [] s w = ([], s, w)"
| "run_file_calls init gz (CallInit # cs) s w = (let (s, w) = init s w in run_file_calls init gz cs s w)"
| "run_file_calls init gz (CallGZIP # cs) s w =
     (let (d, s) = gz s; (ds, r) = run_file_calls init gz cs s w in (d # ds, r))"

text \<open>The variables but for the compressed descriptor.\<close>

definition untouched :: "'fd proto_file \<Rightarrow> 'fd proto_file" where
  "untouched s = s\<lparr>pf_rawDescOnce := False, pf_rawDescData := []\<rparr>"

lemma untouched_simps [simp]:
  "untouched (s\<lparr>pf_rawDescOnce := a\<rparr>) = untouched s" "untouched (s\<lparr>pf_rawDescData := d\<rparr>) = untouched s"
  by (simp_all add: untouched_def)

definition file_ok :: "'fd proto_file \<Rightarrow> nat list \<Rightarrow> 'fd proto_file \<Rightarrow> bool" where
  "file_ok vars compressed s \<longleftrightarrow>
     pf_rawDescData s = (if pf_rawDescOnce s then compressed else pf_rawDescData vars) \<and>
     (pf_File s = None \<longrightarrow> untouched s = untouched vars)"

locale generated_file =
  fixes vars :: "'fd proto_file"
    and init :: "'fd proto_file \<Rightarrow> 'w \<Rightarrow> 'fd proto_file \<times> 'w"
    and gz :: "'fd proto_file \<Rightarrow> nat list \<times> 'fd proto_file"
    and compressed :: "nat list"
    and built :: "'w \<Rightarrow> 'w"
  assumes fresh: "pf_File vars = None" "\<not> pf_rawDescOnce vars"
    and init_again: "pf_File s \<noteq> None \<Longrightarrow> init s w = (s, w)"
    and init_first: "pf_File s = None \<Longrightarrow> untouched s = untouched vars \<Longrightarrow>
      pf_File (fst (init s w)) \<noteq> None \<and> snd (init s w) = built w \<and>
      pf_rawDescOnce (fst (init s w)) = pf_rawDescOnce s \<and> pf_rawDescData (fst (init s w)) = pf_rawDescData s"
    and gz_first: "\<not> pf_rawDescOnce s \<Longrightarrow> pf_rawDescData s = pf_rawDescData vars \<Longrightarrow>
      gz s = (compressed, s\<lparr>pf_rawDescOnce := True, pf_rawDescData := compressed\<rparr>)"
    and gz_again: "pf_rawDescOnce s \<Longrightarrow> gz s = (pf_rawDescData s, s)"
begin

lemma gz_ok: "file_ok vars compressed s \<Longrightarrow> gz s = (d, s') \<Longrightarrow> d = compressed \<and> file_ok vars compressed s' \<and> pf_File s' = pf_File s"
  using gz_first [of s] gz_again [of s] by (cases "pf_rawDescOnce s") (auto simp: file_ok_def)

lemma init_ok:
  "file_ok vars compressed s \<Longrightarrow> init s w = (s', w') \<Longrightarrow>
   file_ok vars compressed s' \<and> pf_File s' \<noteq> None \<and> w' = (if pf_File s = None then built w else w)"
  using init_first [of s w] init_again [of s w] by (cases "pf_File s = None") (auto simp: file_ok_def)

lemma calls_from:
  assumes "file_ok vars compressed s"
  shows "\<exists>s'. run_file_calls init gz cs s w =
    (replicate (count_list cs CallGZIP) compressed, s',
     if CallInit \<in> set cs \<and> pf_File s = None then built w else w)"
  using assms
proof (induction cs arbitrary: s w)
  case (Cons c cs)
  show ?case
  proof (cases c)
    case CallInit
    obtain s' w' where i: "init s w = (s', w')" by (metis surj_pair)
    from init_ok [OF Cons.prems i] Cons.IH [of s' w'] i CallInit show ?thesis by (auto split: if_splits)
  next
    case CallGZIP
    obtain d s' where g: "gz s = (d, s')" by (metis surj_pair)
    from gz_ok [OF Cons.prems g] Cons.IH [of s' w] g CallGZIP show ?thesis by auto
  qed
qed simp

lemma calls:
  "\<exists>s'. run_file_calls init gz cs vars w =
    (replicate (count_list cs CallGZIP) compressed, s', if CallInit \<in> set cs then built w else w)"
  using calls_from [of vars] fresh by (simp add: file_ok_def)

end

text \<open>Both files keep the contract. The runtime's calls are kept in a log.\<close>

definition log_build ::
  "(type_builder \<Rightarrow> 'w \<Rightarrow> 'fd \<times> 'w) \<Rightarrow> type_builder \<Rightarrow> 'w \<times> type_builder list \<Rightarrow> 'fd \<times> 'w \<times> type_builder list" where
  "log_build build tb = (\<lambda>(w, l). let (f, w) = build tb w in (f, w, l @ [tb]))"

lemma untouched_eqD:
  assumes "untouched s = untouched t"
  shows "pf_rawDesc s = pf_rawDesc t" "pf_msgTypes s = pf_msgTypes t" "pf_goTypes s = pf_goTypes t"
    "pf_depIdxs s = pf_depIdxs t"
  using arg_cong [OF assms, of pf_rawDesc] arg_cong [OF assms, of pf_msgTypes]
    arg_cong [OF assms, of pf_goTypes] arg_cong [OF assms, of pf_depIdxs]
  by (simp_all add: untouched_def)

interpretation test_file: generated_file test_service_vars
  "file_proto_test_service_proto_init unsafe (log_build build)"
  "file_proto_test_service_proto_rawDescGZIP gzip" "gzip file_proto_test_service_proto_rawDesc"
  "\<lambda>(w, l). (snd (build (test_builder unsafe) w), l @ [test_builder unsafe])"
  for unsafe :: bool and build :: "type_builder \<Rightarrow> 'w \<Rightarrow> 'fd \<times> 'w" and gzip
proof (unfold_locales, goal_cases)
  case (4 s w)
  have "(pf_msgTypes test_service_vars)
      [0 := Some (exporter_of GoGetResourceRequest), 1 := Some (exporter_of GoGetResourceResponse),
       2 := Some (exporter_of GoCreateResourceRequest), 3 := Some (exporter_of GoCreateResourceResponse),
       4 := Some (exporter_of GoHealthCheckRequest), 5 := Some (exporter_of GoHealthCheckResponse)] =
      map (\<lambda>t. Some (exporter_of t)) file_proto_test_service_proto_goTypes"
    "pf_msgTypes test_service_vars = map (\<lambda>t. None) file_proto_test_service_proto_goTypes"
    by (simp_all add: test_service_vars_def file_proto_test_service_proto_goTypes_def eval_nat_numeral)
  with 4 untouched_eqD [OF 4(2)] show ?case
    by (cases unsafe) (auto simp: file_proto_test_service_proto_init_def log_build_def Let_def test_builder_def
        test_service_vars_def split: prod.split)
qed (auto simp: test_service_vars_def file_proto_test_service_proto_init_def
    file_proto_test_service_proto_rawDescGZIP_def Let_def)

interpretation policy_file: generated_file policy_vars "file_policy_proto_init (log_build build)"
  "file_policy_proto_rawDescGZIP gzip" "gzip file_policy_proto_rawDesc"
  "\<lambda>(w, l). (snd (build policy_builder w), l @ [policy_builder])"
  for build :: "type_builder \<Rightarrow> 'w \<Rightarrow> 'fd \<times> 'w" and gzip
proof (unfold_locales, goal_cases)
  case (4 s w)
  then show ?case
    using untouched_eqD [OF 4(2)]
    by (auto simp: file_policy_proto_init_def log_build_def Let_def policy_builder_def policy_vars_def
        numeral_2_eq_2 split: prod.split)
qed (auto simp: policy_vars_def file_policy_proto_init_def file_policy_proto_rawDescGZIP_def Let_def)

section \<open>Properties\<close>

text \<open>
  The tables against the bytes. A type reference in a descriptor is the full name of a message with a
  dot in front. The last five dependency indexes are the starts of sub-lists of the others: by
  position from the end, for the types of message fields, for what an extension extends, for the types of
  extensions, and for inputs and outputs of methods; each sub-list ends where the next starts.
\<close>

fun go_name :: "go_type \<Rightarrow> string" where
  "go_name GoGetResourceRequest = ''.test.v1.GetResourceRequest''"
| "go_name GoGetResourceResponse = ''.test.v1.GetResourceResponse''"
| "go_name GoCreateResourceRequest = ''.test.v1.CreateResourceRequest''"
| "go_name GoCreateResourceResponse = ''.test.v1.CreateResourceResponse''"
| "go_name GoHealthCheckRequest = ''.test.v1.HealthCheckRequest''"
| "go_name GoHealthCheckResponse = ''.test.v1.HealthCheckResponse''"
| "go_name GoFieldMapping = ''.o3co.authz.v1.FieldMapping''"
| "go_name GoPolicy = ''.o3co.authz.v1.Policy''"
| "go_name GoMethodOptions = ''.google.protobuf.MethodOptions''"

definition sub_list :: "nat list \<Rightarrow> nat \<Rightarrow> nat list" where
  "sub_list idxs k =
     (let n = length idxs;
          start = idxs ! (n - 1 - k);
          stop = (if k = 4 then n - 5 else idxs ! (n - 2 - k))
      in take (stop - start) (drop start idxs))"

definition table_refs :: "type_builder \<Rightarrow> string list list" where
  "table_refs tb = map (\<lambda>k. map (\<lambda>i. go_name (GoTypes tb ! i)) (sub_list (DependencyIndexes tb) k)) [0, 1, 2, 3, 4]"

text \<open>
  The references of a descriptor, read from its bytes: messages with the types of their fields that are
  messages, the number of enums, extensions with number, extendee and type, and the inputs and outputs
  of the methods of each service.
\<close>

record file_refs =
  fr_Name :: string
  fr_Package :: string
  fr_Dependencies :: "string list"
  fr_Messages :: "(string \<times> string list) list"
  fr_Enums :: nat
  fr_Extensions :: "(string \<times> nat \<times> string \<times> string) list"
  fr_Services :: "(string \<times> string) list list"

definition decode_message_refs :: "nat list \<Rightarrow> (string \<times> string list) option" where
  "decode_message_refs bs =
     (case wire_fields bs of
        None \<Rightarrow> None
      | Some fs \<Rightarrow>
          map_option (\<lambda>gs. (string_field 1 fs, filter (\<lambda>t. t \<noteq> []) (map (string_field 6) gs)))
            (collect (map wire_fields (sub_messages 2 fs))))"

definition decode_extension_refs :: "nat list \<Rightarrow> (string \<times> nat \<times> string \<times> string) option" where
  "decode_extension_refs bs =
     map_option (\<lambda>fs. (string_field 1 fs, varint_field 3 fs, string_field 2 fs, string_field 6 fs)) (wire_fields bs)"

definition decode_service_refs :: "nat list \<Rightarrow> (string \<times> string) list option" where
  "decode_service_refs bs =
     (case wire_fields bs of
        None \<Rightarrow> None
      | Some fs \<Rightarrow>
          map_option (map (\<lambda>gs. (string_field 2 gs, string_field 3 gs))) (collect (map wire_fields (sub_messages 2 fs))))"

definition decode_refs :: "nat list \<Rightarrow> file_refs option" where
  "decode_refs bs =
     (case wire_fields bs of
        None \<Rightarrow> None
      | Some fs \<Rightarrow>
          (case (collect (map decode_message_refs (sub_messages 4 fs)),
                 collect (map decode_extension_refs (sub_messages 7 fs)),
                 collect (map decode_service_refs (sub_messages 6 fs))) of
             (Some ms, Some es, Some ss) \<Rightarrow>
               Some \<lparr>fr_Name = string_field 1 fs, fr_Package = string_field 2 fs,
                     fr_Dependencies = map (map char_of) (sub_messages 3 fs), fr_Messages = ms,
                     fr_Enums = length (sub_messages 5 fs), fr_Extensions = es, fr_Services = ss\<rparr>
           | _ \<Rightarrow> None))"

definition message_names :: "file_refs \<Rightarrow> string list" where
  "message_names d = map (\<lambda>(n, _). ''.'' @ fr_Package d @ ''.'' @ n) (fr_Messages d)"

definition tables_agree :: "type_builder \<Rightarrow> bool" where
  "tables_agree tb \<longleftrightarrow>
     (case decode_refs (RawDescriptor tb) of
        None \<Rightarrow> False
      | Some d \<Rightarrow>
          NumMessages tb = length (fr_Messages d) \<and> NumEnums tb = fr_Enums d \<and>
          NumServices tb = length (fr_Services d) \<and> NumExtensions tb = length (fr_Extensions d) \<and>
          length (MessageInfos tb) = NumMessages tb \<and>
          map go_name (take (NumMessages tb) (GoTypes tb)) = message_names d \<and>
          table_refs tb =
            [concat (map snd (fr_Messages d)), map (\<lambda>(_, _, t, _). t) (fr_Extensions d),
             map (\<lambda>(_, _, _, t). t) (fr_Extensions d), map fst (concat (fr_Services d)),
             map snd (concat (fr_Services d))] \<and>
          map (\<lambda>e. (ext_Name e, ext_Field e, go_name (ExtendedType e), go_name (ExtensionType e), ext_Filename e))
              (ExtensionInfos tb) =
            map (\<lambda>(n, k, x, t). (fr_Package d @ ''.'' @ n, k, x, t, fr_Name d)) (fr_Extensions d))"

lemmas refs_eval =
  decode_refs_def decode_message_refs_def decode_extension_refs_def decode_service_refs_def wire_eval

lemma test_refs:
  "decode_refs file_proto_test_service_proto_rawDesc = Some
     \<lparr>fr_Name = ''proto/test_service.proto'', fr_Package = ''test.v1'', fr_Dependencies = [''schema/policy.proto''],
      fr_Messages = [(''GetResourceRequest'', []), (''GetResourceResponse'', []), (''CreateResourceRequest'', []),
        (''CreateResourceResponse'', []), (''HealthCheckRequest'', []), (''HealthCheckResponse'', [])],
      fr_Enums = 0, fr_Extensions = [],
      fr_Services = [[(''.test.v1.GetResourceRequest'', ''.test.v1.GetResourceResponse''),
        (''.test.v1.CreateResourceRequest'', ''.test.v1.CreateResourceResponse''),
        (''.test.v1.HealthCheckRequest'', ''.test.v1.HealthCheckResponse'')]]\<rparr>"
  by (simp add: file_proto_test_service_proto_rawDesc_def refs_eval)

lemma policy_refs:
  "decode_refs file_policy_proto_rawDesc = Some
     \<lparr>fr_Name = ''policy.proto'', fr_Package = ''o3co.authz.v1'',
      fr_Dependencies = [''google/protobuf/descriptor.proto''],
      fr_Messages = [(''FieldMapping'', []), (''Policy'', [''.o3co.authz.v1.FieldMapping''])], fr_Enums = 0,
      fr_Extensions = [(''policy'', 50000, ''.google.protobuf.MethodOptions'', ''.o3co.authz.v1.Policy'')],
      fr_Services = []\<rparr>"
  by (simp add: file_policy_proto_rawDesc_def refs_eval)

lemma test_builder_agrees: "tables_agree (test_builder unsafe)"
  by (simp add: tables_agree_def test_builder_def test_refs message_names_def table_refs_def sub_list_def
      file_proto_test_service_proto_goTypes_def file_proto_test_service_proto_depIdxs_def)

lemma policy_builder_agrees: "tables_agree policy_builder"
  by (simp add: tables_agree_def policy_builder_def policy_refs message_names_def table_refs_def sub_list_def
      file_policy_proto_goTypes_def file_policy_proto_depIdxs_def file_policy_proto_extTypes_def)

lemma file_consistent:
  assumes "\<exists>s. r = (ds, s, if c then (\<lambda>(w, l). (snd (build tb w), l @ [tb])) (w, []) else (w, []))"
    and "tables_agree tb" and "RawDescriptor tb = raw"
  shows "\<exists>s tb. r = (ds, s, if c then (snd (build tb w), [tb]) else (w, [])) \<and>
    tables_agree tb \<and> RawDescriptor tb = raw"
proof -
  from assms(1) obtain s where "r = (ds, s, if c then (snd (build tb w), [tb]) else (w, []))" by auto
  with assms(2,3) show ?thesis by blast
qed

text \<open>
  C37. A generated file is registered once, with tables that fit its descriptor. Whatever the order in
  which initialisations and \<open>Descriptor\<close> calls reach a file, the runtime is handed exactly one set of tables if
  the file is initialised at all. In it the counts are those of the descriptor bytes, the Go type at each
  position is that of the message there, every dependency index leads to the Go type of the message that
  the descriptor refers to, and the policy extension extends \<open>MethodOptions\<close> by a \<open>Policy\<close> under number
  50000. And every \<open>Descriptor\<close> call gets the compressed bytes of the file, although the initialisation
  drops them.
\<close>

theorem generated_files_consistent:
  "(\<exists>s tb. run_file_calls (file_proto_test_service_proto_init unsafe (log_build build))
      (file_proto_test_service_proto_rawDescGZIP gzip) calls test_service_vars (w, []) =
    (replicate (count_list calls CallGZIP) (gzip file_proto_test_service_proto_rawDesc), s,
     if CallInit \<in> set calls then (snd (build tb w), [tb]) else (w, [])) \<and>
    tables_agree tb \<and> RawDescriptor tb = file_proto_test_service_proto_rawDesc) \<and>
   (\<exists>s tb. run_file_calls (file_policy_proto_init (log_build build))
      (file_policy_proto_rawDescGZIP gzip) calls policy_vars (w, []) =
    (replicate (count_list calls CallGZIP) (gzip file_policy_proto_rawDesc), s,
     if CallInit \<in> set calls then (snd (build tb w), [tb]) else (w, [])) \<and>
    tables_agree tb \<and> RawDescriptor tb = file_policy_proto_rawDesc)"
  by (intro conjI file_consistent [OF test_file.calls test_builder_agrees]
      file_consistent [OF policy_file.calls policy_builder_agrees])
    (simp_all add: test_builder_def policy_builder_def)

text \<open>
  The import of the test service is named \<open>schema/policy.proto\<close>, while the generated policy file registers
  itself as \<open>policy.proto\<close>: the import names no file of the program.
\<close>

lemma test_import_unresolved:
  "map_option fr_Dependencies (decode_refs file_proto_test_service_proto_rawDesc) = Some [''schema/policy.proto''] \<and>
   map_option fr_Name (decode_refs file_policy_proto_rawDesc) = Some ''policy.proto''"
  by (simp add: test_refs policy_refs)

lemmas message_method_defs =
  GetResourceRequest_Reset_def GetResourceRequest_ProtoReflect_def GetResourceRequest_Descriptor_def
  GetResourceResponse_Reset_def GetResourceResponse_ProtoReflect_def GetResourceResponse_Descriptor_def
  CreateResourceRequest_Reset_def CreateResourceRequest_ProtoReflect_def CreateResourceRequest_Descriptor_def
  CreateResourceResponse_Reset_def CreateResourceResponse_ProtoReflect_def CreateResourceResponse_Descriptor_def
  HealthCheckRequest_Reset_def HealthCheckRequest_ProtoReflect_def HealthCheckRequest_Descriptor_def
  HealthCheckResponse_Reset_def HealthCheckResponse_ProtoReflect_def HealthCheckResponse_Descriptor_def
  FieldMapping_Reset_def FieldMapping_ProtoReflect_def FieldMapping_Descriptor_def
  Policy_Reset_def Policy_ProtoReflect_def Policy_Descriptor_def

subsection \<open>Messages\<close>

text \<open>What is done to a message over its life: \<open>Reset\<close> and \<open>ProtoReflect\<close> in any order.\<close>

datatype message_call = CallReset | CallProtoReflect

fun reflected_info :: "'m reflected \<Rightarrow> message_info option" where
  "reflected_info (MessageState m) = pm_state m"
| "reflected_info (MessageOf mi x) = Some mi"

fun run_message ::
  "('m proto_struct option \<Rightarrow> 'm proto_struct outcome) \<Rightarrow>
   ('m proto_struct option \<Rightarrow> 'm reflected \<times> 'm proto_struct option) \<Rightarrow>
   message_call list \<Rightarrow> 'm proto_struct option \<Rightarrow> message_info option list outcome" where
  "run_message reset reflect [] x = Return []"
| "run_message reset reflect (CallReset # cs) x =
     (case reset x of Panic p \<Rightarrow> Panic p | Return m \<Rightarrow> run_message reset reflect cs (Some m))"
| "run_message reset reflect (CallProtoReflect # cs) x =
     (case reflect x of (r, x) \<Rightarrow>
        (case run_message reset reflect cs x of
           Panic p \<Rightarrow> Panic p | Return is \<Rightarrow> Return (reflected_info r # is)))"

lemma message_calls:
  "\<exists>m'. message_Reset unsafe mi zero (Some m) = Return m' \<and> (pm_state m' = None \<or> pm_state m' = Some mi)"
  "pm_state m = None \<or> pm_state m = Some mi \<Longrightarrow>
   \<exists>r m'. message_ProtoReflect unsafe mi (Some m) = (r, Some m') \<and> reflected_info r = Some mi \<and>
     (pm_state m' = None \<or> pm_state m' = Some mi)"
  by (auto simp: message_Reset_def message_ProtoReflect_def new_struct_def Let_def)

lemma run_message_own:
  assumes "pm_state m = None \<or> pm_state m = Some mi"
  shows "run_message (message_Reset unsafe mi zero) (message_ProtoReflect unsafe mi) cs (Some m) =
    Return (replicate (count_list cs CallProtoReflect) (Some mi))"
  using assms
proof (induction cs arbitrary: m)
  case (Cons c cs)
  show ?case
  proof (cases c)
    case CallReset
    with message_calls(1) [of unsafe mi zero m] Cons.IH show ?thesis by auto
  next
    case CallProtoReflect
    with message_calls(2) [OF Cons.prems, of unsafe] Cons.IH show ?thesis by auto
  qed
qed simp

text \<open>
  A message is reflected as its own type. Whatever was done to a fresh message before, \<open>ProtoReflect\<close>
  answers with the message info of the position at which the descriptor bytes have the message of that
  name, so field lookups go by the descriptor of the request's type; and \<open>Descriptor\<close> returns that
  position.
\<close>

theorem messages_reflect_own_type:
  "let own = (\<lambda>i. Return (replicate (count_list calls CallProtoReflect) (Some i))) in
   run_message (GetResourceRequest_Reset unsafe) (GetResourceRequest_ProtoReflect unsafe) calls
     (Some (new_struct \<lparr>GetResourceRequest_Id = []\<rparr>)) = own (TestInfo 0) \<and>
   run_message (GetResourceResponse_Reset unsafe) (GetResourceResponse_ProtoReflect unsafe) calls
     (Some (new_struct \<lparr>GetResourceResponse_Id = [], GetResourceResponse_Name = []\<rparr>)) = own (TestInfo 1) \<and>
   run_message (CreateResourceRequest_Reset unsafe) (CreateResourceRequest_ProtoReflect unsafe) calls
     (Some (new_struct \<lparr>CreateResourceRequest_Name = []\<rparr>)) = own (TestInfo 2) \<and>
   run_message (CreateResourceResponse_Reset unsafe) (CreateResourceResponse_ProtoReflect unsafe) calls
     (Some (new_struct \<lparr>CreateResourceResponse_Id = []\<rparr>)) = own (TestInfo 3) \<and>
   run_message (HealthCheckRequest_Reset unsafe) (HealthCheckRequest_ProtoReflect unsafe) calls
     (Some (new_struct HealthCheckRequest)) = own (TestInfo 4) \<and>
   run_message (HealthCheckResponse_Reset unsafe) (HealthCheckResponse_ProtoReflect unsafe) calls
     (Some (new_struct \<lparr>HealthCheckResponse_Status = []\<rparr>)) = own (TestInfo 5) \<and>
   run_message FieldMapping_Reset FieldMapping_ProtoReflect calls
     (Some (new_struct \<lparr>Placeholder = [], RequestField = []\<rparr>)) = own (PolicyInfo 0) \<and>
   run_message Policy_Reset Policy_ProtoReflect calls
     (Some (new_struct \<lparr>pb_Resource = [], pb_Action = [], FieldMappings = []\<rparr>)) = own (PolicyInfo 1) \<and>
   map (\<lambda>D. snd (fst (D gzip s)))
     [GetResourceRequest_Descriptor,
      GetResourceResponse_Descriptor,
      CreateResourceRequest_Descriptor,
      CreateResourceResponse_Descriptor,
      HealthCheckRequest_Descriptor,
      HealthCheckResponse_Descriptor] = map (\<lambda>i. [i]) [0..<6] \<and>
   map_option message_names (decode_refs file_proto_test_service_proto_rawDesc) = Some
     [''.test.v1.GetResourceRequest'', ''.test.v1.GetResourceResponse'', ''.test.v1.CreateResourceRequest'',
      ''.test.v1.CreateResourceResponse'', ''.test.v1.HealthCheckRequest'', ''.test.v1.HealthCheckResponse''] \<and>
   map (\<lambda>D. snd (fst (D gzip s))) [FieldMapping_Descriptor, Policy_Descriptor] = [[0], [1]] \<and>
   map_option message_names (decode_refs file_policy_proto_rawDesc) =
     Some [''.o3co.authz.v1.FieldMapping'', ''.o3co.authz.v1.Policy'']"
proof -
  have fresh: "run_message (message_Reset u mi zero) (message_ProtoReflect u mi) calls (Some (new_struct zero)) =
      Return (replicate (count_list calls CallProtoReflect) (Some mi))" for u mi and zero :: 'm
    by (rule run_message_own) (simp add: new_struct_def)
  show ?thesis
    unfolding Let_def
    by (simp add: message_method_defs fresh upt_conv_Cons case_prod_beta test_refs policy_refs message_names_def)
qed

end
