(* ===== verification/Cache_Concurrency.thy ===== *)
theory Cache_Concurrency
  imports Introspection_Cache
begin

text \<open>
  \<open>token_introspection/cache.go\<close> under concurrency. Interceptors call \<open>Get\<close> and \<open>Set\<close> from many
  goroutines while the sweep goroutine runs, and nothing but \<open>evictMu\<close> orders them. Here every
  access to the shared map, the mutex, the context and the ticker is one step, a goroutine is a
  program counter with its local variables, and a run is any interleaving of such steps.
\<close>

section \<open>Shared state\<close>

text \<open>
  The map, the mutex (and who holds it), whether the context is cancelled and whether a tick
  waits in the ticker's channel, which holds at most one. \<open>sh_stores\<close> records every \<open>Store\<close> in
  order; no step of the program reads it, it only says what \<open>Range\<close> may report.
\<close>

record shared =
  sh_entries :: "string \<rightharpoonup> cacheEntry"
  sh_stores :: "(string \<times> cacheEntry) list"
  sh_evictMu :: "nat option"
  sh_cancelled :: bool
  sh_tick :: bool

text \<open>
  \<open>sync.Map.Range\<close> visits no key twice and is not a snapshot: a key that is stored or deleted
  while \<open>Range\<close> runs may be reported with any mapping it had during the call, or not at
  all. A key that keeps its mapping is visited.
\<close>

record map_range =
  rg_snap :: "string \<rightharpoonup> cacheEntry"
  rg_since :: nat
  rg_visited :: "string set"

definition range_start :: "shared \<Rightarrow> map_range" where
  "range_start sh = \<lparr>rg_snap = sh_entries sh, rg_since = length (sh_stores sh), rg_visited = {}\<rparr>"

definition stored_since :: "shared \<Rightarrow> map_range \<Rightarrow> (string \<times> cacheEntry) set" where
  "stored_since sh rg = set (drop (rg_since rg) (sh_stores sh))"

definition range_may :: "shared \<Rightarrow> map_range \<Rightarrow> string \<Rightarrow> cacheEntry \<Rightarrow> bool" where
  "range_may sh rg k e \<longleftrightarrow>
     k \<notin> rg_visited rg \<and> (rg_snap rg k = Some e \<or> (k, e) \<in> stored_since sh rg)"

definition range_may_end :: "shared \<Rightarrow> map_range \<Rightarrow> bool" where
  "range_may_end sh rg \<longleftrightarrow>
     (\<forall>k \<in> dom (rg_snap rg) - rg_visited rg. sh_entries sh k = None \<or> k \<in> fst ` stored_since sh rg)"

definition range_visit :: "string \<Rightarrow> map_range \<Rightarrow> map_range" where
  "range_visit k rg = rg\<lparr>rg_visited := insert k (rg_visited rg)\<rparr>"

definition sh_delete :: "string \<Rightarrow> shared \<Rightarrow> shared" where
  "sh_delete k sh = sh\<lparr>sh_entries := (sh_entries sh)(k := None)\<rparr>"

definition sh_store :: "string \<Rightarrow> cacheEntry \<Rightarrow> shared \<Rightarrow> shared" where
  "sh_store k e sh =
     sh\<lparr>sh_entries := (sh_entries sh)(k \<mapsto> e), sh_stores := sh_stores sh @ [(k, e)]\<rparr>"

section \<open>Goroutines\<close>

text \<open>Where a goroutine is, with the local variables it still needs.\<close>

datatype pc =
    Idle
  | GetLoad string
  | GetCheck string cacheEntry
  | GetDelete string
  | SetStore string cacheEntry
  | EvictLock
  | EvictLocked
  | EvictCount map_range nat
  | EvictLoop nat
  | EvictFind nat map_range "(string \<times> time) option"
  | EvictDelete nat string
  | SweepSelect
  | SweepTicked
  | SweepRange time map_range
  | SweepDelete time map_range string
  | SweepStopped

text \<open>What a step shows to the caller: nothing, or how \<open>Get\<close> answers (and when it read the clock).\<close>

datatype cache_event = Tau | Hit string IntrospectionResult time | Miss string

inductive get_step :: "shared \<Rightarrow> pc \<Rightarrow> cache_event \<Rightarrow> shared \<Rightarrow> pc \<Rightarrow> bool" where
  get_call: "get_step sh Idle Tau sh (GetLoad key)"
| get_absent: "sh_entries sh key = None \<Longrightarrow> get_step sh (GetLoad key) (Miss key) sh Idle"
| get_load: "sh_entries sh key = Some entry \<Longrightarrow> get_step sh (GetLoad key) Tau sh (GetCheck key entry)"
| get_expired: "time_After now (ce_expiresAt entry) \<Longrightarrow>
    get_step sh (GetCheck key entry) Tau sh (GetDelete key)"
| get_fresh: "\<not> time_After now (ce_expiresAt entry) \<Longrightarrow>
    get_step sh (GetCheck key entry) (Hit key (ce_result entry) now) sh Idle"
| get_delete: "get_step sh (GetDelete key) (Miss key) (sh_delete key sh) Idle"

inductive set_step :: "inMemoryCache \<Rightarrow> shared \<Rightarrow> pc \<Rightarrow> shared \<Rightarrow> pc \<Rightarrow> bool" for c where
  set_call: "set_step c sh Idle sh
    (SetStore key \<lparr>ce_result = result, ce_expiresAt = expiry_of (ttl c) now result\<rparr>)"
| set_store: "set_step c sh (SetStore key entry) (sh_store key entry sh)
    (if maxEntries c > 0 then EvictLock else Idle)"

inductive evict_step :: "inMemoryCache \<Rightarrow> nat \<Rightarrow> shared \<Rightarrow> pc \<Rightarrow> shared \<Rightarrow> pc \<Rightarrow> bool" for c me where
  evict_lock: "sh_evictMu sh = None \<Longrightarrow>
    evict_step c me sh EvictLock (sh\<lparr>sh_evictMu := Some me\<rparr>) EvictLocked"
| evict_count: "evict_step c me sh EvictLocked sh (EvictCount (range_start sh) 0)"
| evict_count_visit: "range_may sh rg key entry \<Longrightarrow>
    evict_step c me sh (EvictCount rg cnt) sh (EvictCount (range_visit key rg) (Suc cnt))"
| evict_count_end: "range_may_end sh rg \<Longrightarrow>
    evict_step c me sh (EvictCount rg cnt) sh (EvictLoop cnt)"
| evict_more: "int cnt > maxEntries c \<Longrightarrow>
    evict_step c me sh (EvictLoop cnt) sh (EvictFind cnt (range_start sh) None)"
| evict_find_visit: "range_may sh rg key entry \<Longrightarrow>
    evict_step c me sh (EvictFind cnt rg oldest) sh
      (EvictFind cnt (range_visit key rg) (find_oldest [(key, entry)] oldest))"
| evict_find_none: "range_may_end sh rg \<Longrightarrow>
    evict_step c me sh (EvictFind cnt rg None) sh (EvictLoop (cnt - 1))"
| evict_find_some: "range_may_end sh rg \<Longrightarrow>
    evict_step c me sh (EvictFind cnt rg (Some (oldestKey, oldestExpiry))) sh (EvictDelete cnt oldestKey)"
| evict_delete: "evict_step c me sh (EvictDelete cnt oldestKey) (sh_delete oldestKey sh) (EvictLoop (cnt - 1))"
| evict_unlock: "\<not> int cnt > maxEntries c \<Longrightarrow>
    evict_step c me sh (EvictLoop cnt) (sh\<lparr>sh_evictMu := None\<rparr>) Idle"

inductive sweep_step :: "shared \<Rightarrow> pc \<Rightarrow> shared \<Rightarrow> pc \<Rightarrow> bool" where
  sweep_done: "sh_cancelled sh \<Longrightarrow> sweep_step sh SweepSelect sh SweepStopped"
| sweep_tick: "sh_tick sh \<Longrightarrow> sweep_step sh SweepSelect (sh\<lparr>sh_tick := False\<rparr>) SweepTicked"
| sweep_begin: "sweep_step sh SweepTicked sh (SweepRange now (range_start sh))"
| sweep_keep: "range_may sh rg key entry \<Longrightarrow> \<not> time_After now (ce_expiresAt entry) \<Longrightarrow>
    sweep_step sh (SweepRange now rg) sh (SweepRange now (range_visit key rg))"
| sweep_expired: "range_may sh rg key entry \<Longrightarrow> time_After now (ce_expiresAt entry) \<Longrightarrow>
    sweep_step sh (SweepRange now rg) sh (SweepDelete now (range_visit key rg) key)"
| sweep_delete: "sweep_step sh (SweepDelete now rg key) (sh_delete key sh) (SweepRange now rg)"
| sweep_end: "range_may_end sh rg \<Longrightarrow> sweep_step sh (SweepRange now rg) sh SweepSelect"

text \<open>
  The interleaving: some goroutine takes a step of the operation it is in, the ticker fires or
  the context is cancelled.
\<close>

type_synonym cache_conf = "shared \<times> (nat \<Rightarrow> pc)"

inductive conc_step :: "inMemoryCache \<Rightarrow> cache_conf \<Rightarrow> cache_event \<Rightarrow> cache_conf \<Rightarrow> bool" for c where
  step_get: "get_step sh (pcs me) ev sh' pc' \<Longrightarrow> conc_step c (sh, pcs) ev (sh', pcs(me := pc'))"
| step_set: "set_step c sh (pcs me) sh' pc' \<Longrightarrow> conc_step c (sh, pcs) Tau (sh', pcs(me := pc'))"
| step_evict: "evict_step c me sh (pcs me) sh' pc' \<Longrightarrow> conc_step c (sh, pcs) Tau (sh', pcs(me := pc'))"
| step_sweep: "sweep_step sh (pcs me) sh' pc' \<Longrightarrow> conc_step c (sh, pcs) Tau (sh', pcs(me := pc'))"
| step_ticker: "conc_step c (sh, pcs) Tau (sh\<lparr>sh_tick := True\<rparr>, pcs)"
| step_cancel: "conc_step c (sh, pcs) Tau (sh\<lparr>sh_cancelled := True\<rparr>, pcs)"

text \<open>
  The cache as \<open>NewInMemoryCache\<close> leaves it: no entries, and goroutine 0 is the sweep when
  one was started.
\<close>

definition cache_start :: "inMemoryCache \<times> int option \<Rightarrow> cache_conf" where
  "cache_start cs =
     (\<lparr>sh_entries = map_of (entries (fst cs)), sh_stores = [], sh_evictMu = None, sh_cancelled = False,
       sh_tick = False\<rparr>,
      (\<lambda>_. Idle)(0 := (case snd cs of None \<Rightarrow> Idle | Some _ \<Rightarrow> SweepSelect)))"

inductive cache_reachable :: "int \<Rightarrow> InMemoryCacheOption list \<Rightarrow> cache_conf \<Rightarrow> bool" for d opts where
  reach_start: "cache_reachable d opts (cache_start (NewInMemoryCache d opts))"
| reach_step: "cache_reachable d opts s \<Longrightarrow> conc_step (fst (NewInMemoryCache d opts)) s ev s' \<Longrightarrow>
    cache_reachable d opts s'"

lemmas cache_steps = get_step.simps set_step.simps evict_step.simps sweep_step.simps

section \<open>What the map can hold\<close>

text \<open>
  Every mapping in the shared map, in a \<open>Range\<close> or in a local variable of \<open>Get\<close> was put there by a
  \<open>Store\<close>, and each \<open>Store\<close> holds what \<open>Set\<close> computed.
\<close>

definition range_ok :: "shared \<Rightarrow> map_range \<Rightarrow> bool" where
  "range_ok sh rg \<longleftrightarrow>
     rg_since rg \<le> length (sh_stores sh) \<and>
     (\<forall>k e. rg_snap rg k = Some e \<longrightarrow> (k, e) \<in> set (sh_stores sh)) \<and>
     (\<forall>k e. sh_entries sh k = Some e \<longrightarrow> rg_snap rg k = Some e \<or> (k, e) \<in> stored_since sh rg)"

definition set_entry :: "inMemoryCache \<Rightarrow> cacheEntry \<Rightarrow> bool" where
  "set_entry c e \<longleftrightarrow> (\<exists>now. ce_expiresAt e = expiry_of (ttl c) now (ce_result e))"

fun pc_ok :: "inMemoryCache \<Rightarrow> shared \<Rightarrow> pc \<Rightarrow> bool" where
  "pc_ok c sh (GetCheck key entry) \<longleftrightarrow> (key, entry) \<in> set (sh_stores sh)"
| "pc_ok c sh (SetStore key entry) \<longleftrightarrow> set_entry c entry"
| "pc_ok c sh (EvictCount rg cnt) \<longleftrightarrow> range_ok sh rg"
| "pc_ok c sh (EvictFind cnt rg oldest) \<longleftrightarrow> range_ok sh rg"
| "pc_ok c sh (SweepRange now rg) \<longleftrightarrow> range_ok sh rg"
| "pc_ok c sh (SweepDelete now rg key) \<longleftrightarrow> range_ok sh rg"
| "pc_ok c sh _ \<longleftrightarrow> True"

definition map_ok :: "inMemoryCache \<Rightarrow> shared \<Rightarrow> bool" where
  "map_ok c sh \<longleftrightarrow>
     (\<forall>k e. sh_entries sh k = Some e \<longrightarrow> (k, e) \<in> set (sh_stores sh)) \<and>
     (\<forall>k e. (k, e) \<in> set (sh_stores sh) \<longrightarrow> set_entry c e)"

definition stores_ok :: "inMemoryCache \<Rightarrow> cache_conf \<Rightarrow> bool" where
  "stores_ok c s \<longleftrightarrow> map_ok c (fst s) \<and> (\<forall>t. pc_ok c (fst s) (snd s t))"

lemma stored_since_simps [simp]:
  "stored_since (sh_delete k sh) rg = stored_since sh rg"
  "stored_since (sh\<lparr>sh_evictMu := m\<rparr>) rg = stored_since sh rg"
  "stored_since (sh\<lparr>sh_tick := b\<rparr>) rg = stored_since sh rg"
  "stored_since (sh\<lparr>sh_cancelled := b\<rparr>) rg = stored_since sh rg"
  "stored_since sh (range_visit k rg) = stored_since sh rg"
  "stored_since sh (range_start sh) = {}"
  by (simp_all add: stored_since_def sh_delete_def range_visit_def range_start_def)

lemma stored_since_store:
  "rg_since rg \<le> length (sh_stores sh) \<Longrightarrow>
   stored_since (sh_store k e sh) rg = insert (k, e) (stored_since sh rg)"
  by (simp add: stored_since_def sh_store_def)

lemma range_visit_simps [simp]:
  "rg_snap (range_visit k rg) = rg_snap rg"
  "rg_since (range_visit k rg) = rg_since rg"
  "rg_visited (range_visit k rg) = insert k (rg_visited rg)"
  by (simp_all add: range_visit_def)

lemma range_start_simps [simp]:
  "rg_snap (range_start sh) = sh_entries sh"
  "rg_since (range_start sh) = length (sh_stores sh)"
  "rg_visited (range_start sh) = {}"
  by (simp_all add: range_start_def)

lemma sh_delete_simps [simp]:
  "sh_entries (sh_delete k sh) = (sh_entries sh)(k := None)"
  "sh_stores (sh_delete k sh) = sh_stores sh"
  "sh_evictMu (sh_delete k sh) = sh_evictMu sh"
  "sh_cancelled (sh_delete k sh) = sh_cancelled sh"
  "sh_tick (sh_delete k sh) = sh_tick sh"
  by (simp_all add: sh_delete_def)

lemma sh_store_simps [simp]:
  "sh_entries (sh_store k e sh) = (sh_entries sh)(k \<mapsto> e)"
  "sh_stores (sh_store k e sh) = sh_stores sh @ [(k, e)]"
  "sh_evictMu (sh_store k e sh) = sh_evictMu sh"
  "sh_cancelled (sh_store k e sh) = sh_cancelled sh"
  "sh_tick (sh_store k e sh) = sh_tick sh"
  by (simp_all add: sh_store_def)

lemma range_ok_simps [simp]:
  "range_ok sh (range_visit k rg) = range_ok sh rg"
  "range_ok (sh\<lparr>sh_evictMu := m\<rparr>) rg = range_ok sh rg"
  "range_ok (sh\<lparr>sh_tick := b\<rparr>) rg = range_ok sh rg"
  "range_ok (sh\<lparr>sh_cancelled := b\<rparr>) rg = range_ok sh rg"
  by (simp_all add: range_ok_def)

lemma range_ok_start: "map_ok c sh \<Longrightarrow> range_ok sh (range_start sh)"
  by (simp add: range_ok_def map_ok_def)

lemma range_ok_delete: "range_ok sh rg \<Longrightarrow> range_ok (sh_delete k sh) rg"
  by (simp add: range_ok_def)

lemma range_ok_store: "range_ok sh rg \<Longrightarrow> range_ok (sh_store k e sh) rg"
  by (auto simp: range_ok_def stored_since_store)

lemma range_ok_since: "range_ok sh rg \<Longrightarrow> rg_since rg \<le> length (sh_stores sh)"
  by (simp add: range_ok_def)

text \<open>What one goroutine does to the shared state leaves every other goroutine's facts true.\<close>

definition harmless :: "inMemoryCache \<Rightarrow> shared \<Rightarrow> pc \<Rightarrow> shared \<Rightarrow> pc \<Rightarrow> bool" where
  "harmless c sh pc sh' pc' \<longleftrightarrow>
     (map_ok c sh \<and> pc_ok c sh pc \<longrightarrow>
        map_ok c sh' \<and> pc_ok c sh' pc' \<and> (\<forall>p. pc_ok c sh p \<longrightarrow> pc_ok c sh' p))"

lemma pc_ok_delete: "pc_ok c sh p \<Longrightarrow> pc_ok c (sh_delete k sh) p"
  by (cases p) (auto simp: range_ok_delete)

lemma pc_ok_store: "pc_ok c sh p \<Longrightarrow> pc_ok c (sh_store k e sh) p"
  by (cases p) (auto simp: range_ok_store)

lemma pc_ok_simps [simp]:
  "pc_ok c (sh\<lparr>sh_evictMu := m\<rparr>) p = pc_ok c sh p"
  "pc_ok c (sh\<lparr>sh_tick := b\<rparr>) p = pc_ok c sh p"
  "pc_ok c (sh\<lparr>sh_cancelled := b\<rparr>) p = pc_ok c sh p"
  by (cases p; simp)+

lemma map_ok_simps [simp]:
  "map_ok c (sh\<lparr>sh_evictMu := m\<rparr>) = map_ok c sh"
  "map_ok c (sh\<lparr>sh_tick := b\<rparr>) = map_ok c sh"
  "map_ok c (sh\<lparr>sh_cancelled := b\<rparr>) = map_ok c sh"
  by (simp_all add: map_ok_def)

lemma map_ok_delete: "map_ok c sh \<Longrightarrow> map_ok c (sh_delete k sh)"
  by (simp add: map_ok_def)

lemma map_ok_store: "map_ok c sh \<Longrightarrow> set_entry c e \<Longrightarrow> map_ok c (sh_store k e sh)"
  by (auto simp: map_ok_def split: if_splits)

lemma map_ok_load: "map_ok c sh \<Longrightarrow> sh_entries sh k = Some e \<Longrightarrow> (k, e) \<in> set (sh_stores sh)"
  by (simp add: map_ok_def)

lemma get_harmless: "get_step sh pc ev sh' pc' \<Longrightarrow> harmless c sh pc sh' pc'"
  by (cases rule: get_step.cases) (auto simp: harmless_def map_ok_delete pc_ok_delete map_ok_load)

lemma set_harmless: "set_step c sh pc sh' pc' \<Longrightarrow> harmless c sh pc sh' pc'"
  by (cases rule: set_step.cases) (auto simp: harmless_def map_ok_store pc_ok_store set_entry_def)

lemma evict_harmless: "evict_step c me sh pc sh' pc' \<Longrightarrow> harmless c sh pc sh' pc'"
  by (cases rule: evict_step.cases) (auto simp: harmless_def map_ok_delete pc_ok_delete range_ok_start)

lemma sweep_harmless: "sweep_step sh pc sh' pc' \<Longrightarrow> harmless c sh pc sh' pc'"
  by (cases rule: sweep_step.cases) (auto simp: harmless_def map_ok_delete pc_ok_delete range_ok_delete range_ok_start)

lemma stores_ok_harmless:
  "harmless c sh (pcs me) sh' pc' \<Longrightarrow> stores_ok c (sh, pcs) \<Longrightarrow> stores_ok c (sh', pcs(me := pc'))"
  by (auto simp: harmless_def stores_ok_def)

lemma stores_ok_step: "conc_step c s ev s' \<Longrightarrow> stores_ok c s \<Longrightarrow> stores_ok c s'"
proof (induction rule: conc_step.induct)
  case (step_get sh pcs me ev sh' pc')
  then show ?case by (blast intro: stores_ok_harmless get_harmless)
next
  case (step_set sh pcs me sh' pc')
  then show ?case by (blast intro: stores_ok_harmless set_harmless)
next
  case (step_evict me sh pcs sh' pc')
  then show ?case by (blast intro: stores_ok_harmless evict_harmless)
next
  case (step_sweep sh pcs me sh' pc')
  then show ?case by (blast intro: stores_ok_harmless sweep_harmless)
qed (auto simp: stores_ok_def)

lemma cache_start_conf:
  "cache_start (NewInMemoryCache d opts) =
     (\<lparr>sh_entries = Map.empty, sh_stores = [], sh_evictMu = None, sh_cancelled = False, sh_tick = False\<rparr>,
      (\<lambda>_. Idle)(0 := (case snd (NewInMemoryCache d opts) of None \<Rightarrow> Idle | Some _ \<Rightarrow> SweepSelect)))"
  by (simp add: cache_start_def NewInMemoryCache_def Let_def)

lemma stores_ok_reachable: "cache_reachable d opts s \<Longrightarrow> stores_ok (fst (NewInMemoryCache d opts)) s"
proof (induction rule: cache_reachable.induct)
  case reach_start
  show ?case by (auto simp: cache_start_conf stores_ok_def map_ok_def split: option.split)
next
  case (reach_step s ev s')
  then show ?case by (blast intro: stores_ok_step)
qed

section \<open>How large the map can get\<close>

text \<open>
  Goroutines that have stored and not yet finished evicting, and among them those that still wait
  for the mutex and those that hold it.
\<close>

fun evicting :: "pc \<Rightarrow> bool" where
  "evicting EvictLock \<longleftrightarrow> True"
| "evicting EvictLocked \<longleftrightarrow> True"
| "evicting (EvictCount rg cnt) \<longleftrightarrow> True"
| "evicting (EvictLoop cnt) \<longleftrightarrow> True"
| "evicting (EvictFind cnt rg oldest) \<longleftrightarrow> True"
| "evicting (EvictDelete cnt key) \<longleftrightarrow> True"
| "evicting _ \<longleftrightarrow> False"

definition in_section :: "pc \<Rightarrow> bool" where
  "in_section p \<longleftrightarrow> evicting p \<and> p \<noteq> EvictLock"

definition evictors :: "(nat \<Rightarrow> pc) \<Rightarrow> nat set" where
  "evictors pcs = {t. evicting (pcs t)}"

definition waiting :: "(nat \<Rightarrow> pc) \<Rightarrow> nat set" where
  "waiting pcs = {t. pcs t = EvictLock}"

text \<open>
  What the holder of the mutex knows. The keys it has not counted were stored after it started to
  count, each by a goroutine that now waits for the mutex; so the map never has more than
  \<open>cnt\<close> entries beyond one for every waiting goroutine.
\<close>

fun section_ok :: "shared \<Rightarrow> nat \<Rightarrow> pc \<Rightarrow> bool" where
  "section_ok sh w (EvictCount rg cnt) \<longleftrightarrow>
     finite (rg_visited rg) \<and> card (rg_visited rg) = cnt \<and> card (fst ` stored_since sh rg) \<le> w"
| "section_ok sh w (EvictLoop cnt) \<longleftrightarrow> card (dom (sh_entries sh)) \<le> cnt + w"
| "section_ok sh w (EvictFind cnt rg oldest) \<longleftrightarrow>
     0 < cnt \<and> finite (dom (rg_snap rg)) \<and> card (fst ` stored_since sh rg) \<le> w \<and>
     card (dom (rg_snap rg) \<union> fst ` stored_since sh rg) \<le> cnt + w \<and>
     (case oldest of
        None \<Rightarrow> rg_visited rg = {}
      | Some (key, _) \<Rightarrow> key \<in> dom (rg_snap rg) \<union> fst ` stored_since sh rg)"
| "section_ok sh w (EvictDelete cnt key) \<longleftrightarrow>
     0 < cnt \<and> card (insert key (dom (sh_entries sh))) \<le> cnt + w"
| "section_ok sh w _ \<longleftrightarrow> True"

definition size_ok :: "inMemoryCache \<Rightarrow> cache_conf \<Rightarrow> bool" where
  "size_ok c s \<longleftrightarrow>
     finite (evictors (snd s)) \<and> finite (dom (sh_entries (fst s))) \<and>
     (\<forall>t. sh_evictMu (fst s) = Some t \<longleftrightarrow> in_section (snd s t)) \<and>
     int (card (dom (sh_entries (fst s)))) \<le> maxEntries c + int (card (evictors (snd s))) \<and>
     (\<forall>t. section_ok (fst s) (card (waiting (snd s))) (snd s t))"

lemma evictors_upd: "evictors (pcs(t := p)) = (if evicting p then insert t (evictors pcs) else evictors pcs - {t})"
  by (auto simp: evictors_def)

lemma waiting_upd: "waiting (pcs(t := p)) = (if p = EvictLock then insert t (waiting pcs) else waiting pcs - {t})"
  by (auto simp: waiting_def)

lemma waiting_le: "waiting pcs \<subseteq> evictors pcs"
  by (auto simp: waiting_def evictors_def)

lemma finite_stored_since [simp]: "finite (stored_since sh rg)"
  by (simp add: stored_since_def)

text \<open>Deletions by others keep what the holder knows, and so does a store, counted as one more waiter.\<close>

lemma section_ok_shrink:
  assumes "section_ok sh w p" and "finite (dom (sh_entries sh))"
    and "dom (sh_entries sh') \<subseteq> dom (sh_entries sh)" and "sh_stores sh' = sh_stores sh"
  shows "section_ok sh' w p"
proof -
  have "stored_since sh' rg = stored_since sh rg" for rg
    using assms(4) by (simp add: stored_since_def)
  moreover have "card (dom (sh_entries sh')) \<le> card (dom (sh_entries sh))"
    using assms(2,3) by (rule card_mono)
  moreover have "card (insert k (dom (sh_entries sh'))) \<le> card (insert k (dom (sh_entries sh)))" for k
    using assms(2,3) by (intro card_mono) auto
  ultimately show ?thesis
    using assms(1) by (cases p) (auto split: option.split_asm intro: le_trans)
qed

lemma card_insert_Suc: "finite A \<Longrightarrow> card A \<le> n \<Longrightarrow> card (insert x A) \<le> Suc n"
  by (simp add: card_insert_if)

lemma section_ok_store:
  assumes "section_ok sh w p" and "pc_ok c sh p" and "finite (dom (sh_entries sh))"
  shows "section_ok (sh_store k e sh) (Suc w) p"
proof (cases p)
  case (EvictCount rg cnt)
  with assms show ?thesis
    by (simp add: stored_since_store range_ok_since card_insert_Suc)
next
  case (EvictFind cnt rg oldest)
  let ?U = "dom (rg_snap rg) \<union> fst ` stored_since sh rg"
  from EvictFind assms have "finite ?U" by simp
  then have "card (insert k ?U) \<le> Suc (cnt + w)"
    using EvictFind assms(1) by (intro card_insert_Suc) simp_all
  with EvictFind assms show ?thesis
    by (auto simp: stored_since_store range_ok_since card_insert_Suc split: option.split_asm)
next
  case (EvictLoop cnt)
  with assms card_insert_Suc [of "dom (sh_entries sh)" "cnt + w" k] show ?thesis by simp
next
  case (EvictDelete cnt x)
  with assms card_insert_Suc [of "insert x (dom (sh_entries sh))" "cnt + w" k] show ?thesis
    by (simp add: insert_commute)
qed (use assms in auto)

lemma section_ok_outside: "\<not> in_section p \<Longrightarrow> section_ok sh w p"
  by (cases p) (auto simp: in_section_def)

text \<open>A step of a goroutine that is not evicting, if it stores nothing.\<close>

lemma size_ok_outside:
  assumes "size_ok c (sh, pcs)" and "\<not> evicting (pcs me)" "\<not> evicting p"
    and "dom (sh_entries sh') \<subseteq> dom (sh_entries sh)" "sh_stores sh' = sh_stores sh" "sh_evictMu sh' = sh_evictMu sh"
  shows "size_ok c (sh', pcs(me := p))"
proof -
  have fin: "finite (dom (sh_entries sh))" using assms(1) by (simp add: size_ok_def)
  have ev: "evictors (pcs(me := p)) = evictors pcs" "waiting (pcs(me := p)) = waiting pcs"
    using assms(2,3) by (auto simp: evictors_def waiting_def)
  have "card (dom (sh_entries sh')) \<le> card (dom (sh_entries sh))"
    using fin assms(4) by (rule card_mono)
  then show ?thesis
    using assms section_ok_shrink [OF _ fin assms(4,5)] finite_subset [OF assms(4) fin]
    by (auto simp: size_ok_def ev in_section_def section_ok_outside)
qed

text \<open>A step of the holder of the mutex that keeps it.\<close>

lemma size_ok_section:
  assumes "size_ok c (sh, pcs)" and "in_section (pcs me)" "in_section p"
    and "dom (sh_entries sh') \<subseteq> dom (sh_entries sh)" "sh_evictMu sh' = sh_evictMu sh"
    and "section_ok sh' (card (waiting pcs)) p"
  shows "size_ok c (sh', pcs(me := p))"
proof -
  have fin: "finite (dom (sh_entries sh))" using assms(1) by (simp add: size_ok_def)
  have ev: "evictors (pcs(me := p)) = evictors pcs" "waiting (pcs(me := p)) = waiting pcs"
    using assms(2,3) by (auto simp: evictors_def waiting_def in_section_def)
  have "card (dom (sh_entries sh')) \<le> card (dom (sh_entries sh))"
    using fin assms(4) by (rule card_mono)
  moreover have "\<not> in_section (pcs t)" if "t \<noteq> me" for t
    using that assms(1,2) unfolding size_ok_def by (metis option.inject fst_conv snd_conv)
  ultimately show ?thesis
    using assms finite_subset [OF assms(4) fin] by (auto simp: size_ok_def ev section_ok_outside)
qed

lemma size_ok_store:
  assumes "size_ok c (sh, pcs)" and "stores_ok c (sh, pcs)" and "pcs me = SetStore k e"
  shows "size_ok c (sh_store k e sh, pcs(me := EvictLock))"
proof -
  have fin: "finite (dom (sh_entries sh))" "finite (evictors pcs)" using assms(1) by (simp_all add: size_ok_def)
  have new: "me \<notin> evictors pcs" "me \<notin> waiting pcs" using assms(3) by (simp_all add: evictors_def waiting_def)
  have "finite (waiting pcs)" using fin(2) waiting_le by (rule rev_finite_subset)
  then have w: "card (waiting (pcs(me := EvictLock))) = Suc (card (waiting pcs))"
    using new by (simp add: waiting_upd)
  have ev: "card (evictors (pcs(me := EvictLock))) = Suc (card (evictors pcs))"
    using new fin by (simp add: evictors_upd)
  have "card (insert k (dom (sh_entries sh))) \<le> Suc (card (dom (sh_entries sh)))"
    using fin by (simp add: card_insert_if)
  moreover have "section_ok (sh_store k e sh) (Suc (card (waiting pcs))) (pcs t)" for t
    using assms(1,2) fin by (auto intro: section_ok_store simp: size_ok_def stores_ok_def)
  moreover have "finite (evictors (pcs(me := EvictLock)))" using fin by (simp add: evictors_upd)
  ultimately show ?thesis
    using assms fin by (auto simp: size_ok_def ev w in_section_def)
qed

lemma size_ok_lock:
  assumes "size_ok c (sh, pcs)" and "pcs me = EvictLock" and "sh_evictMu sh = None"
  shows "size_ok c (sh\<lparr>sh_evictMu := Some me\<rparr>, pcs(me := EvictLocked))"
proof -
  have "\<not> in_section (pcs t)" for t using assms(1,3) by (simp add: size_ok_def)
  moreover have "evictors (pcs(me := EvictLocked)) = evictors pcs"
    using assms(2) by (auto simp: evictors_def)
  ultimately show ?thesis
    using assms by (auto simp: size_ok_def section_ok_outside) (simp add: in_section_def)
qed

lemma size_ok_unlock:
  assumes "size_ok c (sh, pcs)" and "pcs me = EvictLoop cnt" and "\<not> int cnt > maxEntries c"
  shows "size_ok c (sh\<lparr>sh_evictMu := None\<rparr>, pcs(me := Idle))"
proof -
  have me: "sh_evictMu sh = Some me"
    using assms(1,2) by (simp add: size_ok_def in_section_def)
  then have others: "\<not> in_section (pcs t)" if "t \<noteq> me" for t
    using that assms(1) by (auto simp: size_ok_def)
  have "evicting ((pcs(me := Idle)) t) \<longleftrightarrow> pcs t = EvictLock" for t
    using others [of t] assms(2) by (cases "t = me") (auto simp: in_section_def)
  then have eq: "evictors (pcs(me := Idle)) = waiting pcs"
    by (simp add: evictors_def waiting_def)
  have "section_ok sh (card (waiting pcs)) (pcs me)" using assms(1) unfolding size_ok_def by auto
  with assms(2) have "card (dom (sh_entries sh)) \<le> cnt + card (waiting pcs)" by simp
  moreover have "finite (waiting pcs)"
    using assms(1) waiting_le [of pcs] finite_subset by (auto simp: size_ok_def)
  ultimately show ?thesis
    using assms others by (auto simp: size_ok_def eq section_ok_outside) (simp_all add: in_section_def)
qed

lemma counted:
  assumes "range_ok sh rg" and "range_may_end sh rg"
  shows "dom (sh_entries sh) \<subseteq> rg_visited rg \<union> fst ` stored_since sh rg"
  using assms by (force simp: range_ok_def range_may_end_def dom_def)

lemma within_range:
  assumes "range_ok sh rg"
  shows "dom (sh_entries sh) \<subseteq> dom (rg_snap rg) \<union> fst ` stored_since sh rg"
  using assms by (force simp: range_ok_def dom_def)

lemma find_oldest_key:
  "find_oldest [(key, entry)] oldest = Some (k, t) \<Longrightarrow> k = key \<or> oldest = Some (k, t)"
  using find_oldest_in by fastforce

lemma section_step:
  assumes "evict_step c me sh p sh' p'" and "section_ok sh w p" "pc_ok c sh p"
    and "finite (dom (sh_entries sh))" "0 < maxEntries c"
  shows "section_ok sh' w p'"
  using assms(1)
proof cases
  case (evict_count_visit rg key entry cnt)
  with assms(2) show ?thesis by (simp add: range_may_def)
next
  case (evict_count_end rg cnt)
  with assms(2,3) have "card (dom (sh_entries sh)) \<le> card (rg_visited rg \<union> fst ` stored_since sh rg)"
    by (intro card_mono) (simp_all add: counted)
  also have "\<dots> \<le> cnt + w"
    using evict_count_end assms(2) card_Un_le [of "rg_visited rg" "fst ` stored_since sh rg"] by simp
  finally show ?thesis using evict_count_end by simp
next
  case (evict_more cnt)
  with assms show ?thesis by simp
next
  case (evict_find_visit rg key entry cnt oldest)
  then have "key \<in> dom (rg_snap rg) \<union> fst ` stored_since sh rg"
    by (force simp: range_may_def)
  moreover obtain k t where kt: "find_oldest [(key, entry)] oldest = Some (k, t)"
    using find_oldest_Some [of "[(key, entry)]" oldest] by auto
  ultimately have "k \<in> dom (rg_snap rg) \<union> fst ` stored_since sh rg"
    using find_oldest_key [OF kt] evict_find_visit(1) assms(2) by auto
  with evict_find_visit kt assms(2) show ?thesis by (simp del: find_oldest.simps)
next
  case (evict_find_none rg cnt)
  with assms(2,3) have "card (dom (sh_entries sh)) \<le> card (fst ` stored_since sh rg)"
    using counted [of sh rg] by (intro card_mono) auto
  also have "\<dots> \<le> w" using evict_find_none assms(2) by simp
  also have "w \<le> cnt - 1 + w" by simp
  finally show ?thesis using evict_find_none by simp
next
  case (evict_find_some rg cnt key expiry)
  with assms(2,3) have "card (insert key (dom (sh_entries sh))) \<le> card (dom (rg_snap rg) \<union> fst ` stored_since sh rg)"
    using within_range [of sh rg] by (intro card_mono) auto
  with evict_find_some assms(2) show ?thesis by simp
next
  case (evict_delete cnt key)
  have "card (dom (sh_entries sh) - {key}) < card (insert key (dom (sh_entries sh)))"
    using assms(4) by (intro psubset_card_mono) auto
  also have "\<dots> \<le> cnt + w" using evict_delete assms(2) by simp
  finally show ?thesis using evict_delete assms(2) by simp
qed simp_all

lemma size_ok_evict:
  assumes "evict_step c me sh (pcs me) sh' p'" and "size_ok c (sh, pcs)" "stores_ok c (sh, pcs)" "0 < maxEntries c"
  shows "size_ok c (sh', pcs(me := p'))"
proof -
  have "section_ok sh (card (waiting pcs)) (pcs me)" "pc_ok c sh (pcs me)" "finite (dom (sh_entries sh))"
    using assms(2,3) unfolding size_ok_def stores_ok_def by auto
  from section_step [OF assms(1) this assms(4)] have ok: "section_ok sh' (card (waiting pcs)) p'" .
  from assms(1) show ?thesis
  proof cases
    case evict_lock
    with assms(2) show ?thesis by (simp add: size_ok_lock)
  next
    case (evict_unlock cnt)
    with assms(2) show ?thesis by (simp add: size_ok_unlock)
  qed (use ok assms(2) in \<open>auto intro!: size_ok_section [of c sh pcs] simp: in_section_def
      split: if_splits\<close>)
qed

lemma size_ok_step:
  assumes "conc_step c s ev s'" and "size_ok c s" "stores_ok c s" "0 < maxEntries c"
  shows "size_ok c s'"
  using assms
proof (induction rule: conc_step.induct)
  case (step_get sh pcs me ev sh' pc')
  then show ?case by (cases rule: get_step.cases) (auto intro!: size_ok_outside [of c sh pcs] split: if_splits)
next
  case (step_set sh pcs me sh' pc')
  then show ?case by (cases rule: set_step.cases) (auto intro: size_ok_outside size_ok_store)
next
  case (step_evict me sh pcs sh' pc')
  then show ?case by (blast intro: size_ok_evict)
next
  case (step_sweep sh pcs me sh' pc')
  then show ?case by (cases rule: sweep_step.cases) (auto intro!: size_ok_outside [of c sh pcs] split: if_splits)
next
  case (step_ticker sh pcs)
  then show ?case using section_ok_shrink [of sh _ _ "sh\<lparr>sh_tick := True\<rparr>"] by (simp add: size_ok_def)
next
  case (step_cancel sh pcs)
  then show ?case using section_ok_shrink [of sh _ _ "sh\<lparr>sh_cancelled := True\<rparr>"] by (simp add: size_ok_def)
qed

lemma size_ok_reachable:
  "cache_reachable d opts s \<Longrightarrow> 0 < maxEntries (fst (NewInMemoryCache d opts)) \<Longrightarrow>
   size_ok (fst (NewInMemoryCache d opts)) s"
proof (induction rule: cache_reachable.induct)
  case reach_start
  have "evictors (snd (cache_start (NewInMemoryCache d opts))) = {}"
    by (auto simp: cache_start_conf evictors_def split: option.split_asm if_splits)
  with reach_start show ?case
    by (auto simp: size_ok_def cache_start_conf in_section_def split: option.split)
next
  case (reach_step s ev s')
  then show ?case by (blast intro: size_ok_step stores_ok_reachable)
qed

section \<open>Properties of all interleavings\<close>

text \<open>
  C21. The bound on the number of entries holds under concurrency. In any interleaving of \<open>Get\<close>, \<open>Set\<close>
  and the sweep, the cache never holds more entries than its bound plus one for each
  goroutine that has stored and not yet finished evicting; so whenever no \<open>Set\<close> is in progress the
  bound holds exactly, although counting, searching and deleting are not atomic.
\<close>

theorem cache_concurrent_bounded:
  assumes "cache_reachable d opts (sh, pcs)" and "0 < maxEntries (fst (NewInMemoryCache d opts))"
  shows "finite (dom (sh_entries sh)) \<and>
    int (card (dom (sh_entries sh))) \<le>
      maxEntries (fst (NewInMemoryCache d opts)) + int (card (evictors pcs))"
  using size_ok_reachable [OF assms] by (simp add: size_ok_def)


subsection \<open>The sweep\<close>

text \<open>
  While it ranges, an entry the sweep has visited and found expired is gone, unless it was stored again
  meanwhile.
\<close>

definition swept :: "shared \<Rightarrow> time \<Rightarrow> map_range \<Rightarrow> string set \<Rightarrow> bool" where
  "swept sh now rg ks \<longleftrightarrow>
     (\<forall>k \<in> ks. \<forall>e. rg_snap rg k = Some e \<and> time_After now (ce_expiresAt e) \<longrightarrow>
        sh_entries sh k = None \<or> k \<in> fst ` stored_since sh rg)"

fun sweep_ok :: "shared \<Rightarrow> pc \<Rightarrow> bool" where
  "sweep_ok sh (SweepRange now rg) \<longleftrightarrow> swept sh now rg (rg_visited rg)"
| "sweep_ok sh (SweepDelete now rg key) \<longleftrightarrow> swept sh now rg (rg_visited rg - {key})"
| "sweep_ok sh _ \<longleftrightarrow> True"

lemma sweep_ok_delete: "sweep_ok sh p \<Longrightarrow> sweep_ok (sh_delete k sh) p"
  by (cases p) (auto simp: swept_def)

lemma sweep_ok_store: "sweep_ok sh p \<Longrightarrow> pc_ok c sh p \<Longrightarrow> sweep_ok (sh_store k e sh) p"
  by (cases p) (auto simp: swept_def stored_since_store range_ok_since)

lemma sweep_ok_simps [simp]:
  "sweep_ok (sh\<lparr>sh_evictMu := m\<rparr>) p = sweep_ok sh p"
  "sweep_ok (sh\<lparr>sh_tick := b\<rparr>) p = sweep_ok sh p"
  "sweep_ok (sh\<lparr>sh_cancelled := b\<rparr>) p = sweep_ok sh p"
  by (cases p; simp add: swept_def)+

lemma sweep_ok_local: "sweep_step sh p sh' p' \<Longrightarrow> sweep_ok sh p \<Longrightarrow> sweep_ok sh' p'"
proof (induction rule: sweep_step.induct)
  case (sweep_keep sh rg key entry now)
  then show ?case by (force simp: swept_def range_may_def)
next
  case (sweep_delete sh now rg key)
  then show ?case by (auto simp: swept_def)
qed (auto simp: swept_def range_may_def)

definition all_swept :: "cache_conf \<Rightarrow> bool" where
  "all_swept s \<longleftrightarrow> (\<forall>t. sweep_ok (fst s) (snd s t))"

lemma all_swept_step:
  "conc_step c s ev s' \<Longrightarrow> all_swept s \<Longrightarrow> stores_ok c s \<Longrightarrow> all_swept s'"
proof (induction rule: conc_step.induct)
  case (step_get sh pcs me ev sh' pc')
  then show ?case by (cases rule: get_step.cases) (auto simp: all_swept_def sweep_ok_delete)
next
  case (step_set sh pcs me sh' pc')
  then show ?case
    by (cases rule: set_step.cases) (auto simp: all_swept_def stores_ok_def intro: sweep_ok_store)
next
  case (step_evict me sh pcs sh' pc')
  then show ?case by (cases rule: evict_step.cases) (auto simp: all_swept_def sweep_ok_delete)
next
  case (step_sweep sh pcs me sh' pc')
  then have "sweep_ok sh' pc'" by (auto simp: all_swept_def intro: sweep_ok_local)
  moreover have "sweep_ok sh p \<Longrightarrow> sweep_ok sh' p" for p
    using step_sweep(1) by (cases rule: sweep_step.cases) (auto simp: sweep_ok_delete)
  ultimately show ?case using step_sweep.prems by (auto simp: all_swept_def)
qed (auto simp: all_swept_def)

lemma all_swept_reachable: "cache_reachable d opts s \<Longrightarrow> all_swept s"
proof (induction rule: cache_reachable.induct)
  case reach_start
  show ?case by (auto simp: cache_start_conf all_swept_def split: option.split)
next
  case (reach_step s ev s')
  then show ?case by (blast intro: all_swept_step stores_ok_reachable)
qed

text \<open>
  C26. A sweep does its work whatever runs beside it: when it returns to its \<open>select\<close>, every entry of the
  cache either had not expired when the sweep read the clock or was stored while it ran.
\<close>

theorem sweep_removes_expired:
  assumes "cache_reachable d opts (sh, pcs)" and "pcs me = SweepRange now rg"
    and "sweep_step sh (pcs me) sh' SweepSelect" and "sh_entries sh' key = Some e"
  shows "\<not> time_After now (ce_expiresAt e) \<or> key \<in> fst ` stored_since sh rg"
proof -
  from assms(2,3) have sh': "sh' = sh" and fin: "range_may_end sh rg" by (auto simp: sweep_step.simps)
  have "sweep_ok sh (pcs me)" using all_swept_reachable [OF assms(1)] by (simp add: all_swept_def)
  then have sw: "swept sh now rg (rg_visited rg)" by (simp add: assms(2))
  have "pc_ok (fst (NewInMemoryCache d opts)) sh (pcs me)"
    using stores_ok_reachable [OF assms(1)] unfolding stores_ok_def by auto
  then have "rg_snap rg key = Some e \<or> (key, e) \<in> stored_since sh rg"
    using assms(4) by (auto simp: assms(2) sh' range_ok_def)
  then show ?thesis
  proof
    assume snap: "rg_snap rg key = Some e"
    show ?thesis
    proof (cases "key \<in> rg_visited rg")
      case True
      with sw snap assms(4) show ?thesis unfolding sh' swept_def by fastforce
    next
      case False
      with snap have "key \<in> dom (rg_snap rg) - rg_visited rg" by auto
      with fin assms(4) show ?thesis unfolding sh' range_may_end_def by (metis option.distinct(1))
    qed
  next
    assume "(key, e) \<in> stored_since sh rg"
    then have "key \<in> fst ` stored_since sh rg" by (rule image_eqI [rotated]) simp
    then show ?thesis ..
  qed
qed

subsection \<open>Progress\<close>

lemma range_progress: "range_may_end sh rg \<or> (\<exists>key entry. range_may sh rg key entry)"
  by (auto simp: range_may_end_def range_may_def)

text \<open>
  A loop that never blocks before it is done and whose every step lowers a rank: a run of it is
  bounded by the rank of its first state, and where it cannot go on it is done.
\<close>

locale terminating_loop =
  fixes step :: "'s \<Rightarrow> 's \<Rightarrow> bool" and inv :: "'s \<Rightarrow> bool" and rank :: "'s \<Rightarrow> nat" and final :: "'s \<Rightarrow> bool"
  assumes step_inv: "inv s \<Longrightarrow> step s s' \<Longrightarrow> inv s'"
    and step_rank: "inv s \<Longrightarrow> step s s' \<Longrightarrow> rank s' < rank s"
    and enabled: "inv s \<Longrightarrow> final s \<or> (\<exists>s'. step s s')"
begin

lemma run_rank: "(step ^^ n) s s' \<Longrightarrow> inv s \<Longrightarrow> inv s' \<and> n + rank s' \<le> rank s"
proof (induction n arbitrary: s)
  case (Suc n)
  from Suc.prems(1) obtain s1 where s1: "step s s1" "(step ^^ n) s1 s'" by (metis relpowp_Suc_E2)
  from Suc.IH [OF s1(2) step_inv [OF Suc.prems(2) s1(1)]] step_rank [OF Suc.prems(2) s1(1)]
  show ?case by auto
qed simp

lemma run_bounded: "(step ^^ n) s s' \<Longrightarrow> inv s \<Longrightarrow> n \<le> rank s \<and> (final s' \<or> (\<exists>s''. step s' s''))"
  using run_rank [of n s s'] enabled [of s'] by auto

end

text \<open>How many keys a \<open>Range\<close> can still visit.\<close>

definition keys_stored :: "shared \<Rightarrow> string set" where
  "keys_stored sh = fst ` set (sh_stores sh)"

definition unvisited :: "shared \<Rightarrow> map_range \<Rightarrow> nat" where
  "unvisited sh rg = card (keys_stored sh - rg_visited rg)"

lemma finite_keys_stored [simp]: "finite (keys_stored sh)"
  by (simp add: keys_stored_def)

lemma unvisited_visit:
  assumes "range_ok sh rg" and "range_may sh rg key entry"
  shows "Suc (unvisited sh (range_visit key rg)) = unvisited sh rg"
proof -
  have "(key, entry) \<in> set (sh_stores sh)"
    using assms set_drop_subset [of "rg_since rg" "sh_stores sh"]
    unfolding range_ok_def range_may_def stored_since_def by blast
  then have "key \<in> keys_stored sh" unfolding keys_stored_def by (rule image_eqI [rotated]) simp
  moreover have "key \<notin> rg_visited rg" using assms(2) by (simp add: range_may_def)
  moreover have "keys_stored sh - insert key (rg_visited rg) = (keys_stored sh - rg_visited rg) - {key}"
    by blast
  ultimately have "Suc (card (keys_stored sh - insert key (rg_visited rg))) = card (keys_stored sh - rg_visited rg)"
    by (metis DiffI card_Suc_Diff1 finite_Diff finite_keys_stored)
  then show ?thesis by (simp add: unvisited_def)
qed

lemma unvisited_start: "unvisited sh (range_start sh) = card (keys_stored sh)"
  by (simp add: unvisited_def)

lemma keys_stored_simps [simp]:
  "keys_stored (sh_delete k sh) = keys_stored sh"
  "keys_stored (sh\<lparr>sh_evictMu := m\<rparr>) = keys_stored sh"
  "keys_stored (sh\<lparr>sh_tick := b\<rparr>) = keys_stored sh"
  by (simp_all add: keys_stored_def)

lemma unvisited_simps [simp]:
  "unvisited (sh_delete k sh) rg = unvisited sh rg"
  "unvisited (sh\<lparr>sh_evictMu := m\<rparr>) rg = unvisited sh rg"
  "unvisited (sh\<lparr>sh_tick := b\<rparr>) rg = unvisited sh rg"
  by (simp_all add: unvisited_def)

text \<open>
  How many steps the sweep goroutine can take by itself: what is left of the current sweep, and
  one more sweep if a tick is waiting.
\<close>

fun sweep_rank :: "shared \<Rightarrow> pc \<Rightarrow> nat" where
  "sweep_rank sh SweepSelect = (if sh_tick sh then 2 * card (keys_stored sh) + 4 else 0) + 1"
| "sweep_rank sh SweepTicked =
     (if sh_tick sh then 2 * card (keys_stored sh) + 4 else 0) + 2 * card (keys_stored sh) + 3"
| "sweep_rank sh (SweepRange now rg) =
     (if sh_tick sh then 2 * card (keys_stored sh) + 4 else 0) + 2 * unvisited sh rg + 2"
| "sweep_rank sh (SweepDelete now rg key) =
     (if sh_tick sh then 2 * card (keys_stored sh) + 4 else 0) + 2 * unvisited sh rg + 3"
| "sweep_rank sh _ = 0"

fun sweeper :: "pc \<Rightarrow> bool" where
  "sweeper SweepSelect \<longleftrightarrow> True"
| "sweeper SweepTicked \<longleftrightarrow> True"
| "sweeper (SweepRange now rg) \<longleftrightarrow> True"
| "sweeper (SweepDelete now rg key) \<longleftrightarrow> True"
| "sweeper SweepStopped \<longleftrightarrow> True"
| "sweeper _ \<longleftrightarrow> False"

definition sweeps :: "shared \<times> pc \<Rightarrow> shared \<times> pc \<Rightarrow> bool" where
  "sweeps s s' \<longleftrightarrow> sweep_step (fst s) (snd s) (fst s') (snd s')"

lemma sweep_rank_step:
  assumes "sweep_step sh p sh' p'" and "map_ok c sh" "pc_ok c sh p"
  shows "sweep_rank sh' p' < sweep_rank sh p"
  using assms
proof (induction rule: sweep_step.induct)
  case (sweep_keep sh rg key entry now)
  then show ?case using unvisited_visit [of sh rg key entry] by simp
next
  case (sweep_expired sh rg key entry now)
  then show ?case using unvisited_visit [of sh rg key entry] by simp
qed (simp_all add: unvisited_start)

lemma sweep_enabled:
  assumes "sweeper p" and "sh_cancelled sh"
  shows "p = SweepStopped \<or> (\<exists>sh' p'. sweep_step sh p sh' p')"
proof (cases p)
  case (SweepRange now rg)
  consider "range_may_end sh rg" | key entry where "range_may sh rg key entry"
    using range_progress by blast
  then have "\<exists>sh' p'. sweep_step sh (SweepRange now rg) sh' p'"
  proof cases
    case (2 key entry)
    then show ?thesis
      by (cases "time_After now (ce_expiresAt entry)") (blast intro: sweep_keep sweep_expired)+
  qed (blast intro: sweep_end)
  with SweepRange show ?thesis by simp
qed (use assms in \<open>auto intro: sweep_step.intros\<close>)

definition sweeping :: "inMemoryCache \<Rightarrow> shared \<times> pc \<Rightarrow> bool" where
  "sweeping c s \<longleftrightarrow> map_ok c (fst s) \<and> pc_ok c (fst s) (snd s) \<and> sweeper (snd s) \<and> sh_cancelled (fst s)"

interpretation sweep_loop: terminating_loop sweeps "sweeping c" "\<lambda>s. sweep_rank (fst s) (snd s)"
    "\<lambda>s. snd s = SweepStopped" for c
proof unfold_locales
  fix s s'
  assume inv: "sweeping c s" and "sweeps s s'"
  then have step: "sweep_step (fst s) (snd s) (fst s') (snd s')" by (simp add: sweeps_def)
  then have "sweeper (snd s')" "sh_cancelled (fst s') = sh_cancelled (fst s)"
    using inv by (auto simp: sweep_step.simps sweeping_def)
  with inv sweep_harmless [OF step, of c] show "sweeping c s'" by (simp add: sweeping_def harmless_def)
  from step inv show "sweep_rank (fst s') (snd s') < sweep_rank (fst s) (snd s)"
    by (auto simp: sweeping_def intro: sweep_rank_step)
next
  fix s
  assume "sweeping c s"
  then show "snd s = SweepStopped \<or> (\<exists>s'. sweeps s s')"
    using sweep_enabled [of "snd s" "fst s"] by (force simp: sweeping_def sweeps_def)
qed


text \<open>The same for the goroutine that holds the mutex.\<close>

fun evict_rank :: "shared \<Rightarrow> pc \<Rightarrow> nat" where
  "evict_rank sh EvictLocked = card (keys_stored sh) * (card (keys_stored sh) + 4) + card (keys_stored sh) + 3"
| "evict_rank sh (EvictCount rg cnt) =
     (cnt + unvisited sh rg) * (card (keys_stored sh) + 4) + unvisited sh rg + 2"
| "evict_rank sh (EvictLoop cnt) = cnt * (card (keys_stored sh) + 4) + 1"
| "evict_rank sh (EvictFind cnt rg oldest) = (cnt - 1) * (card (keys_stored sh) + 4) + unvisited sh rg + 3"
| "evict_rank sh (EvictDelete cnt key) = (cnt - 1) * (card (keys_stored sh) + 4) + 2"
| "evict_rank sh _ = 0"

definition evicts :: "inMemoryCache \<Rightarrow> nat \<Rightarrow> shared \<times> pc \<Rightarrow> shared \<times> pc \<Rightarrow> bool" where
  "evicts c me s s' \<longleftrightarrow> evict_step c me (fst s) (snd s) (fst s') (snd s')"

lemma evict_rank_step:
  assumes "evict_step c me sh p sh' p'" and "map_ok c sh" "pc_ok c sh p" "in_section p" "0 < maxEntries c"
  shows "evict_rank sh' p' < evict_rank sh p"
  using assms
proof (induction rule: evict_step.induct)
  case (evict_count_visit sh rg key entry cnt)
  then show ?case using unvisited_visit [of sh rg key entry, symmetric] by simp
next
  case (evict_more cnt sh)
  then obtain n where "cnt = Suc n" by (cases cnt) auto
  then show ?case by (simp add: unvisited_start)
next
  case (evict_find_visit sh rg key entry cnt oldest)
  then show ?case using unvisited_visit [of sh rg key entry] by simp
qed (simp_all add: unvisited_start in_section_def add_mult_distrib)

lemma evict_enabled: "in_section p \<Longrightarrow> \<exists>sh' p'. evict_step c me sh p sh' p'"
proof (cases p)
  case (EvictCount rg cnt)
  then show ?thesis using range_progress [of sh rg] by (auto intro: evict_step.intros)
next
  case (EvictLoop cnt)
  then show ?thesis by (cases "int cnt > maxEntries c") (auto intro: evict_more evict_unlock)
next
  case (EvictFind cnt rg oldest)
  consider "range_may_end sh rg" | key entry where "range_may sh rg key entry"
    using range_progress by blast
  then show ?thesis
    by cases (cases oldest; use EvictFind in \<open>auto intro: evict_find_none evict_find_some evict_find_visit\<close>)+
qed (auto simp: in_section_def intro: evict_count evict_delete)

definition holding :: "inMemoryCache \<Rightarrow> shared \<times> pc \<Rightarrow> bool" where
  "holding c s \<longleftrightarrow> 0 < maxEntries c \<and> map_ok c (fst s) \<and> pc_ok c (fst s) (snd s) \<and>
     (in_section (snd s) \<or> snd s = Idle)"

interpretation evict_run: terminating_loop "evicts c me" "holding c" "\<lambda>s. evict_rank (fst s) (snd s)"
    "\<lambda>s. snd s = Idle" for c me
proof unfold_locales
  fix s s'
  assume inv: "holding c s" and "evicts c me s s'"
  then have step: "evict_step c me (fst s) (snd s) (fst s') (snd s')" by (simp add: evicts_def)
  then have sec: "in_section (snd s)" using inv by (auto simp: holding_def evict_step.simps)
  with step have "in_section (snd s') \<or> snd s' = Idle" by (auto simp: evict_step.simps in_section_def)
  with inv evict_harmless [OF step] show "holding c s'" by (simp add: holding_def harmless_def)
  from step inv sec show "evict_rank (fst s') (snd s') < evict_rank (fst s) (snd s)"
    by (auto simp: holding_def intro: evict_rank_step)
next
  fix s
  assume "holding c s"
  then show "snd s = Idle \<or> (\<exists>s'. evicts c me s s')"
    using evict_enabled [of "snd s" c me "fst s"] by (force simp: holding_def evicts_def)
qed


section \<open>A run\<close>

text \<open>
  A cache for at most one entry: goroutine 1 has computed the expiry of a result and is delayed; the
  sweep starts to range over the empty map at a time when that expiry has passed, then goroutine 1
  stores the result and waits for the mutex.
\<close>

definition demo_result :: IntrospectionResult where
  "demo_result = \<lparr>Subject = ''alice'', Scopes = [], ExpiresAt = zero_time, TokenType = [], Claims = Map.empty\<rparr>"

definition demo_time :: time where
  "demo_time = \<lparr>wall = 100, mono = None\<rparr>"

definition demo_late :: time where
  "demo_late = \<lparr>wall = 200, mono = None\<rparr>"

definition demo_entry :: cacheEntry where
  "demo_entry = \<lparr>ce_result = demo_result, ce_expiresAt = expiry_of 10 demo_time demo_result\<rparr>"

definition demo_shared :: shared where
  "demo_shared = \<lparr>sh_entries = [''a'' \<mapsto> demo_entry], sh_stores = [(''a'', demo_entry)], sh_evictMu = None,
     sh_cancelled = False, sh_tick = False\<rparr>"

definition demo_range :: map_range where
  "demo_range = \<lparr>rg_snap = Map.empty, rg_since = 0, rg_visited = {}\<rparr>"

definition demo_pcs :: "nat \<Rightarrow> pc" where
  "demo_pcs = (\<lambda>_. Idle)(0 := SweepRange demo_late demo_range, 1 := EvictLock)"

abbreviation demo_cache :: inMemoryCache where
  "demo_cache \<equiv> fst (NewInMemoryCache 10 [WithMaxEntries 1])"

lemma demo_new: "NewInMemoryCache 10 [WithMaxEntries 1] = (\<lparr>ttl = 10, maxEntries = 1, entries = []\<rparr>, Some 10)"
  by (simp add: NewInMemoryCache_def WithMaxEntries_def Let_def)

lemma demo_reachable: "cache_reachable 10 [WithMaxEntries 1] (demo_shared, demo_pcs)"
proof -
  let ?sh = "\<lparr>sh_entries = Map.empty, sh_stores = [], sh_evictMu = None, sh_cancelled = False, sh_tick = False\<rparr>"
  let ?R = "cache_reachable 10 [WithMaxEntries 1]"
  let ?pcs = "\<lambda>p. ((\<lambda>_ :: nat. Idle)(0 := p))(1 := SetStore ''a'' demo_entry)"
  have comm: "(?pcs p)(0 := q) = ?pcs q" for p q by (simp add: fun_eq_iff)
  have "?R (?sh, (\<lambda>_. Idle)(0 := SweepSelect))"
    using reach_start [of 10 "[WithMaxEntries 1]"] by (simp add: cache_start_def demo_new)
  then have "?R (?sh, ((\<lambda>_. Idle)(0 := SweepSelect))(1 := SetStore ''a'' demo_entry))"
    by (rule reach_step [OF _ step_set])
      (use set_call [of demo_cache ?sh "''a''" demo_result demo_time] in \<open>simp add: demo_new demo_entry_def\<close>)
  then have "?R (?sh\<lparr>sh_tick := True\<rparr>, ?pcs SweepSelect)"
    by (rule reach_step [OF _ step_ticker])
  then have "?R (?sh\<lparr>sh_tick := True\<rparr>\<lparr>sh_tick := False\<rparr>, (?pcs SweepSelect)(0 := SweepTicked))"
    by (rule reach_step [OF _ step_sweep]) (auto simp: sweep_step.simps)
  then have "?R (?sh, ?pcs SweepTicked)" unfolding comm by simp
  then have "?R (?sh, (?pcs SweepTicked)(0 := SweepRange demo_late (range_start ?sh)))"
    by (rule reach_step [OF _ step_sweep]) (auto intro: sweep_begin)
  moreover have "range_start ?sh = demo_range" by (simp add: range_start_def demo_range_def)
  ultimately have "?R (?sh, ?pcs (SweepRange demo_late demo_range))" unfolding comm by simp
  then have "?R (sh_store ''a'' demo_entry ?sh, (?pcs (SweepRange demo_late demo_range))(1 := EvictLock))"
    by (rule reach_step [OF _ step_set])
      (use set_store [of demo_cache ?sh "''a''" demo_entry] in \<open>simp add: demo_new\<close>)
  then show ?thesis by (simp add: sh_store_def demo_shared_def demo_pcs_def)
qed

theorem cache_concurrent_bounded_witness:
  "int (card (dom (sh_entries demo_shared))) \<le> 1 + int (card (evictors demo_pcs))"
  using cache_concurrent_bounded [OF demo_reachable] by (simp add: demo_new)


theorem sweep_removes_expired_witness:
  "time_After demo_late (ce_expiresAt demo_entry) \<and> ''a'' \<in> fst ` stored_since demo_shared demo_range"
proof -
  have late: "time_After demo_late (ce_expiresAt demo_entry)"
    by (simp add: demo_entry_def demo_time_def demo_late_def demo_result_def expiry_of_def time_After_def
        time_Before_def time_Add_def time_IsZero_def zero_time_def)
  have "sweep_step demo_shared (demo_pcs 0) demo_shared SweepSelect"
    using sweep_end [of demo_shared demo_range demo_late]
    by (simp add: demo_pcs_def range_may_end_def demo_range_def)
  from sweep_removes_expired [OF demo_reachable _ this, of demo_late demo_range "''a''" demo_entry] late
  show ?thesis by (simp add: demo_pcs_def demo_shared_def)
qed



section \<open>Without interference\<close>

text \<open>
  A \<open>Set\<close> that nothing interrupts does what the sequential definition of \<open>Introspection_Cache\<close>
  says: for every order in which \<open>Range\<close> may visit the entries there is a run of these
  steps that ends in the same map.
\<close>

definition set_alone :: "inMemoryCache \<Rightarrow> nat \<Rightarrow> shared \<times> pc \<Rightarrow> shared \<times> pc \<Rightarrow> bool" where
  "set_alone c me s s' \<longleftrightarrow> set_step c (fst s) (snd s) (fst s') (snd s') \<or> evicts c me s s'"

lemma alone_evict: "evict_step c me sh p sh' p' \<Longrightarrow> set_alone c me (sh, p) (sh', p')"
  by (simp add: set_alone_def evicts_def)

definition visit_all :: "cache_entries \<Rightarrow> map_range \<Rightarrow> map_range" where
  "visit_all vs rg = rg\<lparr>rg_visited := rg_visited rg \<union> fst ` set vs\<rparr>"

lemma visit_all_simps [simp]:
  "visit_all [] rg = rg"
  "visit_all ((k, e) # vs) rg = visit_all vs (range_visit k rg)"
  by (simp_all add: visit_all_def range_visit_def)

text \<open>A list of entries that \<open>Range\<close> can visit, one after the other.\<close>

definition visitable :: "map_range \<Rightarrow> cache_entries \<Rightarrow> bool" where
  "visitable rg vs \<longleftrightarrow>
     distinct (map fst vs) \<and> rg_visited rg \<inter> fst ` set vs = {} \<and> (\<forall>(k, e) \<in> set vs. rg_snap rg k = Some e)"

lemma visitable_Cons:
  "visitable rg ((k, e) # vs) \<Longrightarrow> range_may sh rg k e \<and> visitable (range_visit k rg) vs"
  by (auto simp: visitable_def range_may_def)

lemma count_alone:
  "visitable rg vs \<Longrightarrow>
   (set_alone c me)\<^sup>*\<^sup>* (sh, EvictCount rg n) (sh, EvictCount (visit_all vs rg) (n + length vs))"
proof (induction vs arbitrary: rg n)
  case (Cons v vs)
  obtain k e where v: "v = (k, e)" by fastforce
  note vis = visitable_Cons [OF Cons.prems [unfolded v], of sh]
  have "set_alone c me (sh, EvictCount rg n) (sh, EvictCount (range_visit k rg) (Suc n))"
    using vis by (blast intro: alone_evict evict_count_visit)
  moreover have "(set_alone c me)\<^sup>*\<^sup>* (sh, EvictCount (range_visit k rg) (Suc n))
      (sh, EvictCount (visit_all (v # vs) rg) (n + length (v # vs)))"
    using Cons.IH [of "range_visit k rg" "Suc n"] vis by (simp add: v)
  ultimately show ?case by (rule converse_rtranclp_into_rtranclp)
qed simp

lemma find_alone:
  "visitable rg vs \<Longrightarrow>
   (set_alone c me)\<^sup>*\<^sup>* (sh, EvictFind n rg oldest) (sh, EvictFind n (visit_all vs rg) (find_oldest vs oldest))"
proof (induction vs arbitrary: rg oldest)
  case (Cons v vs)
  obtain k e where v: "v = (k, e)" by fastforce
  note vis = visitable_Cons [OF Cons.prems [unfolded v], of sh]
  have "set_alone c me (sh, EvictFind n rg oldest) (sh, EvictFind n (range_visit k rg) (find_oldest [(k, e)] oldest))"
    using vis by (blast intro: alone_evict evict_find_visit)
  moreover have "(set_alone c me)\<^sup>*\<^sup>* (sh, EvictFind n (range_visit k rg) (find_oldest [(k, e)] oldest))
      (sh, EvictFind n (visit_all (v # vs) rg) (find_oldest (v # vs) oldest))"
    using Cons.IH [of "range_visit k rg" "find_oldest [(k, e)] oldest"] vis by (simp add: v)
  ultimately show ?case by (rule converse_rtranclp_into_rtranclp)
qed simp

lemma visitable_start:
  assumes "distinct (map fst es)" and "mset vs = mset es" and "sh_entries sh = map_of es"
  shows "visitable (range_start sh) vs" "range_may_end sh (visit_all vs (range_start sh))"
proof -
  have d: "distinct (map fst vs)" "set vs = set es"
    using assms(1,2) by (metis mset_eq_imp_distinct_iff mset_map) (metis assms(2) mset_eq_setD)
  then show "visitable (range_start sh) vs"
    using assms(1,3) by (auto simp: visitable_def)
  show "range_may_end sh (visit_all vs (range_start sh))"
    using d(2) assms(3) by (simp add: range_may_end_def visit_all_def dom_map_of_conv_image_fst)
qed

lemma loop_alone:
  assumes perm: "\<And>n es. mset (perm n es) = mset es" and lim: "0 < maxEntries c"
  shows "distinct (map fst es) \<Longrightarrow> sh_entries sh = map_of es \<Longrightarrow> length es = n \<Longrightarrow>
    \<exists>sh'. (set_alone c me)\<^sup>*\<^sup>* (sh, EvictLoop n) (sh', Idle) \<and> sh_evictMu sh' = None \<and>
      sh_entries sh' = map_of (evict_loop perm (maxEntries c) n es)"
proof (induction n arbitrary: es sh)
  case 0
  have "set_alone c me (sh, EvictLoop 0) (sh\<lparr>sh_evictMu := None\<rparr>, Idle)"
    using lim by (intro alone_evict evict_unlock) simp
  with 0 show ?case by (intro exI [of _ "sh\<lparr>sh_evictMu := None\<rparr>"]) auto
next
  case (Suc n)
  let ?vs = "perm (Suc n) es" and ?rg = "range_start sh"
  show ?case
  proof (cases "int (Suc n) > maxEntries c")
    case False
    then have "set_alone c me (sh, EvictLoop (Suc n)) (sh\<lparr>sh_evictMu := None\<rparr>, Idle)"
      by (intro alone_evict evict_unlock)
    with False Suc.prems show ?thesis by (intro exI [of _ "sh\<lparr>sh_evictMu := None\<rparr>"]) auto
  next
    case True
    from Suc.prems have "?vs \<noteq> []" using perm [of "Suc n" es] by (metis length_0_conv nat.distinct(1) size_mset)
    then obtain k t where kt: "find_oldest ?vs None = Some (k, t)"
      using find_oldest_Some [of ?vs None] by (metis option.exhaust prod.exhaust)
    have es': "evict_one ?vs es = AList.delete k es" by (simp add: evict_one_def kt)
    note vis = visitable_start [OF Suc.prems(1) perm Suc.prems(2), of "Suc n"]
    have "set_alone c me (sh, EvictLoop (Suc n)) (sh, EvictFind (Suc n) ?rg None)"
      using True by (intro alone_evict evict_more)
    also have "(set_alone c me)\<^sup>*\<^sup>* (sh, EvictFind (Suc n) ?rg None) (sh, EvictFind (Suc n) (visit_all ?vs ?rg) (Some (k, t)))"
      using find_alone [OF vis(1), of c me sh "Suc n" None] by (simp add: kt)
    also have "set_alone c me (sh, EvictFind (Suc n) (visit_all ?vs ?rg) (Some (k, t))) (sh, EvictDelete (Suc n) k)"
      using vis(2) by (intro alone_evict evict_find_some)
    also have "set_alone c me (sh, EvictDelete (Suc n) k) (sh_delete k sh, EvictLoop n)"
      using evict_delete [of c me sh "Suc n" k] by (intro alone_evict) simp
    finally have run: "(set_alone c me)\<^sup>*\<^sup>* (sh, EvictLoop (Suc n)) (sh_delete k sh, EvictLoop n)" .
    have "sh_entries (sh_delete k sh) = map_of (AList.delete k es)"
      using Suc.prems(2) by (simp add: delete_conv')
    moreover have "length (AList.delete k es) = n"
      using evict_one_length [OF Suc.prems(1) _ perm, of "Suc n"] Suc.prems(3) es' by fastforce
    moreover have "distinct (map fst (AList.delete k es))" using Suc.prems(1) by (rule distinct_delete)
    ultimately obtain sh' where sh': "(set_alone c me)\<^sup>*\<^sup>* (sh_delete k sh, EvictLoop n) (sh', Idle)"
      "sh_evictMu sh' = None" "sh_entries sh' = map_of (evict_loop perm (maxEntries c) n (AList.delete k es))"
      using Suc.IH [of "AList.delete k es" "sh_delete k sh"] by blast
    with run True es' show ?thesis by (intro exI [of _ sh']) auto
  qed
qed



end
