(* ===== verification/Concurrent_Chain.thy ===== *)
theory Concurrent_Chain
  imports Interceptor_Chain Cache_Concurrency
begin

text \<open>
  A server under load: any number of unary calls at once, each in its own goroutine, through the four
  interceptors of one chain. They share the introspection cache, whose operations are split at every
  access as in \<open>Cache_Concurrency\<close>, the policy cache with its separate Load and Store, and the world outside.
  A call is a program point of the chain; an interleaving is any sequence of steps of the calls, the
  sweep goroutine and the environment. Strategies, the verifier endpoint and the handler each take one step on
  the world, which anyone else may change between any two steps.
\<close>

section \<open>The interceptors between their shared accesses\<close>

text \<open>
  What the policy interceptor does with the policy it was given, up to the call of the next handler, and
  what the verification interceptor does up to the call of \<open>Verify\<close>: an error, or the context, with the
  policy to verify if there is one.
\<close>

definition po_decide ::
  "('m, 'fd, 'v) protoreflect \<Rightarrow> go_ctx \<Rightarrow> 'm request \<Rightarrow> policy_result \<Rightarrow> go_error + go_ctx" where
  "po_decide pr ctx req answer =
     (case answer of
        (_, Some e) \<Rightarrow> Inl (status_Error codes_Internal (''failed to get method policy: '' @ err_msg e))
      | (None, None) \<Rightarrow> Inr (markInterceptorRan ctx)
      | (Some policy, None) \<Rightarrow>
          (case resolveResourceFromRequest pr policy req of
             Inl e \<Rightarrow> Inl (status_Error codes_Internal (''resource resolved failed: '' @ err_msg e))
           | Inr p \<Rightarrow> Inr (withPolicy (markInterceptorRan ctx) (Resource p) (Action p))))"

definition pv_decide :: "civil \<Rightarrow> byte list \<Rightarrow> go_ctx \<Rightarrow> go_error + go_ctx \<times> Policy option" where
  "pv_decide now rnd ctx =
     (let ctx = pv_enrich now rnd ctx
      in if \<not> InterceptorRanFromContext ctx then Inl pv_misconfigured
         else Inr (ctx, PolicyFromContext ctx))"

lemma po_Interceptor_decide:
  "po_Interceptor reg pr cache fm ctx req handler w =
     (let (answer, cache) = getMethodPolicy reg cache fm
      in case po_decide pr ctx req answer of
           Inl e \<Rightarrow> ((None, Some e), cache, w)
         | Inr ctx \<Rightarrow> (let (r, w) = handler ctx req w in (r, cache, w)))"
  by (simp add: po_Interceptor_def po_decide_def Let_def split: prod.split option.split sum.split)

lemma pv_unary_decide:
  "pv_unary verify now rnd ctx req handler w =
     (case pv_decide now rnd ctx of
        Inl e \<Rightarrow> ((None, Some e), w)
      | Inr (ctx, None) \<Rightarrow> handler ctx req w
      | Inr (ctx, Some p) \<Rightarrow>
          (case verify ctx (Resource p) (Action p) w of
             (Some err, w') \<Rightarrow> ((None, Some err), w')
           | (None, w') \<Rightarrow> handler ctx req w'))"
  by (simp add: pv_unary_def pv_decide_def Let_def split: option.split)

section \<open>Calls\<close>

text \<open>
  What a server is built from. The cache of \<open>dp_cfg\<close> is not used: \<open>introspect\<close> works on the in-memory cache
  that \<open>NewInMemoryCache\<close> makes of \<open>dp_ttl\<close> and \<open>dp_cacheOpts\<close>.
\<close>

record ('m, 'fd, 'v, 'p, 'w) deployment =
  dp_rtOpts :: "(rt_config \<Rightarrow> rt_config) list"
  dp_lower :: "rune \<Rightarrow> rune"
  dp_cfg :: "'w ti_config"
  dp_ttl :: int
  dp_cacheOpts :: "InMemoryCacheOption list"
  dp_registry :: registry
  dp_reflect :: "('m, 'fd, 'v) protoreflect"
  dp_verify :: "'w verifier"
  dp_handler :: "('m request, 'p, 'w) unary_handler"

text \<open>
  Where a call is, with the context, scheme and credential it has there: at the head of \<open>introspect\<close>, inside
  \<open>Get\<close>, after a miss, in the loop over the strategies, inside \<open>Set\<close>, before the Load and before the scan and
  Store of \<open>getMethodPolicy\<close>, with the policy at hand, before \<open>Verify\<close>, before the handler, or done.
\<close>

datatype ('p, 'w) point =
    AtIntrospect go_ctx
  | AtGet go_ctx string string
  | AtSchemes go_ctx string string
  | AtStrategies go_ctx string string "'w Introspector list" "go_error option"
  | AtSet go_ctx string string IntrospectionResult
  | AtLoad go_ctx
  | AtScan go_ctx
  | AtPolicy go_ctx policy_result
  | AtVerify go_ctx Policy
  | AtHandler go_ctx
  | Replied "'p reply"
  | Panicked string

text \<open>A call as it arrived, with the clock and random bytes it reads. \<open>call_trace\<close> only records.\<close>

record ('m, 'p, 'w) call =
  call_ctx :: go_ctx
  call_method :: string
  call_req :: "'m request"
  call_now :: civil
  call_rnd :: "byte list"
  call_point :: "('p, 'w) point"
  call_trace :: "event list"

text \<open>\<open>sy_answers\<close> records which strategy results were returned, for which scheme and credential.\<close>

record ('m, 'p, 'w) system =
  sy_cache :: cache_conf
  sy_policies :: policy_cache
  sy_world :: 'w
  sy_calls :: "nat \<Rightarrow> ('m, 'p, 'w) call option"
  sy_answers :: "(string \<times> string \<times> IntrospectionResult) list"

abbreviation dp_cache :: "('m, 'fd, 'v, 'p, 'w) deployment \<Rightarrow> inMemoryCache" where
  "dp_cache dp \<equiv> fst (NewInMemoryCache (dp_ttl dp) (dp_cacheOpts dp))"

text \<open>The context behind request tracking.\<close>

definition call_tracked :: "('m, 'fd, 'v, 'p, 'w) deployment \<Rightarrow> ('m, 'p, 'w) call \<Rightarrow> go_ctx" where
  "call_tracked dp k = tracked (snd (applyOptions (dp_rtOpts dp))) (call_now k) (call_rnd k) (call_ctx k)"

definition goto ::
  "nat \<Rightarrow> ('m, 'p, 'w) call \<Rightarrow> ('p, 'w) point \<Rightarrow> ('m, 'p, 'w) system \<Rightarrow> ('m, 'p, 'w) system" where
  "goto t k p s = s\<lparr>sy_calls := (sy_calls s)(t \<mapsto> k\<lparr>call_point := p\<rparr>)\<rparr>"

definition record_event :: "event \<Rightarrow> ('m, 'p, 'w) call \<Rightarrow> ('m, 'p, 'w) call" where
  "record_event e k = k\<lparr>call_trace := call_trace k @ [e]\<rparr>"

definition after_policy ::
  "('m, 'fd, 'v, 'p, 'w) deployment \<Rightarrow> ('m, 'p, 'w) call \<Rightarrow> go_ctx \<Rightarrow> policy_result \<Rightarrow> ('p, 'w) point" where
  "after_policy dp k ctx answer =
     (case po_decide (dp_reflect dp) ctx (call_req k) answer of
        Inl e \<Rightarrow> Replied (None, Some e)
      | Inr ctx \<Rightarrow>
          (case pv_decide (call_now k) (call_rnd k) ctx of
             Inl e \<Rightarrow> Replied (None, Some e)
           | Inr (ctx, None) \<Rightarrow> AtHandler ctx
           | Inr (ctx, Some p) \<Rightarrow> AtVerify ctx p))"

definition malformed_header :: go_error where
  "malformed_header = status_Error codes_Unauthenticated ''malformed authorization header''"

definition unsupported_scheme :: "string \<Rightarrow> go_error" where
  "unsupported_scheme scheme =
     status_Error codes_Unauthenticated (''unsupported authentication scheme: '' @ scheme)"

text \<open>
  The steps of the call in goroutine \<open>t\<close>. Steps inside \<open>Get\<close> and \<open>Set\<close> are those of the cache; a step that
  starts or ends them is the cache's step and the interceptor's at once.
\<close>

inductive call_step ::
  "('m, 'fd, 'v, 'p, 'w) deployment \<Rightarrow> nat \<Rightarrow> ('m, 'p, 'w) call \<Rightarrow> ('p, 'w) point \<Rightarrow>
   ('m, 'p, 'w) system \<Rightarrow> ('m, 'p, 'w) system \<Rightarrow> bool" for dp t k where
  no_credential: "call_step dp t k (AtIntrospect ctx) s (goto t k (AtLoad ctx) s)"
    if "presented (dp_lower dp) (dp_cfg dp) ctx = None" "presents_nothing (dp_cfg dp) ctx"
| malformed: "call_step dp t k (AtIntrospect ctx) s (goto t k (Replied (None, Some malformed_header)) s)"
    if "presented (dp_lower dp) (dp_cfg dp) ctx = None" "\<not> presents_nothing (dp_cfg dp) ctx"
| get_start: "call_step dp t k (AtIntrospect ctx) s
      (goto t k (AtGet ctx scheme credential) (s\<lparr>sy_cache := (sh, pcs(t := pc'))\<rparr>))"
    if "presented (dp_lower dp) (dp_cfg dp) ctx = Some (scheme, credential)" "sy_cache s = (sh, pcs)"
      "pc' = GetLoad (cacheKey scheme credential)" "get_step sh (pcs t) Tau sh pc'"
| get_run: "call_step dp t k (AtGet ctx scheme credential) s (s\<lparr>sy_cache := (sh', pcs(t := pc'))\<rparr>)"
    if "sy_cache s = (sh, pcs)" "pcs t \<noteq> pc.Idle" "get_step sh (pcs t) Tau sh' pc'"
| get_hit: "call_step dp t k (AtGet ctx scheme credential) s
      (goto t k (AtLoad (WithResult ctx (Some result))) (s\<lparr>sy_cache := (sh', pcs(t := pc'))\<rparr>))"
    if "sy_cache s = (sh, pcs)" "get_step sh (pcs t) (Hit key result now) sh' pc'"
| get_miss: "call_step dp t k (AtGet ctx scheme credential) s
      (goto t k (AtSchemes ctx scheme credential) (s\<lparr>sy_cache := (sh', pcs(t := pc'))\<rparr>))"
    if "sy_cache s = (sh, pcs)" "get_step sh (pcs t) (Miss key) sh' pc'"
| unsupported: "call_step dp t k (AtSchemes ctx scheme credential) s
      (goto t k (Replied (None, Some (unsupported_scheme scheme))) s)"
    if "ti_schemes (dp_cfg dp) scheme = []"
| schemes: "call_step dp t k (AtSchemes ctx scheme credential) s
      (goto t k (AtStrategies ctx scheme credential (ti_schemes (dp_cfg dp) scheme) None) s)"
    if "ti_schemes (dp_cfg dp) scheme \<noteq> []"
| exhausted: "call_step dp t k (AtStrategies ctx scheme credential [] lastErr) s
      (goto t k (case lastErr of None \<Rightarrow> AtLoad ctx | Some e \<Rightarrow> Replied (None, Some e)) s)"
| nil_result: "call_step dp t k (AtStrategies ctx scheme credential (i # is) lastErr) s
      (goto t k (Panicked nil_dereference) (s\<lparr>sy_world := w'\<rparr>))"
    if "Introspect i ctx credential (sy_world s) = ((None, None), w')"
| accepted: "call_step dp t k (AtStrategies ctx scheme credential (i # is) lastErr) s
      (goto t k (AtSet ctx scheme credential result)
        (s\<lparr>sy_cache := (sh, pcs(t := pc')), sy_world := w', sy_answers := sy_answers s @ [(scheme, credential, result)]\<rparr>))"
    if "Introspect i ctx credential (sy_world s) = ((Some result, None), w')" "sy_cache s = (sh, pcs)"
      "pc' = SetStore (cacheKey scheme credential)
         \<lparr>ce_result = result, ce_expiresAt = expiry_of (ttl (dp_cache dp)) now result\<rparr>"
      "set_step (dp_cache dp) sh (pcs t) sh pc'"
| aborted: "call_step dp t k (AtStrategies ctx scheme credential (i # is) lastErr) s
      (goto t k (Replied (None, Some err)) (s\<lparr>sy_world := w'\<rparr>))"
    if "Introspect i ctx credential (sy_world s) = ((x, Some err), w')"
      "err_status err \<noteq> Some codes_Unauthenticated"
| rejected: "call_step dp t k (AtStrategies ctx scheme credential (i # is) lastErr) s
      (goto t k (AtStrategies ctx scheme credential is (Some err)) (s\<lparr>sy_world := w'\<rparr>))"
    if "Introspect i ctx credential (sy_world s) = ((x, Some err), w')"
      "err_status err = Some codes_Unauthenticated"
| set_run: "call_step dp t k (AtSet ctx scheme credential result) s (s\<lparr>sy_cache := (sh', pcs(t := pc'))\<rparr>)"
    if "sy_cache s = (sh, pcs)" "pcs t \<noteq> pc.Idle" "set_step (dp_cache dp) sh (pcs t) sh' pc'"
| evict_run: "call_step dp t k (AtSet ctx scheme credential result) s (s\<lparr>sy_cache := (sh', pcs(t := pc'))\<rparr>)"
    if "sy_cache s = (sh, pcs)" "evict_step (dp_cache dp) t sh (pcs t) sh' pc'"
| set_end: "call_step dp t k (AtSet ctx scheme credential result) s
      (goto t k (AtLoad (WithResult ctx (Some result))) s)"
    if "snd (sy_cache s) t = pc.Idle"
| load_hit: "call_step dp t k (AtLoad ctx) s (goto t k (AtPolicy ctx (cp_policy c, cp_err c)) s)"
    if "sy_policies s (call_method k) = Some c"
| load_miss: "call_step dp t k (AtLoad ctx) s (goto t k (AtScan ctx) s)"
    if "sy_policies s (call_method k) = None"
| scan_store: "call_step dp t k (AtScan ctx) s
      (goto t k (AtPolicy ctx (policy, err))
        (s\<lparr>sy_policies := (sy_policies s)(call_method k \<mapsto> \<lparr>cp_policy = policy, cp_err = err\<rparr>)\<rparr>))"
    if "lookupMethodPolicy (dp_registry dp) (call_method k) = (policy, err)"
| policy: "call_step dp t k (AtPolicy ctx answer) s (goto t k (after_policy dp k ctx answer) s)"
| granted: "call_step dp t k (AtVerify ctx p) s
      (goto t (record_event (EvVerify (Resource p) (Action p) True) k) (AtHandler ctx) (s\<lparr>sy_world := w'\<rparr>))"
    if "dp_verify dp ctx (Resource p) (Action p) (sy_world s) = (None, w')"
| refused: "call_step dp t k (AtVerify ctx p) s
      (goto t (record_event (EvVerify (Resource p) (Action p) False) k) (Replied (None, Some err))
        (s\<lparr>sy_world := w'\<rparr>))"
    if "dp_verify dp ctx (Resource p) (Action p) (sy_world s) = (Some err, w')"
| handled: "call_step dp t k (AtHandler ctx) s
      (goto t (record_event EvHandler k) (Replied reply) (s\<lparr>sy_world := w'\<rparr>))"
    if "dp_handler dp ctx (call_req k) (sy_world s) = (reply, w')"

text \<open>
  The interleaving: a call arrives in an idle goroutine, with a context that has no policy yet, some call
  takes a step, the sweep takes a step, the ticker fires, the context of the cache is cancelled, or the
  world changes. The label is the goroutine that moves.
\<close>

inductive serve_step ::
  "('m, 'fd, 'v, 'p, 'w) deployment \<Rightarrow> nat option \<Rightarrow> ('m, 'p, 'w) system \<Rightarrow> ('m, 'p, 'w) system \<Rightarrow> bool" for dp where
  arrive: "serve_step dp None s
      (s\<lparr>sy_calls := (sy_calls s)(t \<mapsto> k\<lparr>call_point := AtIntrospect (call_tracked dp k), call_trace := []\<rparr>)\<rparr>)"
    if "sy_calls s t = None" "snd (sy_cache s) t = pc.Idle" "PolicyFromContext (call_ctx k) = None"
| proceed: "serve_step dp (Some t) s s'"
    if "sy_calls s t = Some k" "call_step dp t k (call_point k) s s'"
| sweep: "serve_step dp (Some t) s (s\<lparr>sy_cache := (sh', pcs(t := pc'))\<rparr>)"
    if "sy_calls s t = None" "sy_cache s = (sh, pcs)" "sweep_step sh (pcs t) sh' pc'"
| ticker: "serve_step dp None s (s\<lparr>sy_cache := (sh\<lparr>sh_tick := True\<rparr>, pcs)\<rparr>)" if "sy_cache s = (sh, pcs)"
| cancel: "serve_step dp None s (s\<lparr>sy_cache := (sh\<lparr>sh_cancelled := True\<rparr>, pcs)\<rparr>)" if "sy_cache s = (sh, pcs)"
| environment: "serve_step dp None s (s\<lparr>sy_world := w\<rparr>)"

definition serve_start :: "('m, 'fd, 'v, 'p, 'w) deployment \<Rightarrow> 'w \<Rightarrow> ('m, 'p, 'w) system" where
  "serve_start dp w =
     \<lparr>sy_cache = cache_start (NewInMemoryCache (dp_ttl dp) (dp_cacheOpts dp)), sy_policies = Map.empty,
      sy_world = w, sy_calls = (\<lambda>_. None), sy_answers = []\<rparr>"

inductive serve_reachable :: "('m, 'fd, 'v, 'p, 'w) deployment \<Rightarrow> ('m, 'p, 'w) system \<Rightarrow> bool" for dp where
  serve_init: "serve_reachable dp (serve_start dp w)"
| serve_next: "serve_reachable dp s \<Longrightarrow> serve_step dp l s s' \<Longrightarrow> serve_reachable dp s'"

section \<open>The caches of the server\<close>

lemma goto_simps [simp]:
  "sy_cache (goto t k p s) = sy_cache s" "sy_policies (goto t k p s) = sy_policies s"
  "sy_answers (goto t k p s) = sy_answers s"
  "sy_calls (goto t k p s) = (sy_calls s)(t \<mapsto> k\<lparr>call_point := p\<rparr>)"
  by (simp_all add: goto_def)

lemma record_event_simps [simp]:
  "call_ctx (record_event e k) = call_ctx k" "call_method (record_event e k) = call_method k"
  "call_req (record_event e k) = call_req k" "call_point (record_event e k) = call_point k"
  "call_trace (record_event e k) = call_trace k @ [e]"
  "call_tracked dp (record_event e k) = call_tracked dp k"
  by (simp_all add: record_event_def call_tracked_def)

lemma call_tracked_point [simp]:
  "call_tracked dp (k\<lparr>call_point := p\<rparr>) = call_tracked dp k"
  "call_tracked dp (k\<lparr>call_trace := l\<rparr>) = call_tracked dp k"
  by (simp_all add: call_tracked_def)

text \<open>
  The introspection cache inside the server is the concurrent cache: a step of the server leaves it alone
  or is one of its steps. So what holds of every interleaving of cache operations holds here.
\<close>

lemma call_step_cache:
  "call_step dp t k p s s' \<Longrightarrow> sy_cache s' = sy_cache s \<or> (\<exists>ev. conc_step (dp_cache dp) (sy_cache s) ev (sy_cache s'))"
  by (induction rule: call_step.induct) (auto intro: step_get step_set step_evict)

lemma serve_step_cache:
  "serve_step dp l s s' \<Longrightarrow> sy_cache s' = sy_cache s \<or> (\<exists>ev. conc_step (dp_cache dp) (sy_cache s) ev (sy_cache s'))"
  by (induction rule: serve_step.induct) (auto dest: call_step_cache intro: step_sweep step_ticker step_cancel)

lemma serve_cache_reachable:
  "serve_reachable dp s \<Longrightarrow> cache_reachable (dp_ttl dp) (dp_cacheOpts dp) (sy_cache s)"
proof (induction rule: serve_reachable.induct)
  case (serve_init w)
  show ?case by (simp add: serve_start_def reach_start)
next
  case (serve_next s l s')
  with serve_step_cache [OF serve_next.hyps(2)] show ?case by (auto intro: reach_step)
qed

section \<open>What holds at each point\<close>

text \<open>
  A recorded answer was returned by a strategy that is registered for its scheme. A call is admitted with
  a context if it presents nothing and the context is its own, or if the context has a recorded result for a
  credential with its cache key.
\<close>

definition answer_genuine :: "('m, 'fd, 'v, 'p, 'w) deployment \<Rightarrow> string \<times> string \<times> IntrospectionResult \<Rightarrow> bool" where
  "answer_genuine dp = (\<lambda>(scheme, credential, result).
     \<exists>i\<in>set (ti_schemes (dp_cfg dp) scheme). \<exists>ctx w w'. Introspect i ctx credential w = ((Some result, None), w'))"

definition result_for ::
  "(string \<times> string \<times> IntrospectionResult) list \<Rightarrow> string \<Rightarrow> IntrospectionResult \<Rightarrow> bool" where
  "result_for answers key result \<longleftrightarrow>
     (\<exists>scheme credential. (scheme, credential, result) \<in> set answers \<and> cacheKey scheme credential = key)"

definition admitted ::
  "('m, 'fd, 'v, 'p, 'w) deployment \<Rightarrow> (string \<times> string \<times> IntrospectionResult) list \<Rightarrow> ('m, 'p, 'w) call \<Rightarrow> go_ctx \<Rightarrow> bool" where
  "admitted dp answers k ctx \<longleftrightarrow>
     presents_nothing (dp_cfg dp) (call_tracked dp k) \<and> ctx = call_tracked dp k \<or>
     (\<exists>scheme credential result.
        presented (dp_lower dp) (dp_cfg dp) (call_tracked dp k) = Some (scheme, credential) \<and>
        result_for answers (cacheKey scheme credential) result \<and> ctx = WithResult (call_tracked dp k) (Some result))"

text \<open>The context with which the call reaches \<open>Verify\<close> or the handler extends one it was admitted with.\<close>

definition carries ::
  "('m, 'fd, 'v, 'p, 'w) deployment \<Rightarrow> (string \<times> string \<times> IntrospectionResult) list \<Rightarrow> ('m, 'p, 'w) call \<Rightarrow> go_ctx \<Rightarrow> bool" where
  "carries dp answers k ctx \<longleftrightarrow>
     (\<exists>ctx1. admitted dp answers k ctx1 \<and> ResultFromContext ctx = ResultFromContext ctx1 \<and>
        ctx_incoming ctx = ctx_incoming (call_ctx k) \<and>
        RequestIDFromContext ctx = RequestIDFromContext (call_tracked dp k))"

abbreviation call_policy :: "('m, 'fd, 'v, 'p, 'w) deployment \<Rightarrow> ('m, 'p, 'w) call \<Rightarrow> policy_result" where
  "call_policy dp k \<equiv> lookupMethodPolicy (dp_registry dp) (call_method k)"

abbreviation call_mandate :: "('m, 'fd, 'v, 'p, 'w) deployment \<Rightarrow> ('m, 'p, 'w) call \<Rightarrow> bool \<Rightarrow> event list" where
  "call_mandate dp k granted \<equiv>
     mandated (dp_registry dp) (dp_reflect dp) (\<lambda>_ _. granted) (call_method k) (call_req k)"

fun get_pc :: "string \<Rightarrow> pc \<Rightarrow> bool" where
  "get_pc key (GetLoad key') \<longleftrightarrow> key' = key"
| "get_pc key (GetCheck key' entry) \<longleftrightarrow> key' = key"
| "get_pc key (GetDelete key') \<longleftrightarrow> key' = key"
| "get_pc key _ \<longleftrightarrow> False"

fun set_pc :: "string \<Rightarrow> IntrospectionResult \<Rightarrow> pc \<Rightarrow> bool" where
  "set_pc key result (SetStore key' entry) \<longleftrightarrow> key' = key \<and> ce_result entry = result"
| "set_pc key result p \<longleftrightarrow> evicting p \<or> p = pc.Idle"

fun point_ok ::
  "('m, 'fd, 'v, 'p, 'w) deployment \<Rightarrow> (string \<times> string \<times> IntrospectionResult) list \<Rightarrow> pc \<Rightarrow>
   ('m, 'p, 'w) call \<Rightarrow> ('p, 'w) point \<Rightarrow> bool" where
  "point_ok dp as pc k (AtIntrospect ctx) \<longleftrightarrow> pc = pc.Idle \<and> call_trace k = [] \<and> ctx = call_tracked dp k"
| "point_ok dp as pc k (AtGet ctx s c) \<longleftrightarrow>
     get_pc (cacheKey s c) pc \<and> call_trace k = [] \<and> ctx = call_tracked dp k \<and>
     presented (dp_lower dp) (dp_cfg dp) ctx = Some (s, c)"
| "point_ok dp as pc k (AtSchemes ctx s c) \<longleftrightarrow>
     pc = pc.Idle \<and> call_trace k = [] \<and> ctx = call_tracked dp k \<and>
     presented (dp_lower dp) (dp_cfg dp) ctx = Some (s, c)"
| "point_ok dp as pc k (AtStrategies ctx s c is lastErr) \<longleftrightarrow>
     pc = pc.Idle \<and> call_trace k = [] \<and> ctx = call_tracked dp k \<and>
     presented (dp_lower dp) (dp_cfg dp) ctx = Some (s, c) \<and>
     set is \<subseteq> set (ti_schemes (dp_cfg dp) s) \<and> (is = [] \<longrightarrow> lastErr \<noteq> None)"
| "point_ok dp as pc k (AtSet ctx s c result) \<longleftrightarrow>
     set_pc (cacheKey s c) result pc \<and> call_trace k = [] \<and> ctx = call_tracked dp k \<and>
     presented (dp_lower dp) (dp_cfg dp) ctx = Some (s, c) \<and> (s, c, result) \<in> set as"
| "point_ok dp as pc k (AtLoad ctx) \<longleftrightarrow> pc = pc.Idle \<and> call_trace k = [] \<and> admitted dp as k ctx"
| "point_ok dp as pc k (AtScan ctx) \<longleftrightarrow> pc = pc.Idle \<and> call_trace k = [] \<and> admitted dp as k ctx"
| "point_ok dp as pc k (AtPolicy ctx answer) \<longleftrightarrow>
     pc = pc.Idle \<and> call_trace k = [] \<and> admitted dp as k ctx \<and> answer = call_policy dp k"
| "point_ok dp as pc k (AtVerify ctx p) \<longleftrightarrow>
     pc = pc.Idle \<and> call_trace k = [] \<and> carries dp as k ctx \<and>
     (\<forall>granted. call_mandate dp k granted = EvVerify (Resource p) (Action p) granted # (if granted then [EvHandler] else []))"
| "point_ok dp as pc k (AtHandler ctx) \<longleftrightarrow>
     pc = pc.Idle \<and> carries dp as k ctx \<and> call_mandate dp k True = call_trace k @ [EvHandler]"
| "point_ok dp as pc k (Replied reply) \<longleftrightarrow>
     pc = pc.Idle \<and>
     (call_trace k = [] \<and> (\<exists>e. reply = (None, Some e)) \<or>
      (\<exists>ctx granted. carries dp as k ctx \<and> call_trace k = call_mandate dp k granted))"
| "point_ok dp as pc k (Panicked m) \<longleftrightarrow> pc = pc.Idle \<and> call_trace k = []"

definition serve_ok :: "('m, 'fd, 'v, 'p, 'w) deployment \<Rightarrow> ('m, 'p, 'w) system \<Rightarrow> bool" where
  "serve_ok dp s \<longleftrightarrow>
     policy_cache_ok (dp_registry dp) (sy_policies s) \<and>
     (\<forall>a\<in>set (sy_answers s). answer_genuine dp a) \<and>
     (\<forall>(key, e)\<in>set (sh_stores (fst (sy_cache s))). result_for (sy_answers s) key (ce_result e)) \<and>
     (\<forall>t. case sy_calls s t of
        Some k \<Rightarrow> PolicyFromContext (call_ctx k) = None \<and> point_ok dp (sy_answers s) (snd (sy_cache s) t) k (call_point k)
      | None \<Rightarrow> snd (sy_cache s) t = pc.Idle \<or> sweeper (snd (sy_cache s) t))"

lemma point_indep [simp]:
  "admitted dp as (k\<lparr>call_point := q\<rparr>) ctx = admitted dp as k ctx"
  "carries dp as (k\<lparr>call_point := q\<rparr>) ctx = carries dp as k ctx"
  "admitted dp as (record_event e k) ctx = admitted dp as k ctx"
  "carries dp as (record_event e k) ctx = carries dp as k ctx"
  by (simp_all add: admitted_def carries_def)

lemma point_ok_indep [simp]: "point_ok dp as pc (k\<lparr>call_point := q\<rparr>) p = point_ok dp as pc k p"
  by (cases p) simp_all

lemma answers_mono:
  assumes "set as \<subseteq> set bs"
  shows "result_for as key r \<Longrightarrow> result_for bs key r" "admitted dp as k ctx \<Longrightarrow> admitted dp bs k ctx"
    "carries dp as k ctx \<Longrightarrow> carries dp bs k ctx" "point_ok dp as pc k p \<Longrightarrow> point_ok dp bs pc k p"
proof -
  show r: "result_for as key r \<Longrightarrow> result_for bs key r" for key r
    using assms by (auto simp: result_for_def)
  show a: "admitted dp as k ctx \<Longrightarrow> admitted dp bs k ctx" for ctx
    unfolding admitted_def using r by blast
  show c: "carries dp as k ctx \<Longrightarrow> carries dp bs k ctx" for ctx
    unfolding carries_def using a by blast
  show "point_ok dp as pc k p \<Longrightarrow> point_ok dp bs pc k p"
    using a c assms by (cases p; simp; blast)
qed

text \<open>One goroutine moves, what it leaves behind is in order, and nothing of the others is touched.\<close>

lemma serve_ok_move:
  assumes "serve_ok dp s"
    and "\<And>t'. t' \<noteq> t \<Longrightarrow> snd (sy_cache s') t' = snd (sy_cache s) t' \<and> sy_calls s' t' = sy_calls s t'"
    and "sy_calls s' t = Some k" "PolicyFromContext (call_ctx k) = None"
    and "point_ok dp (sy_answers s') (snd (sy_cache s') t) k (call_point k)"
    and "set (sy_answers s) \<subseteq> set (sy_answers s')" "\<forall>a\<in>set (sy_answers s'). answer_genuine dp a"
    and "\<forall>(key, e)\<in>set (sh_stores (fst (sy_cache s'))). result_for (sy_answers s') key (ce_result e)"
    and "policy_cache_ok (dp_registry dp) (sy_policies s')"
  shows "serve_ok dp s'"
proof -
  have "case sy_calls s' t' of
      Some k \<Rightarrow> PolicyFromContext (call_ctx k) = None \<and> point_ok dp (sy_answers s') (snd (sy_cache s') t') k (call_point k)
    | None \<Rightarrow> snd (sy_cache s') t' = pc.Idle \<or> sweeper (snd (sy_cache s') t')" for t'
  proof (cases "t' = t")
    case True
    with assms(3-5) show ?thesis by simp
  next
    case False
    with assms(1) assms(2) [of t'] answers_mono(4) [OF assms(6)] show ?thesis
      by (auto simp: serve_ok_def split: option.split dest!: spec [of _ t'])
  qed
  with assms(7-9) show ?thesis unfolding serve_ok_def by blast
qed

lemma admitted_result:
  "presented (dp_lower dp) (dp_cfg dp) (call_tracked dp k) = Some (scheme, credential) \<Longrightarrow>
   result_for as (cacheKey scheme credential) result \<Longrightarrow>
   admitted dp as k (WithResult (call_tracked dp k) (Some result))"
  unfolding admitted_def by blast

lemma admitted_ctx:
  assumes "admitted dp as k ctx" and "PolicyFromContext (call_ctx k) = None"
  shows "ctx_incoming ctx = ctx_incoming (call_ctx k)"
    "RequestIDFromContext ctx = RequestIDFromContext (call_tracked dp k)" "RequestIDFromContext ctx \<noteq> []"
    "PolicyFromContext ctx = None"
  using assms by (auto simp: admitted_def call_tracked_def ctx_simps PolicyFromContext_def)

lemma pv_enrich_present: "RequestIDFromContext ctx \<noteq> [] \<Longrightarrow> pv_enrich now rnd ctx = ctx"
  by (simp add: pv_enrich_tracked tracked_present)

lemma Result_policy [ctx_simps]:
  "ResultFromContext (markInterceptorRan ctx) = ResultFromContext ctx"
  "ResultFromContext (withPolicy ctx r a) = ResultFromContext ctx"
  by (simp_all add: ResultFromContext_def ctx_simps)

lemma after_policy_ok:
  assumes "admitted dp as k ctx" "PolicyFromContext (call_ctx k) = None" "call_trace k = []"
  shows "point_ok dp as pc.Idle k (after_policy dp k ctx (call_policy dp k))"
proof -
  note c = admitted_ctx [OF assms(1,2)]
  have car: "carries dp as k (markInterceptorRan ctx)" "carries dp as k (withPolicy (markInterceptorRan ctx) r a)" for r a
    using assms(1) c by (auto simp: carries_def ctx_simps)
  obtain policy err where look: "call_policy dp k = (policy, err)" by fastforce
  show ?thesis
    using assms(3) c car
    by (auto simp: after_policy_def po_decide_def pv_decide_def look mandated_def pv_enrich_present ctx_simps Let_def
        split: option.split sum.split)
qed

lemma get_step_stores: "get_step sh pc ev sh' pc' \<Longrightarrow> sh_stores sh' = sh_stores sh"
  by (cases rule: get_step.cases) auto

lemma get_step_pc:
  assumes "get_step sh pc ev sh' pc'" and "get_pc key pc"
  shows "ev = Tau \<Longrightarrow> get_pc key pc'" "ev \<noteq> Tau \<Longrightarrow> pc' = pc.Idle"
    "ev = Hit key' result now \<Longrightarrow> \<exists>entry. pc = GetCheck key entry \<and> ce_result entry = result"
  using assms by (cases rule: get_step.cases; auto)+

lemma set_step_pc:
  assumes "set_step c sh pc sh' pc'" and "set_pc key result pc" and "pc \<noteq> pc.Idle"
  shows "set_pc key result pc'"
    "\<forall>a\<in>set (sh_stores sh'). a \<in> set (sh_stores sh) \<or> fst a = key \<and> ce_result (snd a) = result"
  using assms by (cases rule: set_step.cases; auto)+

lemma evict_step_pc:
  assumes "evict_step c me sh pc sh' pc'"
  shows "set_pc key result pc'" "sh_stores sh' = sh_stores sh"
  using assms by (cases rule: evict_step.cases; auto)+

lemma sweep_step_pc:
  assumes "sweep_step sh pc sh' pc'"
  shows "sweeper pc'" "sh_stores sh' = sh_stores sh"
  using assms by (cases rule: sweep_step.cases; auto)+

text \<open>What a step of a call leaves alone.\<close>

lemma call_step_frame:
  assumes "call_step dp t k p s s'" and "sy_calls s t = Some k"
  shows "t' \<noteq> t \<Longrightarrow> snd (sy_cache s') t' = snd (sy_cache s) t' \<and> sy_calls s' t' = sy_calls s t'"
    "\<exists>k'. sy_calls s' t = Some k' \<and> call_ctx k' = call_ctx k" "set (sy_answers s) \<subseteq> set (sy_answers s')"
  using assms by (cases rule: call_step.cases; auto)+

lemma call_step_answers:
  assumes "call_step dp t k p s s'" and "point_ok dp (sy_answers s) pc k p"
    and "\<forall>a\<in>set (sy_answers s). answer_genuine dp a"
  shows "\<forall>a\<in>set (sy_answers s'). answer_genuine dp a"
  using assms by (cases rule: call_step.cases) (auto simp: answer_genuine_def)

lemma call_step_policies:
  assumes "call_step dp t k p s s'" and "policy_cache_ok (dp_registry dp) (sy_policies s)"
  shows "policy_cache_ok (dp_registry dp) (sy_policies s')"
  using assms by (cases rule: call_step.cases) (auto simp: policy_cache_ok_def)

lemma call_step_stores:
  assumes "call_step dp t k p s s'" and "point_ok dp (sy_answers s) (snd (sy_cache s) t) k p"
    and "\<forall>(key, e)\<in>set (sh_stores (fst (sy_cache s))). result_for (sy_answers s) key (ce_result e)"
  shows "\<forall>(key, e)\<in>set (sh_stores (fst (sy_cache s'))). result_for (sy_answers s') key (ce_result e)"
  using assms(1)
proof (cases rule: call_step.cases)
  case (accepted i ctx credential result w' sh pcs pc' scheme now "is" lastErr)
  with assms(3) answers_mono(1) [of "sy_answers s" "sy_answers s'"] show ?thesis by fastforce
next
  case (set_run sh pcs sh' pc' ctx scheme credential result)
  with assms(2) have "result_for (sy_answers s) (cacheKey scheme credential) result"
    by (auto simp: result_for_def)
  with set_run assms(2,3) set_step_pc(2) [of "dp_cache dp" sh "pcs t" sh' pc' "cacheKey scheme credential" result]
  show ?thesis by fastforce
qed (use assms(2,3) in \<open>auto dest!: get_step_stores evict_step_pc(2)\<close>)

text \<open>What a call knows at the point it steps to.\<close>

lemma call_step_point:
  assumes "call_step dp t k p s s'" and "point_ok dp (sy_answers s) (snd (sy_cache s) t) k p"
    and "sy_calls s t = Some k" "call_point k = p" "PolicyFromContext (call_ctx k) = None"
    and "policy_cache_ok (dp_registry dp) (sy_policies s)"
    and "\<forall>(key, e)\<in>set (sh_stores (fst (sy_cache s))). result_for (sy_answers s) key (ce_result e)"
    and "stores_ok (dp_cache dp) (sy_cache s)"
    and "sy_calls s' t = Some k'"
  shows "point_ok dp (sy_answers s') (snd (sy_cache s') t) k' (call_point k')"
  using assms(1)
proof (cases rule: call_step.cases)
  case (get_hit sh pcs key result now sh' pc' ctx scheme credential)
  from assms(2) get_hit have g: "get_pc (cacheKey scheme credential) (pcs t)" by simp
  from get_step_pc(3) [OF get_hit(4) g refl] obtain entry where
    e: "pcs t = GetCheck (cacheKey scheme credential) entry" "ce_result entry = result"
    using g by (metis get_pc.simps(2))
  then have "(cacheKey scheme credential, entry) \<in> set (sh_stores sh)"
    using assms(8) get_hit by (auto simp: stores_ok_def dest: spec [of _ t])
  with assms(7) get_hit e have "result_for (sy_answers s) (cacheKey scheme credential) result" by auto
  with assms(2,9) get_hit get_step_pc(2) [OF get_hit(4) g] show ?thesis
    by (auto intro: admitted_result)
next
  case (set_end ctx scheme credential result)
  with assms(2) have "result_for (sy_answers s) (cacheKey scheme credential) result"
    by (auto simp: result_for_def)
  with assms(2,9) set_end show ?thesis by (auto intro: admitted_result)
next
  case (policy ctx answer)
  with assms(2,5,9) show ?thesis by (auto simp: after_policy_ok)
next
  case (handled ctx reply w')
  with assms(2) have "carries dp (sy_answers s) k ctx" "call_trace k @ [EvHandler] = call_mandate dp k True"
    by simp_all
  with assms(2,9) handled show ?thesis by auto
next
  case (no_credential ctx)
  with assms(2,9) show ?thesis by (auto simp: admitted_def)
qed (use assms(2-4,6,9) in \<open>auto simp: policy_cache_ok_def split: option.split
  dest: get_step_pc(1,2) set_step_pc(1) evict_step_pc(1)\<close>)

lemma call_step_ok:
  assumes "call_step dp t k (call_point k) s s'" and "serve_ok dp s" "sy_calls s t = Some k"
    and "stores_ok (dp_cache dp) (sy_cache s)"
  shows "serve_ok dp s'"
proof -
  have k: "PolicyFromContext (call_ctx k) = None" "point_ok dp (sy_answers s) (snd (sy_cache s) t) k (call_point k)"
    and pol: "policy_cache_ok (dp_registry dp) (sy_policies s)"
    and ans: "\<forall>a\<in>set (sy_answers s). answer_genuine dp a"
    and sto: "\<forall>(key, e)\<in>set (sh_stores (fst (sy_cache s))). result_for (sy_answers s) key (ce_result e)"
    using assms(2,3) by (auto simp: serve_ok_def dest: spec [of _ t])
  obtain k' where k': "sy_calls s' t = Some k'" "call_ctx k' = call_ctx k"
    using call_step_frame(2) [OF assms(1,3)] by blast
  show ?thesis
    using call_step_frame(1,3) [OF assms(1,3)] k' k(1) call_step_answers [OF assms(1) k(2) ans]
      call_step_stores [OF assms(1) k(2) sto] call_step_policies [OF assms(1) pol]
      call_step_point [OF assms(1) k(2) assms(3) refl k(1) pol sto assms(4) k'(1)]
    by (intro serve_ok_move [OF assms(2), of t s' k']) auto
qed

lemma serve_ok_reachable: "serve_reachable dp s \<Longrightarrow> serve_ok dp s"
proof (induction rule: serve_reachable.induct)
  case (serve_init w)
  show ?case by (auto simp: serve_ok_def serve_start_def cache_start_conf split: option.split)
next
  case (serve_next s l s')
  note sto = stores_ok_reachable [OF serve_cache_reachable [OF serve_next.hyps(1)]]
  from serve_next.hyps(2) show ?case
  proof (cases rule: serve_step.cases)
    case (arrive t k)
    with serve_next.IH show ?thesis
      by (intro serve_ok_move [OF serve_next.IH, of t s'
          "k\<lparr>call_point := AtIntrospect (call_tracked dp k), call_trace := []\<rparr>"]) (auto simp: serve_ok_def)
  next
    case (proceed t k)
    with serve_next.IH sto show ?thesis by (blast intro: call_step_ok)
  next
    case (sweep t sh pcs sh' pc')
    with serve_next.IH sweep_step_pc [OF sweep(5)] show ?thesis
      by (auto simp: serve_ok_def split: option.splits) (metis option.distinct(1))
  qed (use serve_next.IH in \<open>simp_all add: serve_ok_def cong: option.case_cong\<close>)
qed

section \<open>Properties of a server under load\<close>

lemma serve_call_ok:
  assumes "serve_reachable dp s" and "sy_calls s t = Some k"
  shows "point_ok dp (sy_answers s) (snd (sy_cache s) t) k (call_point k)"
    "\<forall>a\<in>set (sy_answers s). answer_genuine dp a"
  using serve_ok_reachable [OF assms(1)] assms(2) by (auto simp: serve_ok_def dest: spec [of _ t])

text \<open>What the log of a call may hold, at any time and once it is answered.\<close>

definition mediated_call ::
  "('m, 'fd, 'v, 'p, 'w) deployment \<Rightarrow> ('m, 'p, 'w) call \<Rightarrow> bool" where
  "mediated_call dp k \<longleftrightarrow>
     (\<exists>granted. prefix (call_trace k) (call_mandate dp k granted)) \<and>
     (case call_point k of
        Replied reply \<Rightarrow>
          call_trace k = [] \<and> (\<exists>e. reply = (None, Some e)) \<or> (\<exists>granted. call_trace k = call_mandate dp k granted)
      | AtHandler ctx \<Rightarrow> call_mandate dp k True = call_trace k @ [EvHandler]
      | AtVerify ctx p \<Rightarrow>
          call_trace k = [] \<and> call_mandate dp k False = [EvVerify (Resource p) (Action p) False]
      | _ \<Rightarrow> call_trace k = [])"

text \<open>
  C6. Complete mediation under load. In every interleaving of any number of calls through the four
  interceptors, with the shared caches accessed step by step, the sweep running and the world changing
  at will, the log of each call is at any time a beginning of what the policy of its own method mandates
  for its own request; the handler is called only after the mandated verification was granted, and a
  call that has been answered was either refused with an error, leaving no trace, or has left exactly the
  mandated trace.
\<close>

theorem concurrent_chain_mediates:
  assumes "serve_reachable dp s" and "sy_calls s t = Some k"
  shows "mediated_call dp k"
proof -
  note p = serve_call_ok(1) [OF assms]
  show ?thesis
  proof (cases "call_point k")
    case (AtHandler ctx)
    with p have m: "call_mandate dp k True = call_trace k @ [EvHandler]" by simp
    then have "prefix (call_trace k) (call_mandate dp k True)" by simp
    with m show ?thesis unfolding mediated_call_def AtHandler point.case by blast
  next
    case (Replied reply)
    from p have "call_trace k = [] \<and> (\<exists>e. reply = (None, Some e)) \<or> (\<exists>granted. call_trace k = call_mandate dp k granted)"
      unfolding Replied point_ok.simps by blast
    then show ?thesis
    proof
      assume "call_trace k = [] \<and> (\<exists>e. reply = (None, Some e))"
      with Replied show ?thesis by (simp add: mediated_call_def)
    next
      assume "\<exists>granted. call_trace k = call_mandate dp k granted"
      then obtain granted where "call_trace k = call_mandate dp k granted" ..
      then show ?thesis unfolding mediated_call_def Replied point.case
        by (metis prefix_order.refl)
    qed
  qed (use p in \<open>simp_all add: mediated_call_def\<close>)
qed

text \<open>
  C7. Identity under load. When a call reaches the verifier or the handler, its context has the metadata
  the client sent and the request identifier chosen for this very call; and either the call presented no
  credential and no result was added, or the context has a result that in this run a strategy registered for its scheme returned
  without error, for a credential with the cache key of the one the call presents: calls that run at the
  same time do not get each other's identity.
\<close>

theorem concurrent_identity:
  assumes "serve_reachable dp s" and "sy_calls s t = Some k"
    and "call_point k = AtHandler ctx \<or> call_point k = AtVerify ctx p"
  shows "ctx_incoming ctx = ctx_incoming (call_ctx k) \<and>
    RequestIDFromContext ctx = RequestIDFromContext (call_tracked dp k) \<and>
    (presents_nothing (dp_cfg dp) (call_tracked dp k) \<and>
       ResultFromContext ctx = ResultFromContext (call_tracked dp k) \<or>
     (\<exists>scheme credential scheme' credential' result.
        presented (dp_lower dp) (dp_cfg dp) (call_tracked dp k) = Some (scheme, credential) \<and>
        ResultFromContext ctx = Some result \<and>
        (scheme', credential', result) \<in> set (sy_answers s) \<and>
        answer_genuine dp (scheme', credential', result) \<and>
        cacheKey scheme' credential' = cacheKey scheme credential))"
proof -
  have "carries dp (sy_answers s) k ctx" using serve_call_ok(1) [OF assms(1,2)] assms(3) by auto
  with serve_call_ok(2) [OF assms(1,2)] show ?thesis
    unfolding carries_def admitted_def result_for_def by (auto simp: ctx_simps)
qed

subsection \<open>The size of the cache\<close>

definition storing :: "('m, 'p, 'w) system \<Rightarrow> nat set" where
  "storing s = {t. \<exists>k ctx scheme credential result. sy_calls s t = Some k \<and> call_point k = AtSet ctx scheme credential result}"

lemma serve_step_calls: "serve_step dp l s s' \<Longrightarrow> \<exists>t. dom (sy_calls s') \<subseteq> insert t (dom (sy_calls s))"
proof (induction rule: serve_step.induct)
  case (proceed s t k s')
  then have "dom (sy_calls s') \<subseteq> insert t (dom (sy_calls s))"
    using call_step_frame(1) [OF proceed(2,1)] by (force simp: dom_def)
  then show ?case ..
next
  case (arrive s t k)
  show ?case by (rule exI [of _ t]) auto
qed auto

lemma finite_storing: "serve_reachable dp s \<Longrightarrow> finite (storing s)"
proof -
  assume "serve_reachable dp s"
  then have "finite (dom (sy_calls s))"
  proof (induction rule: serve_reachable.induct)
    case (serve_next s l s')
    from serve_step_calls [OF serve_next.hyps(2)] serve_next.IH show ?case
      by (meson finite_insert finite_subset)
  qed (simp add: serve_start_def)
  moreover have "storing s \<subseteq> dom (sy_calls s)" by (auto simp: storing_def)
  ultimately show ?thesis by (rule finite_subset [rotated])
qed

lemma evicting_storing:
  assumes "serve_ok dp s" and "evicting (snd (sy_cache s) t)"
  shows "t \<in> storing s"
proof (cases "sy_calls s t")
  case None
  with assms have "sweeper (snd (sy_cache s) t)" by (auto simp: serve_ok_def dest!: spec [of _ t])
  with assms(2) show ?thesis by (cases "snd (sy_cache s) t") auto
next
  case (Some k)
  with assms(1) have p: "point_ok dp (sy_answers s) (snd (sy_cache s) t) k (call_point k)"
    by (auto simp: serve_ok_def dest!: spec [of _ t])
  with assms(2) Some show ?thesis
  proof (cases "call_point k")
    case (AtGet ctx scheme credential)
    with p assms(2) show ?thesis by (cases "snd (sy_cache s) t") auto
  qed (auto simp: storing_def)
qed

text \<open>
  The memory of a loaded server is bounded: the introspection cache never holds more entries than its
  bound plus the number of calls that are inside \<open>Set\<close> at the moment.
\<close>

theorem concurrent_server_bounded:
  assumes "serve_reachable dp s" and "0 < maxEntries (dp_cache dp)"
  shows "finite (dom (sh_entries (fst (sy_cache s)))) \<and>
    int (card (dom (sh_entries (fst (sy_cache s))))) \<le> maxEntries (dp_cache dp) + int (card (storing s))"
proof -
  obtain sh pcs where c: "sy_cache s = (sh, pcs)" by fastforce
  with size_ok_reachable [OF serve_cache_reachable [OF assms(1)] assms(2)]
  have b: "finite (dom (sh_entries sh))" "int (card (dom (sh_entries sh))) \<le> maxEntries (dp_cache dp) + int (card (evictors pcs))"
    by (simp_all add: size_ok_def)
  have "evictors pcs \<subseteq> storing s"
    using evicting_storing [OF serve_ok_reachable [OF assms(1)]] c by (auto simp: evictors_def)
  then have "card (evictors pcs) \<le> card (storing s)" by (rule card_mono [OF finite_storing [OF assms(1)]])
  with b c show ?thesis by simp
qed

subsection \<open>Progress\<close>

lemma evicting_bounded:
  "cache_reachable d opts s \<Longrightarrow> evicting (snd s t) \<Longrightarrow> 0 < maxEntries (fst (NewInMemoryCache d opts))"
proof (induction arbitrary: t rule: cache_reachable.induct)
  case reach_start
  then show ?case by (auto simp: cache_start_conf split: option.splits if_splits)
next
  case (reach_step s ev s')
  from reach_step.hyps(2) show ?case
  proof (cases rule: conc_step.cases)
    case (step_evict me sh pcs sh' pc')
    have "evicting (pcs me)" using step_evict(4) by (cases rule: evict_step.cases) auto
    with reach_step.IH [of me] step_evict show ?thesis by simp
  qed (use reach_step in \<open>auto simp: get_step.simps set_step.simps sweep_step.simps split: if_splits\<close>)
qed

text \<open>A goroutine inside \<open>Get\<close> is never blocked; one inside \<open>Set\<close> only before the mutex.\<close>

lemma get_enabled: "get_pc key pc \<Longrightarrow> \<exists>ev sh' pc'. get_step sh pc ev sh' pc'"
proof (cases pc)
  case (GetLoad key)
  then show ?thesis by (cases "sh_entries sh key") (auto intro: get_absent get_load)
next
  case (GetCheck key entry)
  then show ?thesis by (blast intro: get_expired get_fresh)
next
  case (GetDelete key)
  then show ?thesis by (blast intro: get_delete)
qed auto

lemma call_get_enabled:
  assumes "get_pc key (pcs t)" and "sy_cache s = (sh, pcs)"
  shows "\<exists>s'. call_step dp t k (AtGet ctx scheme credential) s s'"
proof -
  obtain ev sh' pc' where g: "get_step sh (pcs t) ev sh' pc'" using get_enabled [OF assms(1)] by blast
  have n: "pcs t \<noteq> pc.Idle" using assms(1) by auto
  show ?thesis
    using g by (cases ev) (use assms(2) n in \<open>blast intro: get_run get_hit get_miss\<close>)+
qed

lemma call_set_enabled:
  assumes "set_pc key result (pcs t)" and "sy_cache s = (sh, pcs)" and "pcs t = EvictLock \<longrightarrow> sh_evictMu sh = None"
  shows "\<exists>s'. call_step dp t k (AtSet ctx scheme credential result') s s'"
proof -
  consider "pcs t = pc.Idle" | key entry where "pcs t = SetStore key entry" | "pcs t = EvictLock" | "in_section (pcs t)"
    using assms(1) by (cases "pcs t") (auto simp: in_section_def)
  then show ?thesis
  proof cases
    case 1
    with assms(2) have "snd (sy_cache s) t = pc.Idle" by simp
    then show ?thesis by (blast intro: set_end)
  next
    case (2 key entry)
    then have "set_step (dp_cache dp) sh (pcs t) (sh_store key entry sh)
        (if 0 < maxEntries (dp_cache dp) then EvictLock else pc.Idle)" "pcs t \<noteq> pc.Idle" by (simp_all only: set_store) simp
    with assms(2) show ?thesis by (blast intro: set_run)
  next
    case 3
    with assms(3) have "evict_step (dp_cache dp) t sh (pcs t) (sh\<lparr>sh_evictMu := Some t\<rparr>) EvictLocked"
      by (simp add: evict_lock)
    with assms(2) show ?thesis by (blast intro: evict_run)
  next
    case 4
    then obtain sh' pc' where "evict_step (dp_cache dp) t sh (pcs t) sh' pc'" using evict_enabled by blast
    with assms(2) show ?thesis by (blast intro: evict_run)
  qed
qed

lemma call_strategies_enabled:
  assumes "sy_cache s = (sh, pcs)" and "pcs t = pc.Idle"
  shows "\<exists>s'. call_step dp t k (AtStrategies ctx scheme credential is lastErr) s s'"
proof (cases "is")
  case Nil
  then show ?thesis by (blast intro: exhausted)
next
  case (Cons i js)
  obtain x e w' where i: "Introspect i ctx credential (sy_world s) = ((x, e), w')" by (metis surj_pair)
  consider "x = None" "e = None" | result where "x = Some result" "e = None" | err where "e = Some err" by fastforce
  then show ?thesis
  proof cases
    case (2 result)
    have "set_step (dp_cache dp) sh (pcs t) sh (SetStore (cacheKey scheme credential)
        \<lparr>ce_result = result, ce_expiresAt = expiry_of (ttl (dp_cache dp)) now result\<rparr>)" for now
      unfolding assms(2) by (rule set_call)
    with 2 i Cons assms(1) show ?thesis by (blast intro: accepted)
  qed (use i Cons in \<open>blast intro: nil_result aborted rejected\<close>)+
qed

definition answered :: "('p, 'w) point \<Rightarrow> bool" where
  "answered p \<longleftrightarrow> (case p of Replied _ \<Rightarrow> True | Panicked _ \<Rightarrow> True | _ \<Rightarrow> False)"

lemma call_enabled:
  assumes "point_ok dp as (pcs t) k p" and "sy_cache s = (sh, pcs)" and "\<not> answered p"
    and "pcs t = EvictLock \<longrightarrow> sh_evictMu sh = None"
  shows "\<exists>s'. call_step dp t k p s s'"
proof (cases p)
  case (AtIntrospect ctx)
  with assms(1) have "pcs t = pc.Idle" by simp
  then have g: "get_step sh (pcs t) Tau sh (GetLoad key)" for key by (simp add: get_call)
  show ?thesis
  proof (cases "presented (dp_lower dp) (dp_cfg dp) ctx")
    case None
    with AtIntrospect show ?thesis by (blast intro: no_credential malformed)
  next
    case (Some sc)
    with g AtIntrospect assms(2) show ?thesis by (cases sc) (blast intro: get_start)
  qed
next
  case (AtLoad ctx)
  then show ?thesis by (cases "sy_policies s (call_method k)") (blast intro: load_hit load_miss)+
next
  case (AtScan ctx)
  then show ?thesis by (metis scan_store surj_pair)
next
  case (AtVerify ctx p)
  then show ?thesis
    by (cases "dp_verify dp ctx (Resource p) (Action p) (sy_world s)"; cases "fst (dp_verify dp ctx (Resource p) (Action p) (sy_world s))")
      (auto intro: granted refused)
next
  case (AtHandler ctx)
  then show ?thesis by (metis handled surj_pair)
qed (use assms in \<open>auto simp: answered_def intro: unsupported schemes policy call_get_enabled call_set_enabled
  call_strategies_enabled\<close>)

text \<open>
  C8. A loaded server never gets stuck. In every reachable state each call that has not been answered can
  take its next step, unless it waits for the mutex of the cache while another call holds it, and then
  that other call can take a step.
\<close>

theorem concurrent_calls_progress:
  assumes "serve_reachable dp s" and "sy_calls s t = Some k" and "\<not> answered (call_point k)"
  shows "(\<exists>s'. serve_step dp (Some t) s s') \<or>
    (\<exists>h s'. h \<noteq> t \<and> snd (sy_cache s) t = EvictLock \<and> sh_evictMu (fst (sy_cache s)) = Some h \<and>
       serve_step dp (Some h) s s')"
proof -
  obtain sh pcs where c: "sy_cache s = (sh, pcs)" by fastforce
  note inv = serve_ok_reachable [OF assms(1)] and cr = serve_cache_reachable [OF assms(1)]
  show ?thesis
  proof (cases "pcs t = EvictLock \<longrightarrow> sh_evictMu sh = None")
    case True
    have "point_ok dp (sy_answers s) (pcs t) k (call_point k)" using serve_call_ok(1) [OF assms(1,2)] c by simp
    from call_enabled [OF this c assms(3) True] assms(2) show ?thesis by (blast intro: proceed)
  next
    case False
    then obtain h where h: "pcs t = EvictLock" "sh_evictMu sh = Some h" by auto
    have "0 < maxEntries (dp_cache dp)" using evicting_bounded [OF cr, of t] c h by simp
    from size_ok_reachable [OF cr this] c h have sec: "in_section (pcs h)"
      by (auto simp: size_ok_def dest: spec [of _ h])
    then obtain kh ctx scheme credential result where
      kh: "sy_calls s h = Some kh" "call_point kh = AtSet ctx scheme credential result"
      using evicting_storing [OF inv, of h] c by (auto simp: in_section_def storing_def)
    obtain sh' pc' where "evict_step (dp_cache dp) h sh (pcs h) sh' pc'" using evict_enabled [OF sec] by blast
    from evict_run [OF c this] kh have "\<exists>s'. serve_step dp (Some h) s s'" by (metis proceed)
    moreover have "h \<noteq> t" using sec h by (auto simp: in_section_def)
    ultimately show ?thesis using c h by auto
  qed
qed

section \<open>A run\<close>

text \<open>
  One call with a bearer token that the only strategy accepts, for a method with a policy, and an endpoint
  that allows everything: it misses the cache, stores the result, scans the registry, is verified and
  handled.
\<close>

definition demo_deployment ::
  "InMemoryCacheOption list \<Rightarrow> ((string \<times> string) list, string, string, unit, nat) deployment" where
  "demo_deployment opts =
     \<lparr>dp_rtOpts = [], dp_lower = id, dp_cfg = one_strategy accepting None, dp_ttl = 10, dp_cacheOpts = opts,
      dp_registry = example_registry \<lparr>pb_Resource = ''posts/1'', pb_Action = ''read'', FieldMappings = []\<rparr>,
      dp_reflect = flat_message StringKind, dp_verify = Allow, dp_handler = (\<lambda>ctx req w. ((Some (), None), w))\<rparr>"

definition demo_call :: "((string \<times> string) list, unit, nat) call" where
  "demo_call =
     \<lparr>call_ctx = bearer_ctx ''t'', call_method = ''/s/M'', call_req = ProtoMessage [], call_now = example_time,
      call_rnd = replicate 16 0, call_point = Panicked [], call_trace = []\<rparr>"

abbreviation demo_policy :: Policy where
  "demo_policy \<equiv> \<lparr>Resource = ''posts/1'', Action = ''read''\<rparr>"

lemma demo_simps [simp]:
  "dp_ttl (demo_deployment opts) = 10" "dp_cacheOpts (demo_deployment opts) = opts"
  "dp_cfg (demo_deployment opts) = one_strategy accepting None" "dp_lower (demo_deployment opts) = id"
  "dp_reflect (demo_deployment opts) = flat_message StringKind"
  "dp_verify (demo_deployment opts) ctx r a w = (None, w)"
  "dp_handler (demo_deployment opts) ctx req w = ((Some (), None), w)"
  "call_method demo_call = ''/s/M''" "call_req demo_call = ProtoMessage []" "call_ctx demo_call = bearer_ctx ''t''"
  "lookupMethodPolicy (dp_registry (demo_deployment opts)) ''/s/M'' =
     (Some \<lparr>pb_Resource = ''posts/1'', pb_Action = ''read'', FieldMappings = []\<rparr>, None)"
  "ti_schemes (one_strategy accepting None) ''bearer'' = [accepting]"
  by (simp_all add: demo_deployment_def demo_call_def Allow_def mock_Verify_def lookup_example one_strategy_def)

text \<open>Where goroutine 1 is, its cache program counter, the entries and the policies.\<close>

definition demo_at ::
  "InMemoryCacheOption list \<Rightarrow> (unit, nat) point \<Rightarrow> event list \<Rightarrow> pc \<Rightarrow> (string \<rightharpoonup> cacheEntry) \<Rightarrow>
   ((string \<times> string) list, unit, nat) system \<Rightarrow> bool" where
  "demo_at opts p l pc es s \<longleftrightarrow>
     serve_reachable (demo_deployment opts) s \<and> sy_calls s = [1 \<mapsto> demo_call\<lparr>call_point := p, call_trace := l\<rparr>] \<and>
     snd (sy_cache s) 1 = pc \<and> sh_entries (fst (sy_cache s)) = es"

lemma demo_next:
  assumes "demo_at opts p l pc es s"
    and "call_step (demo_deployment opts) 1 (demo_call\<lparr>call_point := p, call_trace := l\<rparr>) p s s'"
    and "sy_calls s' = [1 \<mapsto> demo_call\<lparr>call_point := p', call_trace := l'\<rparr>]"
    and "snd (sy_cache s') 1 = pc'" "sh_entries (fst (sy_cache s')) = es'"
  shows "demo_at opts p' l' pc' es' s'"
proof -
  have "serve_step (demo_deployment opts) (Some 1) s s'"
    using assms(1,2) by (intro proceed [where k = "demo_call\<lparr>call_point := p, call_trace := l\<rparr>"]) (simp_all add: demo_at_def)
  with assms show ?thesis by (auto simp: demo_at_def intro: serve_next)
qed

lemma demo_call_update [simp]:
  "demo_call\<lparr>call_trace := l, call_point := p\<rparr> = demo_call\<lparr>call_point := p, call_trace := l\<rparr>"
  by (simp add: demo_call_def)

definition demo_ctx :: go_ctx where
  "demo_ctx = call_tracked (demo_deployment []) demo_call"

abbreviation demo_key :: string where
  "demo_key \<equiv> cacheKey ''bearer'' ''t''"

abbreviation accepted_result :: IntrospectionResult where
  "accepted_result \<equiv> rfc_result (\<lambda>_. 0) [''active'' \<mapsto> AnyBool True]"

lemma demo_tracked: "call_tracked (demo_deployment opts) demo_call = demo_ctx"
  by (simp add: demo_ctx_def call_tracked_def demo_deployment_def)

lemma demo_presented: "presented id (one_strategy accepting None) demo_ctx = Some (''bearer'', ''t'')"
  using presented_bearer [OF no_space_t, of id accepting None]
  by (simp add: demo_ctx_def presented_def call_tracked_def ctx_simps)

lemma demo_arrived: "\<exists>s. demo_at opts (AtIntrospect demo_ctx) [] pc.Idle Map.empty s"
proof -
  obtain s where s: "serve_reachable (demo_deployment opts) s" "sy_calls s = Map.empty"
    "snd (sy_cache s) 1 = pc.Idle" "sh_entries (fst (sy_cache s)) = Map.empty"
  proof
    show "serve_reachable (demo_deployment opts) (serve_start (demo_deployment opts) 0)" by (rule serve_init)
  qed (simp_all add: serve_start_def cache_start_conf split: option.split)
  have free: "PolicyFromContext (call_ctx demo_call) = None"
    by (simp add: bearer_ctx_def PolicyFromContext_def context_Value_def)
  have idle: "sy_calls s 1 = None" by (simp only: s(2))
  have "serve_step (demo_deployment opts) None s (s\<lparr>sy_calls := (sy_calls s)(1 \<mapsto> demo_call
      \<lparr>call_point := AtIntrospect (call_tracked (demo_deployment opts) demo_call), call_trace := []\<rparr>)\<rparr>)"
    by (rule arrive [OF idle s(3) free])
  from serve_next [OF s(1) this] s(2-4)
  have "demo_at opts (AtIntrospect demo_ctx) [] pc.Idle Map.empty (s\<lparr>sy_calls := (sy_calls s)(1 \<mapsto> demo_call
      \<lparr>call_point := AtIntrospect (call_tracked (demo_deployment opts) demo_call), call_trace := []\<rparr>)\<rparr>)"
    by (simp add: demo_at_def demo_tracked)
  then show ?thesis by blast
qed

lemma demo_storing:
  "\<exists>s. demo_at opts (AtSet demo_ctx ''bearer'' ''t'' accepted_result) []
     (SetStore demo_key \<lparr>ce_result = accepted_result, ce_expiresAt = expiry_of 10 demo_time accepted_result\<rparr>) Map.empty s"
proof -
  obtain s0 where s0: "demo_at opts (AtIntrospect demo_ctx) [] pc.Idle Map.empty s0" using demo_arrived by blast
  obtain sh0 pcs0 where c0: "sy_cache s0 = (sh0, pcs0)" by fastforce
  let ?k = "\<lambda>p. demo_call\<lparr>call_point := p, call_trace := []\<rparr>"
  let ?s1 = "goto 1 (?k (AtIntrospect demo_ctx)) (AtGet demo_ctx ''bearer'' ''t'') (s0\<lparr>sy_cache := (sh0, pcs0(1 := GetLoad demo_key))\<rparr>)"
  have s1: "demo_at opts (AtGet demo_ctx ''bearer'' ''t'') [] (GetLoad demo_key) Map.empty ?s1"
    using s0 c0 by (intro demo_next [OF s0 get_start]) (auto simp: demo_presented demo_at_def get_call)
  let ?s2 = "goto 1 (?k (AtGet demo_ctx ''bearer'' ''t'')) (AtSchemes demo_ctx ''bearer'' ''t'')
      (?s1\<lparr>sy_cache := (sh0, (pcs0(1 := GetLoad demo_key))(1 := pc.Idle))\<rparr>)"
  have s2: "demo_at opts (AtSchemes demo_ctx ''bearer'' ''t'') [] pc.Idle Map.empty ?s2"
    using s0 c0 by (intro demo_next [OF s1 get_miss]) (auto simp: demo_at_def intro: get_absent)
  let ?s3 = "goto 1 (?k (AtSchemes demo_ctx ''bearer'' ''t'')) (AtStrategies demo_ctx ''bearer'' ''t'' [accepting] None) ?s2"
  have s3: "demo_at opts (AtStrategies demo_ctx ''bearer'' ''t'' [accepting] None) [] pc.Idle Map.empty ?s3"
    using s2 schemes [of "demo_deployment opts" "''bearer''"]
    by (intro demo_next [OF s2]) (auto simp: demo_at_def)
  obtain sh3 pcs3 where c3: "sy_cache ?s3 = (sh3, pcs3)" "pcs3 1 = pc.Idle" using s3 by (simp add: demo_at_def)
  let ?pc = "SetStore demo_key \<lparr>ce_result = accepted_result, ce_expiresAt = expiry_of 10 demo_time accepted_result\<rparr>"
  let ?s4 = "goto 1 (?k (AtStrategies demo_ctx ''bearer'' ''t'' [accepting] None)) (AtSet demo_ctx ''bearer'' ''t'' accepted_result)
      (?s3\<lparr>sy_cache := (sh3, pcs3(1 := ?pc)), sy_world := Suc (sy_world ?s3),
          sy_answers := sy_answers ?s3 @ [(''bearer'', ''t'', accepted_result)]\<rparr>)"
  have "set_step (dp_cache (demo_deployment opts)) sh3 (pcs3 1) sh3 ?pc"
    using set_call [of "dp_cache (demo_deployment opts)" sh3 demo_key accepted_result demo_time] c3(2)
    by simp
  with s3 c3 have "demo_at opts (AtSet demo_ctx ''bearer'' ''t'' accepted_result) [] ?pc Map.empty ?s4"
    by (intro demo_next [OF s3 accepted]) (auto simp: accepting_result demo_at_def)
  then show ?thesis by blast
qed

abbreviation demo_entry_of :: cacheEntry where
  "demo_entry_of \<equiv> \<lparr>ce_result = accepted_result, ce_expiresAt = expiry_of 10 demo_time accepted_result\<rparr>"

lemma demo_stored:
  "\<exists>s. demo_at opts (AtSet demo_ctx ''bearer'' ''t'' accepted_result) []
     (if 0 < maxEntries (fst (NewInMemoryCache 10 opts)) then EvictLock else pc.Idle) [demo_key \<mapsto> demo_entry_of] s"
proof -
  obtain s where s: "demo_at opts (AtSet demo_ctx ''bearer'' ''t'' accepted_result) [] (SetStore demo_key demo_entry_of) Map.empty s"
    using demo_storing by blast
  obtain sh pcs where c: "sy_cache s = (sh, pcs)" by fastforce
  let ?s = "s\<lparr>sy_cache := (sh_store demo_key demo_entry_of sh,
      pcs(1 := if 0 < maxEntries (dp_cache (demo_deployment opts)) then EvictLock else pc.Idle))\<rparr>"
  have "set_step (dp_cache (demo_deployment opts)) sh (pcs 1) (sh_store demo_key demo_entry_of sh)
      (if 0 < maxEntries (dp_cache (demo_deployment opts)) then EvictLock else pc.Idle)"
    using set_store s c by (simp only: demo_at_def snd_conv fst_conv)
  with s c have "demo_at opts (AtSet demo_ctx ''bearer'' ''t'' accepted_result) []
      (if 0 < maxEntries (fst (NewInMemoryCache 10 opts)) then EvictLock else pc.Idle) [demo_key \<mapsto> demo_entry_of] ?s"
    by (intro demo_next [OF s set_run]) (auto simp: demo_at_def)
  then show ?thesis by blast
qed

definition demo_verify_ctx :: go_ctx where
  "demo_verify_ctx = withPolicy (markInterceptorRan (WithResult demo_ctx (Some accepted_result))) ''posts/1'' ''read''"

lemma demo_verifying: "\<exists>s es. demo_at [] (AtVerify demo_verify_ctx demo_policy) [] pc.Idle es s"
proof -
  let ?c = "WithResult demo_ctx (Some accepted_result)" and ?k = "\<lambda>p. demo_call\<lparr>call_point := p, call_trace := []\<rparr>"
  let ?a = "(Some \<lparr>pb_Resource = ''posts/1'', pb_Action = ''read'', FieldMappings = []\<rparr>, None) :: policy_result"
  obtain s0 es where s0: "demo_at [] (AtSet demo_ctx ''bearer'' ''t'' accepted_result) [] pc.Idle es s0"
    using demo_stored [of "[]"] by (auto simp: NewInMemoryCache_def apply_opts_Nil)
  let ?s1 = "goto 1 (?k (AtSet demo_ctx ''bearer'' ''t'' accepted_result)) (AtLoad ?c) s0"
  have s1: "demo_at [] (AtLoad ?c) [] pc.Idle es ?s1"
    using s0 by (intro demo_next [OF s0 set_end]) (simp_all add: demo_at_def)
  have "\<exists>s2. demo_at [] (AtPolicy ?c ?a) [] pc.Idle es s2"
  proof (cases "sy_policies ?s1 ''/s/M''")
    case None
    let ?s2 = "goto 1 (?k (AtLoad ?c)) (AtScan ?c) ?s1"
    have s2: "demo_at [] (AtScan ?c) [] pc.Idle es ?s2"
      using s1 None by (intro demo_next [OF s1 load_miss]) (simp_all add: demo_at_def)
    let ?s3 = "goto 1 (?k (AtScan ?c)) (AtPolicy ?c ?a)
        (?s2\<lparr>sy_policies := (sy_policies ?s2)(''/s/M'' \<mapsto> \<lparr>cp_policy = fst ?a, cp_err = None\<rparr>)\<rparr>)"
    have "call_step (demo_deployment []) 1 (?k (AtScan ?c)) (AtScan ?c) ?s2 ?s3"
      using scan_store [of "demo_deployment []" "?k (AtScan ?c)" "fst ?a" None 1 ?c ?s2] by simp
    then have "demo_at [] (AtPolicy ?c ?a) [] pc.Idle es ?s3"
      by (rule demo_next [OF s2]) (use s0 in \<open>simp_all add: demo_at_def\<close>)
    then show ?thesis by blast
  next
    case (Some c)
    have "policy_cache_ok (dp_registry (demo_deployment [])) (sy_policies ?s1)"
      using serve_ok_reachable [of "demo_deployment []" ?s1] s1 by (simp only: demo_at_def serve_ok_def)
    with Some have a: "(cp_policy c, cp_err c) = ?a" by (simp add: policy_cache_ok_def)
    have "call_step (demo_deployment []) 1 (?k (AtLoad ?c)) (AtLoad ?c) ?s1 (goto 1 (?k (AtLoad ?c)) (AtPolicy ?c ?a) ?s1)"
      unfolding a [symmetric] by (rule load_hit) (use Some in simp)
    then have "demo_at [] (AtPolicy ?c ?a) [] pc.Idle es (goto 1 (?k (AtLoad ?c)) (AtPolicy ?c ?a) ?s1)"
      by (rule demo_next [OF s1]) (use s0 in \<open>simp_all add: demo_at_def\<close>)
    then show ?thesis by blast
  qed
  then obtain s3 where s3: "demo_at [] (AtPolicy ?c ?a) [] pc.Idle es s3" by blast
  have "RequestIDFromContext demo_ctx \<noteq> []" by (simp add: demo_ctx_def call_tracked_def ctx_simps)
  then have "after_policy (demo_deployment []) (?k (AtPolicy ?c ?a)) ?c ?a = AtVerify demo_verify_ctx demo_policy"
    by (simp add: after_policy_def po_decide_def resolveResourceFromRequest_def pv_decide_def demo_verify_ctx_def
        pv_enrich_present ctx_simps Let_def)
  then have "call_step (demo_deployment []) 1 (?k (AtPolicy ?c ?a)) (AtPolicy ?c ?a) s3
      (goto 1 (?k (AtPolicy ?c ?a)) (AtVerify demo_verify_ctx demo_policy) s3)"
    by (metis policy)
  then have "demo_at [] (AtVerify demo_verify_ctx demo_policy) [] pc.Idle es
      (goto 1 (?k (AtPolicy ?c ?a)) (AtVerify demo_verify_ctx demo_policy) s3)"
    by (rule demo_next [OF s3]) (use s3 in \<open>simp_all add: demo_at_def\<close>)
  then show ?thesis by blast
qed

lemma demo_handling:
  "\<exists>s es. demo_at [] (AtHandler demo_verify_ctx) [EvVerify ''posts/1'' ''read'' True] pc.Idle es s"
proof -
  let ?p = "AtVerify demo_verify_ctx demo_policy :: (unit, nat) point"
  let ?k = "demo_call\<lparr>call_point := ?p, call_trace := []\<rparr>"
  obtain s es where s: "demo_at [] ?p [] pc.Idle es s" using demo_verifying by blast
  have "call_step (demo_deployment []) 1 ?k ?p s (goto 1 (record_event (EvVerify ''posts/1'' ''read'' True) ?k)
      (AtHandler demo_verify_ctx) (s\<lparr>sy_world := sy_world s\<rparr>))"
    using granted [of "demo_deployment []" demo_verify_ctx demo_policy s "sy_world s" 1 ?k] by simp
  then have "demo_at [] (AtHandler demo_verify_ctx) [EvVerify ''posts/1'' ''read'' True] pc.Idle es
      (goto 1 (record_event (EvVerify ''posts/1'' ''read'' True) ?k) (AtHandler demo_verify_ctx) (s\<lparr>sy_world := sy_world s\<rparr>))"
    by (rule demo_next [OF s]) (use s in \<open>simp_all add: demo_at_def record_event_def\<close>)
  then show ?thesis by blast
qed

lemma demo_replied:
  "\<exists>s es. demo_at [] (Replied (Some (), None)) [EvVerify ''posts/1'' ''read'' True, EvHandler] pc.Idle es s"
proof -
  let ?p = "AtHandler demo_verify_ctx :: (unit, nat) point"
  let ?k = "demo_call\<lparr>call_point := ?p, call_trace := [EvVerify ''posts/1'' ''read'' True]\<rparr>"
  obtain s es where s: "demo_at [] ?p [EvVerify ''posts/1'' ''read'' True] pc.Idle es s" using demo_handling by blast
  have "call_step (demo_deployment []) 1 ?k ?p s (goto 1 (record_event EvHandler ?k) (Replied (Some (), None))
      (s\<lparr>sy_world := sy_world s\<rparr>))"
    using handled [of "demo_deployment []" demo_verify_ctx ?k s "(Some (), None)" "sy_world s" 1] by simp
  then have "demo_at [] (Replied (Some (), None)) [EvVerify ''posts/1'' ''read'' True, EvHandler] pc.Idle es
      (goto 1 (record_event EvHandler ?k) (Replied (Some (), None)) (s\<lparr>sy_world := sy_world s\<rparr>))"
    by (rule demo_next [OF s]) (use s in \<open>simp_all add: demo_at_def record_event_def\<close>)
  then show ?thesis by blast
qed

section \<open>Witnesses\<close>

theorem concurrent_chain_mediates_witness:
  "\<exists>s k. serve_reachable (demo_deployment []) s \<and> sy_calls s 1 = Some k \<and>
     call_trace k = [EvVerify ''posts/1'' ''read'' True, EvHandler] \<and>
     mediated_call (demo_deployment []) k"
proof -
  obtain s es where "demo_at [] (Replied (Some (), None)) [EvVerify ''posts/1'' ''read'' True, EvHandler] pc.Idle es s"
    using demo_replied by blast
  then have s: "serve_reachable (demo_deployment []) s" "sy_calls s 1 = Some (demo_call
      \<lparr>call_point := Replied (Some (), None), call_trace := [EvVerify ''posts/1'' ''read'' True, EvHandler]\<rparr>)"
    by (simp_all add: demo_at_def)
  show ?thesis by (intro exI conjI, rule s(1), rule s(2)) (simp, rule concurrent_chain_mediates [OF s])
qed

theorem concurrent_identity_witness:
  "\<exists>s scheme' credential' result. serve_reachable (demo_deployment []) s \<and>
     presented id (one_strategy accepting None) demo_ctx = Some (''bearer'', ''t'') \<and>
     ResultFromContext demo_verify_ctx = Some result \<and> (scheme', credential', result) \<in> set (sy_answers s) \<and>
     cacheKey scheme' credential' = demo_key"
proof -
  obtain s es where "demo_at [] (AtHandler demo_verify_ctx) [EvVerify ''posts/1'' ''read'' True] pc.Idle es s"
    using demo_handling by blast
  then have s: "serve_reachable (demo_deployment []) s" "sy_calls s 1 = Some (demo_call
      \<lparr>call_point := AtHandler demo_verify_ctx, call_trace := [EvVerify ''posts/1'' ''read'' True]\<rparr>)"
    by (simp_all add: demo_at_def)
  have "\<not> presents_nothing (one_strategy accepting None) demo_ctx"
    using demo_presented by (rule presented_not_nothing)
  with concurrent_identity [OF s, of demo_verify_ctx demo_policy] s(1) show ?thesis
    by (auto simp: demo_tracked demo_presented)
qed

theorem concurrent_server_bounded_witness:
  "\<exists>s. serve_reachable (demo_deployment [WithMaxEntries 1]) s \<and>
     sh_entries (fst (sy_cache s)) = [demo_key \<mapsto> demo_entry_of] \<and>
     card (dom (sh_entries (fst (sy_cache s)))) = 1 \<and>
     int (card (dom (sh_entries (fst (sy_cache s))))) \<le> 1 + int (card (storing s))"
proof -
  obtain s pc where "demo_at [WithMaxEntries 1] (AtSet demo_ctx ''bearer'' ''t'' accepted_result) []
      pc [demo_key \<mapsto> demo_entry_of] s"
    using demo_stored [of "[WithMaxEntries 1]"] by blast
  then have s: "serve_reachable (demo_deployment [WithMaxEntries 1]) s"
    "sh_entries (fst (sy_cache s)) = [demo_key \<mapsto> demo_entry_of]"
    by (simp_all add: demo_at_def)
  have "maxEntries (dp_cache (demo_deployment [WithMaxEntries 1])) = 1" by (simp add: demo_new)
  with concurrent_server_bounded [OF s(1)] s(2) have "int (card (dom (sh_entries (fst (sy_cache s))))) \<le> 1 + int (card (storing s))"
    by simp
  with s show ?thesis by (intro exI [of _ s] conjI) simp_all
qed

theorem concurrent_calls_progress_witness:
  "\<exists>s s'. snd (sy_cache s) 1 = SetStore demo_key demo_entry_of \<and> serve_step (demo_deployment []) (Some 1) s s'"
proof -
  obtain s where s: "demo_at [] (AtSet demo_ctx ''bearer'' ''t'' accepted_result) [] (SetStore demo_key demo_entry_of) Map.empty s"
    using demo_storing by blast
  with concurrent_calls_progress [of "demo_deployment []" s 1] have "\<exists>s'. serve_step (demo_deployment []) (Some 1) s s'"
    by (simp add: demo_at_def answered_def)
  with s show ?thesis by (auto simp: demo_at_def)
qed

end
