(* ===== verification/Logging.thy ===== *)
theory Logging
  imports Request_Tracking
begin

text \<open>
  The loggers of the packages (\<open>policy_verification/internal/logger.go\<close> and the five \<open>logger.go\<close> files):
  a \<open>log/slog\<close> logger over a text handler on standard error with a least level. Standard error is
  the list of lines written so far, each line by its level, message and attributes; the time and
  the quoting of values, which no code of the repository looks at, are left out. The text handler
  is an implementation of \<open>slog.Handler\<close>, so it composes with the wrapper of \<open>request_tracking/handler.go\<close>.
\<close>

section \<open>The text handler of \<open>log/slog\<close>\<close>

text \<open>
  \<open>WithGroup\<close> opens a group, whose name and a dot then precede every key; \<open>WithAttrs\<close> stores attributes with
  the prefix that is open at that moment.
\<close>

record TextHandler =
  th_Level :: int
  th_prefix :: string
  th_attrs :: "(string \<times> string) list"

definition qualify :: "string \<Rightarrow> (string \<times> string) list \<Rightarrow> (string \<times> string) list" where
  "qualify pre = map (\<lambda>(k, v). (pre @ k, v))"

definition TextHandler_Enabled :: "TextHandler \<Rightarrow> go_ctx \<Rightarrow> int \<Rightarrow> bool" where
  "TextHandler_Enabled h ctx level \<longleftrightarrow> th_Level h \<le> level"

definition TextHandler_Handle ::
  "TextHandler \<Rightarrow> go_ctx \<Rightarrow> slog_record \<Rightarrow> slog_record list \<Rightarrow> go_error option \<times> slog_record list" where
  "TextHandler_Handle h ctx r stderr =
     (None, stderr @ [r\<lparr>log_attrs := th_attrs h @ qualify (th_prefix h) (log_attrs r)\<rparr>])"

definition TextHandler_WithAttrs :: "TextHandler \<Rightarrow> (string \<times> string) list \<Rightarrow> TextHandler" where
  "TextHandler_WithAttrs h attrs = h\<lparr>th_attrs := th_attrs h @ qualify (th_prefix h) attrs\<rparr>"

definition TextHandler_WithGroup :: "TextHandler \<Rightarrow> string \<Rightarrow> TextHandler" where
  "TextHandler_WithGroup h name = h\<lparr>th_prefix := th_prefix h @ name @ ''.''\<rparr>"

definition TextHandler_impl :: "(TextHandler, slog_record list) slog_Handler" where
  "TextHandler_impl =
     \<lparr>Enabled = TextHandler_Enabled, Handle = TextHandler_Handle,
      WithAttrs = TextHandler_WithAttrs, WithGroup = TextHandler_WithGroup\<rparr>"

definition slog_NewTextHandler :: "int \<Rightarrow> TextHandler" where
  "slog_NewTextHandler level = \<lparr>th_Level = level, th_prefix = [], th_attrs = []\<rparr>"

section \<open>The loggers\<close>

text \<open>
  A logger is its handler: a call builds a record only if the handler is enabled for the level, and the
  error of \<open>Handle\<close> is dropped.
\<close>

definition Logger_log ::
  "('h, 'w) slog_Handler \<Rightarrow> 'h \<Rightarrow> go_ctx \<Rightarrow> int \<Rightarrow> string \<Rightarrow> (string \<times> string) list \<Rightarrow> 'w \<Rightarrow> 'w" where
  "Logger_log ops h ctx level msg attrs w =
     (if Enabled ops h ctx level
      then snd (Handle ops h ctx \<lparr>log_level = level, log_message = msg, log_attrs = attrs\<rparr> w)
      else w)"

definition NewLogger :: "int \<Rightarrow> TextHandler" where
  "NewLogger level = slog_NewTextHandler level"

definition pv_newLogger :: "int \<Rightarrow> TextHandler" where
  "pv_newLogger level = NewLogger level"

definition endpoint_newLogger :: "int \<Rightarrow> TextHandler" where
  "endpoint_newLogger level = NewLogger level"

definition po_newLogger :: "int \<Rightarrow> TextHandler" where
  "po_newLogger level = slog_NewTextHandler level"

definition rt_newLogger :: "int \<Rightarrow> TextHandler" where
  "rt_newLogger level = slog_NewTextHandler level"

definition ti_newLogger :: "int \<Rightarrow> TextHandler" where
  "ti_newLogger level = slog_NewTextHandler level"

lemmas newLogger_defs =
  NewLogger_def pv_newLogger_def endpoint_newLogger_def po_newLogger_def rt_newLogger_def ti_newLogger_def

section \<open>What reaches standard error\<close>

text \<open>
  The prefix and the attributes that a sequence of derivations leaves behind, by position: an
  attribute carries the groups opened before it.
\<close>

fun open_prefix :: "derivation list \<Rightarrow> string" where
  "open_prefix [] = []"
| "open_prefix (DAttrs as # ds) = open_prefix ds"
| "open_prefix (DGroup n # ds) = n @ ''.'' @ open_prefix ds"

fun stored_attrs :: "string \<Rightarrow> derivation list \<Rightarrow> (string \<times> string) list" where
  "stored_attrs pre [] = []"
| "stored_attrs pre (DAttrs as # ds) = qualify pre as @ stored_attrs pre ds"
| "stored_attrs pre (DGroup n # ds) = stored_attrs (pre @ n @ ''.'') ds"

lemma derive_TextHandler:
  "derive TextHandler_impl h ds =
     \<lparr>th_Level = th_Level h, th_prefix = th_prefix h @ open_prefix ds,
      th_attrs = th_attrs h @ stored_attrs (th_prefix h) ds\<rparr>"
  by (induction ds arbitrary: h rule: open_prefix.induct)
    (simp_all add: TextHandler_impl_def TextHandler_WithAttrs_def TextHandler_WithGroup_def)

lemma requestIDHandler_impl_sel:
  "Enabled (requestIDHandler_impl ops) = requestIDHandler_Enabled ops"
  "Handle (requestIDHandler_impl ops) = requestIDHandler_Handle ops"
  by (simp_all add: requestIDHandler_impl_def)

lemma TextHandler_impl_sel:
  "Enabled TextHandler_impl = TextHandler_Enabled" "Handle TextHandler_impl = TextHandler_Handle"
  by (simp_all add: TextHandler_impl_def)

lemmas logger_sel = requestIDHandler_impl_sel TextHandler_impl_sel

text \<open>
  A logger of the repository behind the wrapper that adds request identifiers, however it was
  derived: a call below the configured level writes nothing, any other call writes exactly one line
  with the stored attributes, the attributes of the call and the request identifier, if the
  context has one. The identifier comes last and its key is qualified by every open group.
\<close>

theorem logged_line:
  "Logger_log (requestIDHandler_impl TextHandler_impl)
     (derive (requestIDHandler_impl TextHandler_impl) (NewRequestIDHandler (NewLogger least) opts) ds)
     ctx level msg attrs stderr =
   (if level < least then stderr
    else stderr @ [\<lparr>log_level = level, log_message = msg, log_attrs =
      stored_attrs [] ds @ qualify (open_prefix ds)
        (attrs @ (if RequestIDFromContext ctx = [] then []
                  else [(cfg_attributeKey (apply_opts opts \<lparr>cfg_attributeKey = ''x-request-id''\<rparr>),
                         RequestIDFromContext ctx)]))\<rparr>])"
proof -
  have d: "derive (requestIDHandler_impl TextHandler_impl) (NewRequestIDHandler (NewLogger least) opts) ds =
     \<lparr>next_handler = \<lparr>th_Level = least, th_prefix = open_prefix ds, th_attrs = stored_attrs [] ds\<rparr>,
      attributeKey = cfg_attributeKey (apply_opts opts \<lparr>cfg_attributeKey = ''x-request-id''\<rparr>)\<rparr>"
    by (simp add: derive_requestIDHandler derive_TextHandler NewRequestIDHandler_def newLogger_defs
        slog_NewTextHandler_def Let_def)
  show ?thesis
    unfolding d
    by (simp add: Logger_log_def logger_sel requestIDHandler_Enabled_def requestIDHandler_Handle_def
        TextHandler_Enabled_def TextHandler_Handle_def)
qed

text \<open>
  At the default level of every package the debug lines of the interceptors are not written, so
  request identifiers and resources do not appear on standard error unless a level asks for them.
\<close>

lemma default_level_silent:
  "level < LevelError \<Longrightarrow>
   Logger_log TextHandler_impl (rt_newLogger (fst (applyOptions []))) ctx level msg attrs stderr = stderr"
  by (simp add: Logger_log_def TextHandler_impl_sel TextHandler_Enabled_def newLogger_defs
      slog_NewTextHandler_def applyOptions_def apply_opts_def)

end
