(* ===== verification/Log_Lines.thy ===== *)
theory Log_Lines
  imports Interceptor_Chain Logging
begin

text \<open>
  The log calls of the interceptors and endpoints. For every operation that logs there is the list of
  records that one call of it passes to its logger, in order and with their levels, computed from the
  same intermediate results as the operation. An attribute that is not a string is kept as the text
  handler of \<open>log/slog\<close> prints it; \<open>%T\<close> of a protobuf message is the argument \<open>ty\<close>.
\<close>

section \<open>Records\<close>

abbreviation LevelDebug :: int where
  "LevelDebug \<equiv> - 4"

definition Debug :: "string \<Rightarrow> (string \<times> string) list \<Rightarrow> slog_record" where
  "Debug msg attrs = \<lparr>log_level = LevelDebug, log_message = msg, log_attrs = attrs\<rparr>"

definition Error :: "string \<Rightarrow> (string \<times> string) list \<Rightarrow> slog_record" where
  "Error msg attrs = \<lparr>log_level = LevelError, log_message = msg, log_attrs = attrs\<rparr>"

definition is_error :: "slog_record \<Rightarrow> bool" where
  "is_error r \<longleftrightarrow> log_level r = LevelError"

lemma is_error_simps [simp]: "is_error (Error m as)" "\<not> is_error (Debug m as)"
  by (simp_all add: is_error_def Error_def Debug_def)

text \<open>\<open>codes.Code.String\<close>, and the text of an error, which for a status error names the code.\<close>

definition code_names :: "string list" where
  "code_names = [''OK'', ''Canceled'', ''Unknown'', ''InvalidArgument'', ''DeadlineExceeded'', ''NotFound'',
     ''AlreadyExists'', ''PermissionDenied'', ''ResourceExhausted'', ''FailedPrecondition'', ''Aborted'',
     ''OutOfRange'', ''Unimplemented'', ''Internal'', ''Unavailable'', ''DataLoss'', ''Unauthenticated'']"

fun code_number :: "code \<Rightarrow> nat" where
  "code_number codes_OK = 0"
| "code_number codes_Canceled = 1"
| "code_number codes_Unknown = 2"
| "code_number codes_InvalidArgument = 3"
| "code_number codes_DeadlineExceeded = 4"
| "code_number codes_NotFound = 5"
| "code_number codes_PermissionDenied = 7"
| "code_number codes_Internal = 13"
| "code_number codes_Unavailable = 14"
| "code_number codes_Unauthenticated = 16"
| "code_number (codes_Other n) = n"

definition code_String :: "code \<Rightarrow> string" where
  "code_String c =
     (if code_number c < length code_names then code_names ! code_number c
      else ''Code('' @ fmt_nat (code_number c) @ '')'')"

definition error_text :: "go_error \<Rightarrow> string" where
  "error_text e =
     (case err_status e of
        None \<Rightarrow> err_msg e
      | Some c \<Rightarrow> ''rpc error: code = '' @ code_String c @ '' desc = '' @ err_msg e)"

section \<open>request_tracking\<close>

definition rt_lines :: "(rt_config \<Rightarrow> rt_config) list \<Rightarrow> civil \<Rightarrow> byte list \<Rightarrow> string \<Rightarrow> go_ctx \<Rightarrow> slog_record list" where
  "rt_lines opts now rnd fullMethod ctx =
     (let requestID = RequestIDFromContext ctx;
          requestID = (if requestID = [] then extractOrGenerateRequestID ctx (snd (applyOptions opts)) now rnd
                       else requestID)
      in [Debug ''request tracking'' [(''method'', fullMethod), (''request_id'', requestID)]])"

definition rt_stream_lines ::
  "(rt_config \<Rightarrow> rt_config) list \<Rightarrow> civil \<Rightarrow> byte list \<Rightarrow> string \<Rightarrow> go_ctx \<Rightarrow> slog_record list" where
  "rt_stream_lines opts now rnd fullMethod ctx =
     (let requestID = RequestIDFromContext ctx;
          requestID = (if requestID = [] then extractOrGenerateRequestID ctx (snd (applyOptions opts)) now rnd
                       else requestID)
      in [Debug ''request tracking (stream)'' [(''method'', fullMethod), (''request_id'', requestID)]])"

section \<open>protobuf_policy_option\<close>

definition lookup_lines :: "registry \<Rightarrow> string \<Rightarrow> slog_record list" where
  "lookup_lines reg fullMethodName =
     (case lookupMethodPolicy reg fullMethodName of
        (Some permission, _) \<Rightarrow>
          [Debug ''policy found'' [(''method'', fullMethodName), (''resource'', pb_Resource permission),
             (''action'', pb_Action permission)]]
      | (None, _) \<Rightarrow> [])"

definition getMethodPolicy_lines :: "registry \<Rightarrow> policy_cache \<Rightarrow> string \<Rightarrow> slog_record list" where
  "getMethodPolicy_lines reg cache fullMethodName =
     (case cache fullMethodName of Some _ \<Rightarrow> [] | None \<Rightarrow> lookup_lines reg fullMethodName)"

definition extract_lines ::
  "('m \<Rightarrow> string) \<Rightarrow> ('m, 'fd, 'v) protoreflect \<Rightarrow> 'm request \<Rightarrow> string \<Rightarrow> slog_record list" where
  "extract_lines ty pr req fieldPath =
     Debug ''extracting field from request'' [(''field'', fieldPath),
       (''type'', case req of ProtoMessage m \<Rightarrow> ty m | NonProto t \<Rightarrow> t)] #
     (case req of
        ProtoMessage m \<Rightarrow>
          (case Fields_ByName pr m fieldPath of
             None \<Rightarrow> []
           | Some fd \<Rightarrow>
               if fd_IsList pr fd \<or> fd_IsMap pr fd
               then [Error ''unsupported field type: list/map not supported'' [(''field'', fieldPath)]]
               else if fd_Kind pr fd \<in> {StringKind, BytesKind, Int32Kind, Sint32Kind, Sfixed32Kind, Int64Kind,
                 Sint64Kind, Sfixed64Kind, Uint32Kind, Uint64Kind, Fixed32Kind, Fixed64Kind, BoolKind}
               then []
               else [Error ''unsupported proto field kind''
                       [(''kind'', kind_String pr (fd_Kind pr fd)), (''field'', fieldPath)]])
      | NonProto t \<Rightarrow> [])"

fun mapping_lines ::
  "('m \<Rightarrow> string) \<Rightarrow> ('m, 'fd, 'v) protoreflect \<Rightarrow> 'm request \<Rightarrow> FieldMapping list \<Rightarrow> string \<Rightarrow> slog_record list" where
  "mapping_lines ty pr req [] resource = [Debug ''resolved resource'' [(''resource'', resource)]]"
| "mapping_lines ty pr req (field # rest) resource =
     (if Placeholder field = [] \<or> RequestField field = [] then []
      else
        let placeholder = ''<'' @ Placeholder field @ ''>''
        in if strings_Contains resource placeholder
           then extract_lines ty pr req (RequestField field) @
             (case extractFieldFromRequest pr req (RequestField field) of
                Inl err \<Rightarrow>
                  [Error ''failed to extract field'' [(''field'', RequestField field), (''error'', error_text err)]]
              | Inr v \<Rightarrow> mapping_lines ty pr req rest (strings_ReplaceAll resource placeholder v))
           else mapping_lines ty pr req rest resource)"

definition resolve_lines ::
  "('m \<Rightarrow> string) \<Rightarrow> ('m, 'fd, 'v) protoreflect \<Rightarrow> pb_Policy \<Rightarrow> 'm request \<Rightarrow> slog_record list" where
  "resolve_lines ty pr policy req =
     (if pb_Resource policy = [] \<or> pb_Action policy = [] then []
      else Debug ''resolving resource template'' [(''template'', pb_Resource policy)] #
        mapping_lines ty pr req (FieldMappings policy) (pb_Resource policy))"

definition po_lines ::
  "('m \<Rightarrow> string) \<Rightarrow> registry \<Rightarrow> ('m, 'fd, 'v) protoreflect \<Rightarrow> policy_cache \<Rightarrow> string \<Rightarrow> 'm request \<Rightarrow> slog_record list" where
  "po_lines ty reg pr cache fullMethod req =
     Debug ''processing method'' [(''method'', fullMethod)] #
     getMethodPolicy_lines reg cache fullMethod @
     (case fst (getMethodPolicy reg cache fullMethod) of
        (_, Some e) \<Rightarrow>
          [Error ''failed to get method policy'' [(''method'', fullMethod), (''error'', error_text e)]]
      | (None, None) \<Rightarrow> []
      | (Some policy, None) \<Rightarrow>
          Debug ''policy resolved'' [(''resource'', pb_Resource policy), (''action'', pb_Action policy)] #
          resolve_lines ty pr policy req)"

definition po_stream_lines :: "registry \<Rightarrow> policy_cache \<Rightarrow> string \<Rightarrow> slog_record list" where
  "po_stream_lines reg cache fullMethod =
     Debug ''processing stream method'' [(''method'', fullMethod)] #
     getMethodPolicy_lines reg cache fullMethod @
     (case fst (getMethodPolicy reg cache fullMethod) of
        (_, Some e) \<Rightarrow>
          [Error ''failed to get method policy'' [(''method'', fullMethod), (''error'', error_text e)]]
      | (None, None) \<Rightarrow> []
      | (Some policy, None) \<Rightarrow>
          if hasFieldMappings policy
          then [Error ''field_mappings are not supported for streaming RPCs'' [(''method'', fullMethod)]]
          else [Debug ''policy resolved for stream''
                  [(''resource'', pb_Resource policy), (''action'', pb_Action policy)]])"

section \<open>policy_verification\<close>

definition pv_lines ::
  "'w verifier \<Rightarrow> civil \<Rightarrow> byte list \<Rightarrow> string \<Rightarrow> go_ctx \<Rightarrow> 'w \<Rightarrow> slog_record list" where
  "pv_lines verify now rnd fullMethod ctx w =
     (let ctx = pv_enrich now rnd ctx
      in Debug ''processing method'' [(''method'', fullMethod), (''x-request-id'', RequestIDFromContext ctx)] #
        (if \<not> InterceptorRanFromContext ctx
         then [Error ''interceptor chain misconfiguration: protobuf_policy_option.Interceptor is not registered'' []]
         else case PolicyFromContext ctx of
             None \<Rightarrow> []
           | Some policyData \<Rightarrow>
               let resource = Resource policyData; action = Action policyData
               in Debug ''verifying authorization'' [(''resource'', resource), (''action'', action)] #
                 (case fst (verify ctx resource action w) of
                    Some err \<Rightarrow>
                      [Error ''authorization check failed''
                         [(''resource'', resource), (''action'', action), (''error'', error_text err)]]
                  | None \<Rightarrow>
                      [Debug ''authorization check passed'' [(''resource'', resource), (''action'', action)]])))"

definition pv_stream_lines :: "civil \<Rightarrow> byte list \<Rightarrow> string \<Rightarrow> go_ctx \<Rightarrow> slog_record list" where
  "pv_stream_lines now rnd fullMethod ctx =
     (let ctx = pv_enrich now rnd ctx
      in Debug ''processing stream method'' [(''method'', fullMethod), (''x-request-id'', RequestIDFromContext ctx)] #
        (if \<not> InterceptorRanFromContext ctx
         then [Error ''interceptor chain misconfiguration: protobuf_policy_option.StreamInterceptor is not registered'' []]
         else case PolicyFromContext ctx of
             None \<Rightarrow> []
           | Some policyData \<Rightarrow>
               [Debug ''verifying stream authorization''
                  [(''resource'', Resource policyData), (''action'', Action policyData)]]))"

definition RecvMsg_lines :: "'w verifier \<Rightarrow> go_ctx \<Rightarrow> string \<Rightarrow> string \<Rightarrow> 'w \<Rightarrow> slog_record list" where
  "RecvMsg_lines verify ctx resource action w =
     (case fst (verify ctx resource action w) of
        Some err \<Rightarrow>
          [Error ''authorization check failed on RecvMsg''
             [(''resource'', resource), (''action'', action), (''error'', error_text err)]]
      | None \<Rightarrow> [])"

section \<open>The endpoints\<close>

text \<open>
  The request identifier an endpoint logs, and what it logs of a body: at most 1024 bytes of what
  was read, nothing after a read error.
\<close>

definition logged_id :: "string \<Rightarrow> (go_ctx \<Rightarrow> string) option \<Rightarrow> go_ctx \<Rightarrow> string" where
  "logged_id key fn ctx = (case fn of Some f \<Rightarrow> if key \<noteq> [] then f ctx else [] | None \<Rightarrow> [])"

definition logged_body :: "http_response \<Rightarrow> int \<Rightarrow> string" where
  "logged_body resp limit = take 1024 (read_or_nil (Body resp) limit)"

definition read_failure :: "string \<Rightarrow> string \<Rightarrow> http_response \<Rightarrow> int \<Rightarrow> slog_record list" where
  "read_failure msg requestID resp limit =
     (case snd (read_limited (Body resp) limit) of
        Some err \<Rightarrow> [Error msg [(''error'', err), (''x-request-id'', requestID)]]
      | None \<Rightarrow> [])"

definition rest_response_lines :: "restPolicyVerifierEndpoint \<Rightarrow> string \<Rightarrow> http_response \<Rightarrow> slog_record list" where
  "rest_response_lines e requestID resp =
     read_failure ''failed to read response body'' requestID resp (rest_maxResponseBodySize e) @
     [Debug ''response received'' [(''status'', fmt_d (StatusCode resp)), (''x-request-id'', requestID)]] @
     (if StatusCode resp \<ge> 200 \<and> StatusCode resp < 300 then []
      else [Error ''error response from authorization server''
              [(''status'', fmt_d (StatusCode resp)),
               (''body'', logged_body resp (rest_maxResponseBodySize e)), (''x-request-id'', requestID)]])"

definition rest_lines ::
  "'w net \<Rightarrow> restPolicyVerifierEndpoint \<Rightarrow> go_ctx \<Rightarrow> string \<Rightarrow> string \<Rightarrow> 'w \<Rightarrow> slog_record list" where
  "rest_lines n e ctx resource action w =
     (case getToken ctx of
        Inl _ \<Rightarrow> []
      | Inr tok \<Rightarrow>
          (case http_NewRequest n (rest_verifyURL e) (rest_body resource action) of
             Inl _ \<Rightarrow> []
           | Inr req \<Rightarrow>
               (case fst (http_Do n (rest_httpClient e) ctx
                       (req\<lparr>req_header := rest_headers e ctx tok (req_header req)\<rparr>) w) of
                  Inl _ \<Rightarrow> []
                | Inr resp \<Rightarrow>
                    rest_response_lines e (logged_id (rest_requestIDHeaderKey e) (rest_requestIDFunc e) ctx) resp)))"

definition opa_response_lines :: "restOPAEndpoint \<Rightarrow> string \<Rightarrow> http_response \<Rightarrow> slog_record list" where
  "opa_response_lines e requestID resp =
     read_failure ''failed to read OPA response body'' requestID resp (opa_maxResponseBodySize e) @
     [Debug ''OPA response received'' [(''status'', fmt_d (StatusCode resp)), (''x-request-id'', requestID)]] @
     (if StatusCode resp < 200 \<or> StatusCode resp \<ge> 300
      then [Error ''error response from OPA''
              [(''status'', fmt_d (StatusCode resp)),
               (''body'', logged_body resp (opa_maxResponseBodySize e)), (''x-request-id'', requestID)]]
      else [])"

definition opa_lines :: "'w net \<Rightarrow> restOPAEndpoint \<Rightarrow> go_ctx \<Rightarrow> string \<Rightarrow> string \<Rightarrow> 'w \<Rightarrow> slog_record list" where
  "opa_lines n e ctx resource action w =
     (case getToken ctx of
        Inl _ \<Rightarrow> []
      | Inr tok \<Rightarrow>
          (case http_NewRequest n (opa_evaluateURL e)
                  (opa_Marshal \<lparr>opa_Input = \<lparr>opa_Resource = resource, opa_Action = action, opa_Token = tok_Value tok\<rparr>\<rparr>) of
             Inl _ \<Rightarrow> []
           | Inr req \<Rightarrow>
               (case fst (http_Do n (opa_httpClient e) ctx
                       (req\<lparr>req_header := opa_headers e ctx (req_header req)\<rparr>) w) of
                  Inl _ \<Rightarrow> []
                | Inr resp \<Rightarrow>
                    opa_response_lines e (logged_id (opa_requestIDHeaderKey e) (opa_requestIDFunc e) ctx) resp)))"

definition cedar_response_lines :: "restCedarAgentEndpoint \<Rightarrow> string \<Rightarrow> http_response \<Rightarrow> slog_record list" where
  "cedar_response_lines e requestID resp =
     read_failure ''failed to read Cedar agent response body'' requestID resp (cedar_maxResponseBodySize e) @
     [Debug ''Cedar agent response received'' [(''status'', fmt_d (StatusCode resp)), (''x-request-id'', requestID)]] @
     (if StatusCode resp < 200 \<or> StatusCode resp \<ge> 300
      then [Error ''error response from Cedar agent''
              [(''status'', fmt_d (StatusCode resp)),
               (''body'', logged_body resp (cedar_maxResponseBodySize e)), (''x-request-id'', requestID)]]
      else [])"

definition cedar_lines ::
  "'w net \<Rightarrow> restCedarAgentEndpoint \<Rightarrow> go_ctx \<Rightarrow> string \<Rightarrow> string \<Rightarrow> 'w \<Rightarrow> slog_record list" where
  "cedar_lines n e ctx resource action w =
     (case getToken ctx of
        Inl _ \<Rightarrow> []
      | Inr tok \<Rightarrow>
          (let reqBody = \<lparr>cedar_Principal = formatEntityUID (cedar_principalPrefix e)
                                             (cedar_principalResolver e ctx (tok_Value tok)),
                          cedar_Action = formatEntityUID (cedar_actionPrefix e) action,
                          cedar_Resource = formatEntityUID (cedar_resourcePrefix e) resource,
                          cedar_Context = []\<rparr>
           in case http_NewRequest n (cedar_authorizeURL e) (cedar_Marshal reqBody) of
             Inl _ \<Rightarrow> []
           | Inr req \<Rightarrow>
               (case fst (http_Do n (cedar_httpClient e) ctx
                       (req\<lparr>req_header := cedar_headers e ctx (req_header req)\<rparr>) w) of
                  Inl _ \<Rightarrow> []
                | Inr resp \<Rightarrow>
                    cedar_response_lines e (logged_id (cedar_requestIDHeaderKey e) (cedar_requestIDFunc e) ctx) resp)))"

section \<open>token_introspection\<close>

definition rfc_response_lines :: "rfc7662Introspector \<Rightarrow> http_response \<Rightarrow> slog_record list" where
  "rfc_response_lines i resp =
     (case read_limited (Body resp) (int64_wrap (rfc_maxResponseBodySize i + 1)) of
        (_, Some err) \<Rightarrow> []
      | (respBody, None) \<Rightarrow>
          if int (length respBody) > rfc_maxResponseBodySize i then []
          else if (StatusCode resp < 200 \<or> StatusCode resp \<ge> 300) \<and> StatusCode resp \<noteq> 401
          then [Error ''introspection endpoint error'' [(''status'', fmt_d (StatusCode resp))]]
          else [])"

definition rfc_lines :: "'w net \<Rightarrow> rfc7662Introspector \<Rightarrow> go_ctx \<Rightarrow> string \<Rightarrow> 'w \<Rightarrow> slog_record list" where
  "rfc_lines n i ctx credential w =
     (let (reqBody, contentType) = rfc_body i credential
      in case http_NewRequest n (rfc_introspectURL i) reqBody of
          Inl _ \<Rightarrow> []
        | Inr req \<Rightarrow>
            (case fst (http_Do n (rfc_httpClient i) ctx
                    (req\<lparr>req_header := rfc_headers i ctx contentType credential (req_header req)\<rparr>) w) of
               Inl _ \<Rightarrow> []
             | Inr resp \<Rightarrow> rfc_response_lines i resp))"

text \<open>
  The chain of strategies logs what each answered; a strategy that returns neither result nor error
  makes the code panic before it logs.
\<close>

fun strategy_lines :: "string \<Rightarrow> go_ctx \<Rightarrow> string \<Rightarrow> 'w Introspector list \<Rightarrow> 'w \<Rightarrow> slog_record list" where
  "strategy_lines scheme ctx credential [] w = []"
| "strategy_lines scheme ctx credential (i # is) w =
     (case Introspect i ctx credential w of
        ((None, None), w') \<Rightarrow> []
      | ((Some result, None), w') \<Rightarrow>
          [Debug ''introspection succeeded'' [(''scheme'', scheme), (''subject'', Subject result)]]
      | ((_, Some err), w') \<Rightarrow>
          (if err_status err \<noteq> Some codes_Unauthenticated
           then [Error ''introspection failed (aborting chain)'' [(''scheme'', scheme), (''error'', error_text err)]]
           else Debug ''strategy unauthenticated, trying next'' [(''scheme'', scheme)] #
             strategy_lines scheme ctx credential is w'))"

definition introspect_lines ::
  "(rune \<Rightarrow> rune) \<Rightarrow> 'w ti_config \<Rightarrow> go_ctx \<Rightarrow> 'w \<Rightarrow> slog_record list" where
  "introspect_lines ulower cfg ctx w =
     (case presented ulower cfg ctx of
        None \<Rightarrow> []
      | Some (scheme, credential) \<Rightarrow>
          (let ((found, hit), w) =
                 (case ti_cache cfg of
                    None \<Rightarrow> ((None, False), w)
                  | Some C \<Rightarrow> Cache_Get C (cacheKey scheme credential) w)
           in if hit then [Debug ''cache hit'' [(''scheme'', scheme)]]
              else strategy_lines scheme ctx credential (ti_schemes cfg scheme) w))"

section \<open>What is written\<close>

text \<open>The records of a call, passed one after the other to a logger.\<close>

definition write_lines :: "TextHandler \<Rightarrow> go_ctx \<Rightarrow> slog_record list \<Rightarrow> slog_record list \<Rightarrow> slog_record list" where
  "write_lines h ctx rs stderr =
     foldl (\<lambda>s r. Logger_log TextHandler_impl h ctx (log_level r) (log_message r) (log_attrs r) s) stderr rs"

lemma qualify_Nil [simp]: "qualify [] as = as"
  by (simp add: qualify_def)

lemma write_lines_NewLogger:
  "write_lines (NewLogger least) ctx rs stderr = stderr @ filter (\<lambda>r. least \<le> log_level r) rs"
  by (induction rs arbitrary: stderr)
    (simp_all add: write_lines_def Logger_log_def TextHandler_impl_sel TextHandler_Enabled_def
      TextHandler_Handle_def NewLogger_def slog_NewTextHandler_def not_le)

lemma error_lines:
  "list_all (\<lambda>r. log_level r = LevelDebug \<or> log_level r = LevelError) rs \<Longrightarrow>
   filter (\<lambda>r. LevelError \<le> log_level r) rs = filter is_error rs"
  by (induction rs) (auto simp: is_error_def)

lemma level_simps [simp]: "log_level (Debug m as) = LevelDebug" "log_level (Error m as) = LevelError"
  by (simp_all add: Debug_def Error_def)

section \<open>Properties\<close>

text \<open>
  C32. No refusal by verification goes unlogged. At the default level a unary call either runs the
  handler and writes nothing, or is refused without the handler and writes exactly one line, at
  level \<open>ERROR\<close>: the misconfiguration of the chain, or the resource, the action and the error with
  which the client was answered.
\<close>

theorem pv_refusals_logged:
  "\<exists>lines. write_lines (pv_newLogger LevelError) any (pv_lines verify now rnd fm ctx w) stderr = stderr @ lines \<and>
     (lines = [] \<and> (\<exists>w'. pv_unary verify now rnd ctx req handler w = handler (pv_enrich now rnd ctx) req w') \<or>
      (\<exists>e w'. pv_unary verify now rnd ctx req handler w = ((None, Some e), w') \<and>
         lines = [if InterceptorRanFromContext ctx
           then Error ''authorization check failed''
             [(''resource'', Resource (the (PolicyFromContext ctx))),
              (''action'', Action (the (PolicyFromContext ctx))), (''error'', error_text e)]
           else Error ''interceptor chain misconfiguration: protobuf_policy_option.Interceptor is not registered'' []]))"
proof -
  have s: "InterceptorRanFromContext (pv_enrich now rnd ctx) = InterceptorRanFromContext ctx"
    "PolicyFromContext (pv_enrich now rnd ctx) = PolicyFromContext ctx"
    by (simp_all add: pv_enrich_def ctx_simps Let_def)
  show ?thesis
    unfolding pv_newLogger_def write_lines_NewLogger
    by (auto simp: pv_lines_def pv_unary_def Let_def s split: option.split prod.split)
qed

text \<open>
  C33. Tokens do not reach the log of an endpoint. Take two verifications with different tokens,
  resources and actions, forwarding the same request identifier and answered alike by the network:
  each of the three HTTP endpoints writes the same lines for both.
\<close>

theorem endpoint_lines_hide_token:
  assumes "getToken ctx = Inr tok" "getToken ctx' = Inr tok'"
    and "\<And>d q q'. fst (http_Do n d ctx q w) = fst (http_Do n d ctx' q' w')"
    and "logged_id (rest_requestIDHeaderKey r) (rest_requestIDFunc r) ctx =
         logged_id (rest_requestIDHeaderKey r) (rest_requestIDFunc r) ctx'"
    and "logged_id (opa_requestIDHeaderKey p) (opa_requestIDFunc p) ctx =
         logged_id (opa_requestIDHeaderKey p) (opa_requestIDFunc p) ctx'"
    and "logged_id (cedar_requestIDHeaderKey c) (cedar_requestIDFunc c) ctx =
         logged_id (cedar_requestIDHeaderKey c) (cedar_requestIDFunc c) ctx'"
  shows "rest_lines n r ctx resource action w = rest_lines n r ctx' resource' action' w' \<and>
    opa_lines n p ctx resource action w = opa_lines n p ctx' resource' action' w' \<and>
    cedar_lines n c ctx resource action w = cedar_lines n c ctx' resource' action' w'"
proof (intro conjI)
  show "rest_lines n r ctx resource action w = rest_lines n r ctx' resource' action' w'"
    using assms(1,2,4) assms(3) [of "rest_httpClient r"]
    by (simp add: rest_lines_def http_NewRequest_def split: option.split) metis
  show "opa_lines n p ctx resource action w = opa_lines n p ctx' resource' action' w'"
    using assms(1,2,5) assms(3) [of "opa_httpClient p"]
    by (simp add: opa_lines_def http_NewRequest_def split: option.split) metis
  show "cedar_lines n c ctx resource action w = cedar_lines n c ctx' resource' action' w'"
    using assms(1,2,6) assms(3) [of "cedar_httpClient c"]
    by (simp add: cedar_lines_def http_NewRequest_def split: option.split) metis
qed

text \<open>What the strategies answer, up to the first that does not reject.\<close>

fun strategy_answers ::
  "go_ctx \<Rightarrow> string \<Rightarrow> 'w Introspector list \<Rightarrow> 'w \<Rightarrow> (IntrospectionResult option \<times> go_error option) list" where
  "strategy_answers ctx credential [] w = []"
| "strategy_answers ctx credential (i # is) w =
     (case Introspect i ctx credential w of
        ((x, Some err), w') \<Rightarrow>
          (if err_status err = Some codes_Unauthenticated
           then (x, Some err) # strategy_answers ctx credential is w' else [(x, Some err)])
      | (a, w') \<Rightarrow> [a])"

fun answer_lines :: "string \<Rightarrow> (IntrospectionResult option \<times> go_error option) list \<Rightarrow> slog_record list" where
  "answer_lines scheme [] = []"
| "answer_lines scheme ((None, None) # as) = []"
| "answer_lines scheme ((Some result, None) # as) =
     [Debug ''introspection succeeded'' [(''scheme'', scheme), (''subject'', Subject result)]]"
| "answer_lines scheme ((_, Some err) # as) =
     (if err_status err \<noteq> Some codes_Unauthenticated
      then [Error ''introspection failed (aborting chain)'' [(''scheme'', scheme), (''error'', error_text err)]]
      else Debug ''strategy unauthenticated, trying next'' [(''scheme'', scheme)] # answer_lines scheme as)"

lemma strategy_lines_answers:
  "strategy_lines scheme ctx credential is w = answer_lines scheme (strategy_answers ctx credential is w)"
  by (induction "is" arbitrary: w) (auto split: prod.split option.split)

text \<open>
  Credentials do not reach the log of introspection either: what is written depends on the scheme,
  on whether the cache had an answer, and on what the strategies answered, not on the credential.
\<close>

theorem introspection_lines_hide_credential:
  assumes "presented ulower cfg ctx = Some (scheme, credential)"
    and "presented ulower cfg ctx' = Some (scheme, credential')"
    and "lookup cfg (cacheKey scheme credential) w = ((found, hit), v)"
    and "lookup cfg (cacheKey scheme credential') w' = ((found', hit), v')"
    and "strategy_answers ctx credential (ti_schemes cfg scheme) v =
         strategy_answers ctx' credential' (ti_schemes cfg scheme) v'"
  shows "introspect_lines ulower cfg ctx w = introspect_lines ulower cfg ctx' w'"
  using assms by (simp add: introspect_lines_def strategy_lines_answers lookup_def)

text \<open>The lines that a failure of introspection leaves at the default level.\<close>

definition failure_lines :: "string \<Rightarrow> go_error option \<Rightarrow> slog_record list" where
  "failure_lines scheme err =
     (case err of
        None \<Rightarrow> []
      | Some e \<Rightarrow>
          if err_status e = Some codes_Unauthenticated then []
          else [Error ''introspection failed (aborting chain)'' [(''scheme'', scheme), (''error'', error_text e)]])"

lemma strategy_levels:
  "list_all (\<lambda>r. log_level r = LevelDebug \<or> log_level r = LevelError) (strategy_lines scheme ctx credential is w)"
  by (induction "is" arbitrary: w) (auto split: prod.split option.split)

lemma strategy_failure_lines:
  assumes "strategy_chain cache key ctx credential is lastErr w = Return ((ctx', err), w')"
    and "lastErr = None \<or> (\<exists>e. lastErr = Some e \<and> err_status e = Some codes_Unauthenticated)"
  shows "filter is_error (strategy_lines scheme ctx credential is w) = failure_lines scheme err"
  using assms
proof (induction "is" arbitrary: lastErr w)
  case Nil
  then show ?case by (auto simp: failure_lines_def)
next
  case (Cons i "is")
  obtain a b w1 where i: "Introspect i ctx credential w = ((a, b), w1)" by (metis surj_pair)
  show ?case
  proof (cases b)
    case None
    with Cons.prems i show ?thesis by (cases a) (auto simp: failure_lines_def)
  next
    case (Some e)
    with Cons.prems(1) i Cons.IH [of "Some e" w1] show ?thesis
      by (cases a; cases "err_status e = Some codes_Unauthenticated") (auto simp: failure_lines_def)
  qed
qed

text \<open>
  C34. Introspection logs exactly its own failures. At the default level a call that presents a
  credential writes one line if introspection ended with an error other than a rejection, namely the
  scheme and that error, and nothing when the credential was accepted or rejected, from the cache or
  by the strategies.
\<close>

theorem introspection_failures_logged:
  assumes "introspect ulower cfg ctx w = Return ((ctx', err), w')"
    and "presented ulower cfg ctx = Some (scheme, credential)"
  shows "write_lines (ti_newLogger LevelError) any (introspect_lines ulower cfg ctx w) stderr =
    stderr @ failure_lines scheme err"
proof -
  obtain found hit v where l: "lookup cfg (cacheKey scheme credential) w = ((found, hit), v)" by (metis surj_pair)
  have lines: "introspect_lines ulower cfg ctx w = (if hit then [Debug ''cache hit'' [(''scheme'', scheme)]]
      else strategy_lines scheme ctx credential (ti_schemes cfg scheme) v)"
    using l assms(2) by (simp add: introspect_lines_def lookup_def)
  have "filter is_error (introspect_lines ulower cfg ctx w) = failure_lines scheme err"
  proof (cases "hit \<or> ti_schemes cfg scheme = []")
    case True
    have "err = None \<or> (\<exists>e. err = Some e \<and> err_status e = Some codes_Unauthenticated)"
      using assms l True by (cases hit) (auto simp: introspect_cases)
    with True show ?thesis unfolding lines by (auto simp: failure_lines_def)
  next
    case False
    with assms l have "strategy_chain (ti_cache cfg) (cacheKey scheme credential) ctx credential
        (ti_schemes cfg scheme) None v = Return ((ctx', err), w')"
      by (simp add: introspect_cases)
    from strategy_failure_lines [OF this] False show ?thesis by (simp add: lines)
  qed
  moreover have "ti_newLogger LevelError = NewLogger LevelError" by (simp add: newLogger_defs)
  moreover have "filter (\<lambda>r. LevelError \<le> log_level r) (introspect_lines ulower cfg ctx w) =
      filter is_error (introspect_lines ulower cfg ctx w)"
    by (intro error_lines) (simp add: lines strategy_levels)
  ultimately show ?thesis by (simp add: write_lines_NewLogger)
qed

lemma extract_error_lines:
  "list_ex is_error (extract_lines ty pr req f) \<Longrightarrow> \<exists>e. extractFieldFromRequest pr req f = Inl e"
  by (auto simp: extract_lines_def extractFieldFromRequest_def Let_def split: request.splits option.splits if_splits)

lemma mapping_error_lines:
  "list_ex is_error (mapping_lines ty pr req fs resource) \<Longrightarrow> \<exists>e. resolve_mappings pr req fs resource = Inl e"
proof (induction ty pr req fs resource rule: mapping_lines.induct)
  case (2 ty pr req field rest resource)
  then show ?case
    by (auto simp: Let_def split: if_splits sum.splits dest!: extract_error_lines)
qed simp

text \<open>
  The policy interceptor reports no error for a call it lets through: whenever one of its lines is
  at level \<open>ERROR\<close>, be it from the lookup, from resolving the template or from extracting a field, the
  call ends with \<open>codes.Internal\<close> and the handler has not run.
\<close>

theorem po_error_lines_refused:
  assumes "list_ex is_error (po_lines ty reg pr cache fm req)"
  shows "\<exists>e cache'. po_Interceptor reg pr cache fm ctx req handler w = ((None, Some e), cache', w) \<and>
    err_status e = Some codes_Internal"
proof -
  obtain policy err cache' where g: "getMethodPolicy reg cache fm = ((policy, err), cache')"
    by (metis surj_pair)
  show ?thesis
  proof (cases err)
    case (Some e)
    with g show ?thesis by (simp add: po_Interceptor_def)
  next
    case None
    have "\<not> list_ex is_error (getMethodPolicy_lines reg cache fm)"
      by (auto simp: getMethodPolicy_lines_def lookup_lines_def split: option.split prod.split)
    with assms g None obtain p where p: "policy = Some p" "list_ex is_error (resolve_lines ty pr p req)"
      by (auto simp: po_lines_def split: option.splits)
    then have "\<exists>e. resolveResourceFromRequest pr p req = Inl e"
      by (auto simp: resolve_lines_def resolveResourceFromRequest_def split: if_splits dest!: mapping_error_lines)
    with g None p(1) show ?thesis by (auto simp: po_Interceptor_def Let_def)
  qed
qed

section \<open>Witnesses\<close>

theorem po_error_lines_refused_witness:
  "\<exists>e cache'. po_Interceptor [] (flat_message StringKind) Map.empty ''bad'' no_ctx (ProtoMessage [])
     (\<lambda>ctx req w. ((Some (), None), Suc w)) 0 = ((None, Some e), cache', 0) \<and> err_status e = Some codes_Internal"
proof -
  have "list_ex is_error (po_lines (\<lambda>_. []) [] (flat_message StringKind) Map.empty ''bad'' (ProtoMessage []))"
    by (simp add: po_lines_def getMethodPolicy_lines_def lookup_lines_def getMethodPolicy_def lookupMethodPolicy_def
        parseFullMethodName_def)
  from po_error_lines_refused [OF this] show ?thesis .
qed

definition busy_net :: "nat net" where
  "busy_net = \<lparr>url_literal = Inr, url_error_text = (\<lambda>u e. u),
     http_Do = (\<lambda>_ _ _ w. (Inr \<lparr>StatusCode = 503, Body = \<lparr>body_data = ''busy'', body_error = None\<rparr>\<rparr>, Suc w)),
     json_error = (\<lambda>_. [])\<rparr>"

definition other_example :: go_ctx where
  "other_example = \<lparr>ctx_values = [], ctx_incoming = Some ((\<lambda>_. [])(''authorization'' := [''Bearer u'']))\<rparr>"

lemma other_example_token: "getToken other_example = Inr \<lparr>tok_TokenType = ''Bearer'', tok_Value = ''u''\<rparr>"
proof -
  have "no_space ''u''"
    by (rule no_space_ascii) (simp add: ascii_def byte_in_def unicode_IsSpace_def)
  then show ?thesis
    using getToken_pair [of other_example _ "''Bearer''" "''u''" "[]"] no_space_Bearer
    by (simp add: other_example_def)
qed

theorem endpoint_lines_hide_token_witness:
  "\<exists>r p c. NewRESTEndpoint busy_net ''http://opa'' [] = Inr r \<and>
     NewOPAEndpoint busy_net ''http://opa'' ''authz?x'' [] = Inr p \<and>
     NewCedarAgentEndpoint busy_net ''http://opa'' [] = Inr c \<and>
     rest_lines busy_net r bearer_example ''a'' ''b'' 0 = rest_lines busy_net r other_example ''c'' ''d'' 0 \<and>
     opa_lines busy_net p bearer_example ''a'' ''b'' 0 = opa_lines busy_net p other_example ''c'' ''d'' 0 \<and>
     cedar_lines busy_net c bearer_example ''a'' ''b'' 0 = cedar_lines busy_net c other_example ''c'' ''d'' 0"
proof -
  obtain r where r: "NewRESTEndpoint busy_net ''http://opa'' [] = Inr r" "rest_requestIDFunc r = None"
    by (simp add: NewRESTEndpoint_def opa_example_text parse_base_opa rest_default_def Let_def)
  obtain p where p: "NewOPAEndpoint busy_net ''http://opa'' ''authz?x'' [] = Inr p" "opa_requestIDFunc p = None"
    by (simp add: NewOPAEndpoint_def opa_example_text parse_base_opa opa_default_def Let_def)
  obtain c where c: "NewCedarAgentEndpoint busy_net ''http://opa'' [] = Inr c" "cedar_requestIDFunc c = None"
    by (simp add: NewCedarAgentEndpoint_def opa_example_text parse_base_opa cedar_default_def Let_def)
  have "fst (http_Do busy_net d x q 0) = fst (http_Do busy_net d x' q' 0)" for d x q x' q'
    by (simp add: busy_net_def)
  from endpoint_lines_hide_token [OF bearer_example_token other_example_token this, of r p c "''a''" "''b''" "''c''" "''d''"]
  show ?thesis using r p c by (auto simp: logged_id_def)
qed

theorem introspection_lines_hide_credential_witness:
  "introspect_lines id (one_strategy accepting None) (bearer_ctx ''t'') 0 =
   introspect_lines id (one_strategy accepting None) (bearer_ctx ''a'') 0"
proof -
  have "no_space ''a''"
    by (rule no_space_ascii) (simp add: ascii_def byte_in_def unicode_IsSpace_def)
  then show ?thesis
    by (intro introspection_lines_hide_credential [OF presented_bearer presented_bearer])
      (auto simp: no_space_t lookup_def one_strategy_def accepting_result)
qed

theorem introspection_failures_logged_witness:
  "write_lines (ti_newLogger LevelError) no_ctx
     (introspect_lines id (one_strategy accepting None) (bearer_ctx ''t'') 0) [] = []"
proof -
  have "\<exists>ctx' w'. introspect id (one_strategy accepting None) (bearer_ctx ''t'') 0 = Return ((ctx', None), w')"
    by (simp add: introspect_cases presented_bearer no_space_t lookup_def)
      (simp add: one_strategy_def accepting_result)
  then show ?thesis
    using introspection_failures_logged [OF _ presented_bearer, of id accepting None "''t''" 0 _ None _ no_ctx "[]"]
    by (auto simp: no_space_t failure_lines_def)
qed

end
