(* ===== verification/Spec2Isabelle.thy ===== *)
theory Spec2Isabelle
  imports Generated_Proto Concurrent_Chain Log_Lines
begin

text \<open>
  Verification of the Go modules of the repository \<open>grpc.authz\<close>: gRPC interceptors that track requests,
  introspect credentials, resolve the policy declared for a method, and have an external or local
  endpoint verify it.

  \<^bold>\<open>The program.\<close> A server installs up to four interceptors in front of its handlers. Package
  \<open>request_tracking\<close> gives every call a request identifier; \<open>token_introspection\<close> takes the credential from
  the metadata, consults a cache and a chain of strategies, and puts the result into the context;
  \<open>protobuf_policy_option\<close> looks up the policy in the method's protobuf options, fills the resource
  template from the request and puts the pair of resource and action into the context;
  \<open>policy_verification\<close> asks a verifier endpoint about that pair before the handler runs, and on
  streams before every received message. Endpoints are local rules, a REST service, Open Policy Agent
  or a Cedar agent. The packages communicate through the context only.

  \<^bold>\<open>Theories.\<close>
  \<^item> \<open>Authz_Prelude\<close>: fact collections, panics as values, \<open>int64\<close>, functional options, list lemmas.
  \<^item> \<open>Go_Strings\<close>, \<open>Go_Encoding\<close>, \<open>Go_JSON\<close>, \<open>JSON_Decode\<close>: what the program uses of the standard library,
    executable: string functions, UTF-8, white space, number formats, hexadecimal, query escaping,
    base64, JSON writing, and JSON reading with its scanner stack, string unquoting and
    rounding of numbers. Each has the inverse lemma the components need; a written body reads back
    as the document it denotes.
  \<^item> \<open>Go_URL\<close>: \<open>net/url\<close>: escaping by part of the URL, \<open>Parse\<close> and \<open>String\<close>, and that a parsed URL with another path
    is printed so that it reads back with that path and all its other parts.
  \<^item> \<open>Go_SHA256\<close>: \<open>sha256.Sum256\<close> with the padding, schedule and rounds of FIPS 180-4, its result always 32 bytes.
  \<^item> \<open>Go_Runtime\<close>: errors with gRPC codes, instants with wall and monotonic readings, the context and its
    keys, handlers and streams, HTTP requests and responses.
  \<^item> \<open>Request_Tracking\<close>: \<open>request_tracking/generate.go\<close>, \<open>context.go\<close>, \<open>interceptor.go\<close>, \<open>handler.go\<close>.
  \<^item> \<open>Policy_Option\<close>: \<open>protobuf_policy_option/interceptor.go\<close>, with the policy cache as a memo table
    (locale \<open>memo_table\<close>) and concurrent lookups as a step relation.
  \<^item> \<open>Verifier_Endpoint\<close>: the contract of \<open>endpoint.VerifierEndpoint\<close> (locales \<open>verifier\<close>,
    \<open>authenticating_verifier\<close>, \<open>local_verifier\<close>), \<open>getToken\<close>, \<open>endpoint/static.go\<close>, \<open>endpointtest/mock.go\<close>.
  \<^item> \<open>REST_Endpoint\<close>, \<open>OPA_Endpoint\<close>, \<open>Cedar_Endpoint\<close>: the three HTTP endpoints, each an interpretation of
    the contract.
  \<^item> \<open>Policy_Verification\<close>: \<open>policy_verification/interceptor.go\<close>, its lemmas proved from the contract.
  \<^item> \<open>Introspection_Cache\<close>: \<open>token_introspection/cache.go\<close> and the contract of \<open>Cache\<close> (locale \<open>result_cache\<close>).
  \<^item> \<open>Cache_Concurrency\<close>: the same file with every operation split at its accesses to the map and the mutex,
    as step relations of any number of goroutines, the sweep goroutine included; \<open>Range\<close> is the weakest
    iteration that \<open>sync.Map\<close> documents. Loops are bounded through the locale \<open>terminating_loop\<close>.
  \<^item> \<open>RFC7662\<close>: \<open>introspector.go\<close> (locale \<open>introspector\<close>) and \<open>rfc7662.go\<close>.
  \<^item> \<open>Token_Introspection\<close>: \<open>token_introspection/interceptor.go\<close> and \<open>context.go\<close>.
  \<^item> \<open>Logging\<close>: the six \<open>logger.go\<close> files over a model of the text handler of \<open>log/slog\<close>.
  \<^item> \<open>Log_Lines\<close>: for every operation that logs, the records that one call passes to its logger.
  \<^item> \<open>Interceptor_Chain\<close>: the chains a server installs, unary and stream, of two and of four interceptors.
  \<^item> \<open>Concurrent_Chain\<close>: a server under load: any number of unary calls through the four interceptors at once,
    interleaved at every access to the introspection cache and the policy cache, with the sweep goroutine
    and the world outside. A strategy, a verification and a handler are one step of their call each.
  \<^item> \<open>Protobuf_Wire\<close>: a decoder of the protobuf wire format and the descriptor bytes of the generated code
    (\<open>protobuf_policy_option/schema/policy.pb.go\<close>, \<open>tests/e2e/proto/test_service.pb.go\<close>).
  \<^item> \<open>E2E_Service\<close>: messages, stubs, handlers and description of the generated test service
    (\<open>tests/e2e/proto/test_service_grpc.pb.go\<close>) behind the full chain.
  \<^item> \<open>Generated_Proto\<close>: type tables, initialisation, compressed descriptors and reflection methods of the two generated
    message files (locale \<open>generated_file\<close>), and the registration of the service.
  \<^item> This theory: what holds across packages.

  \<^bold>\<open>How code becomes definitions.\<close> A struct is a record, an interface a record of functions or a locale,
  an option a function on the configuration record, and an option constructor that panics a value
  of type \<open>outcome\<close>. Errors are values that carry their gRPC code and text. A call that reaches
  outside (handler, network, endpoint, cache, strategy) takes and returns a world, so order
  and number of such calls are visible; for statements about order the world is paired with
  a log. Clock readings and random bytes are arguments. Arithmetic that can overflow is written out
  at 64 bits. All loops are total functions: the recursion is structural or on the length of the
  input, so there is no fuel.

  \<^bold>\<open>What is an argument.\<close> The HTTP client, the texts of library errors, IP literals in brackets in the
  host of a URL, protobuf reflection, the descriptor registry and \<open>TypeBuilder.Build\<close>, the order in which a
  map is visited, Unicode lower casing beyond ASCII, and the conversion of floating point numbers that do not fit an \<open>int64\<close>.

  \<^bold>\<open>What is shown.\<close> Complete mediation of unary calls and streams, for each interceptor and for the chain;
  that each endpoint allows exactly when its backend says so and fails with one of three codes
  otherwise; that requests to backends carry exactly what was asked and go to the URL the constructor
  was given, with the path of the policy escaped as a path; that template resolution is a
  simultaneous substitution where it can be, and where it cannot; that the policy cache is
  transparent under concurrency; that the introspection cache is an expiring map with an exact
  bound and never serves a stale or foreign result; that under every interleaving its size stays
  within the bound plus the \<open>Set\<close> calls under way, a hit is a stored and unexpired result, a sweep
  leaves nothing expired behind, the sweep stops after cancellation and an eviction ends; that the
  step relations and the sequential definition of \<open>Set\<close> agree; that a loaded server mediates every call
  completely, never gives a call the identity or the policy of another, keeps its cache bounded and
  does not deadlock; that the generated service is protected
  as its descriptor bytes declare, its files handing the runtime tables that fit these bytes; what a
  logger writes, that every refused verification and every failed introspection is logged and that no
  token reaches the log of an endpoint or of introspection; that strategies are tried in order and
  failures are not cached; that identifiers are unique and stay the same along the chain. Some
  properties record where the code departs from what its documentation suggests: substitution of
  substituted text, hexadecimal collisions, unchecked stream policies, an overflowing size limit, cache
  keys shared across schemes, two readings of one header, and a scheme in capitals taken for a host.

  \<^bold>\<open>Bounds.\<close> There is no fuel. The step relations of the cache and of the loaded server have no bound on goroutines, calls or steps;
  the termination theorems bound the steps of one goroutine by a rank of its program point and of
  the keys ever stored.

  \<^bold>\<open>What is not modelled.\<close> Of the log lines the time, the quoting and the interleaving with lines of other
  goroutines; of the generated protobuf code the \<open>String\<close> methods, which only call the protobuf runtime;
  cancellation and deadlines of a call, which only reach the HTTP client. The
  log records of an operation are a function beside the operation and not threaded through it, since no
  code reads them back.
\<close>

section \<open>Complete mediation\<close>

text \<open>
  C1. Complete mediation across the two policy interceptors. Whatever the registry declares, the
  endpoint decides and the handler does, a unary call leaves exactly the mandated trace: nothing if the
  policy cannot be looked up or resolved, the handler alone for a method without a policy, and
  otherwise one verification of the resolved resource and declared action, followed by the handler
  if and only if it was granted. The verification sees the caller's metadata and the request
  identifier of the call.
\<close>

theorem policy_chain_mediates:
  assumes "policy_cache_ok reg cache" and "PolicyFromContext ctx = None"
  shows "\<exists>ctx2. RequestIDFromContext ctx2 \<noteq> [] \<and>
      (RequestIDFromContext ctx \<noteq> [] \<longrightarrow> RequestIDFromContext ctx2 = RequestIDFromContext ctx) \<and>
      ctx_incoming ctx2 = ctx_incoming ctx \<and>
      snd (snd (snd (policy_chain reg pr (log_verify verify) now rnd cache fm ctx req (log_handler handler) (w, [])))) =
        mandated reg pr (\<lambda>r a. fst (verify ctx2 r a w) = None) fm req"
  using policy_chain_log [OF assms, where l = "[]"] by simp

theorem policy_chain_mediates_witness:
  "snd (snd (snd (policy_chain
     (example_registry \<lparr>pb_Resource = ''posts/1'', pb_Action = ''read'', FieldMappings = []\<rparr>)
     (flat_message StringKind) (log_verify Deny) example_time (replicate 16 0) Map.empty ''/s/M'' no_ctx
     (ProtoMessage []) (log_handler (\<lambda>ctx req w. ((Some (), None), w))) ((), [])))) =
   [EvVerify ''posts/1'' ''read'' False]"
  using policy_chain_mediates [OF policy_cache_ok_empty, of no_ctx
      "example_registry \<lparr>pb_Resource = ''posts/1'', pb_Action = ''read'', FieldMappings = []\<rparr>"
      "flat_message StringKind" Deny example_time "replicate 16 0" "''/s/M''" "ProtoMessage []"
      "\<lambda>ctx req w. ((Some (), None), w)" "()"]
  by (auto simp: mandated_def lookup_example resolveResourceFromRequest_def Deny_def mock_Verify_def
      PolicyFromContext_def context_Value_def no_ctx_def)

text \<open>
  C2. Complete mediation of streams across the two interceptors: for a method with a policy, whatever
  the handler does with its stream, every message it takes off the wire comes right after a
  granted verification of the declared resource and action; a policy with field mappings, which
  a stream cannot resolve, stops the stream with \<open>codes.Internal\<close> before the handler does anything.
\<close>

theorem policy_stream_chain_mediates:
  assumes "policy_cache_ok reg cache" and "lookupMethodPolicy reg fm = (Some policy, None)"
  shows "let (reply, cache', w', trace) = policy_stream_chain reg (log_verify verify) now rnd cache fm
        (log_stream ss) (run_prog prog) (w, [])
    in policy_cache_ok reg cache' \<and>
       (if hasFieldMappings policy
        then trace = [] \<and> map_option err_status reply = Some (Some codes_Internal)
        else mediated (pb_Resource policy) (pb_Action policy) trace)"
  using assms by (rule policy_stream_chain_log)

theorem policy_stream_chain_mediates_witness:
  "let (reply, cache', w', trace) = policy_stream_chain
       (example_registry \<lparr>pb_Resource = ''feed'', pb_Action = ''watch'', FieldMappings = []\<rparr>)
       (log_verify Allow) example_time (replicate 16 0) Map.empty ''/s/M''
       (log_stream \<lparr>ss_Context = no_ctx, ss_RecvMsg = (\<lambda>w. (Inr (), w)), ss_SendMsg = (\<lambda>_ w. (None, w))\<rparr>)
       (run_prog (Receive (\<lambda>_. Finish None))) ((), [])
   in mediated ''feed'' ''watch'' trace"
  using policy_stream_chain_mediates [OF policy_cache_ok_empty lookup_example, of
      "\<lparr>pb_Resource = ''feed'', pb_Action = ''watch'', FieldMappings = []\<rparr>" Allow example_time "replicate 16 0"
      "\<lparr>ss_Context = no_ctx, ss_RecvMsg = (\<lambda>w. (Inr (), w)), ss_SendMsg = (\<lambda>_ w. (None, w))\<rparr>"
      "Receive (\<lambda>_. Finish None)" "()"]
  by (auto simp: hasFieldMappings_def Let_def split: prod.splits)

text \<open>
  C3. In the full chain of four interceptors, introspection decides before authorization: when it
  refuses, nothing is verified and the handler does not run; when it lets the call through, the
  call leaves exactly the trace its method's policy mandates, and the verifier sees the request
  identifier that request tracking chose and the metadata the client sent.
\<close>

theorem authz_chain_mediates:
  assumes "introspect ulower (ti_buildConfig ti_opts) (tracked (snd (applyOptions rt_opts)) now rnd ctx)
      (cache, w, []) = Return ((ctx1, err), (cache1, w1, []))"
    and "policy_cache_ok reg cache1" and "PolicyFromContext ctx = None"
  shows "\<exists>ctx2 reply cache2 w2.
      RequestIDFromContext ctx2 = RequestIDFromContext (tracked (snd (applyOptions rt_opts)) now rnd ctx) \<and>
      ctx_incoming ctx2 = ctx_incoming ctx \<and>
      authz_chain rt_opts ulower ti_opts reg pr (log_verify verify) now rnd fm ctx req (log_handler handler)
        (cache, w, []) =
      Return (reply, cache2, w2,
        if err \<noteq> None then [] else mandated reg pr (\<lambda>r a. fst (verify ctx2 r a w1) = None) fm req)"
  using authz_chain_log [OF assms, of pr verify fm req handler] by (simp only: append_Nil)

theorem authz_chain_mediates_witness:
  "\<exists>reply cache2 w2. authz_chain [] id []
       (example_registry \<lparr>pb_Resource = ''posts/1'', pb_Action = ''read'', FieldMappings = []\<rparr>)
       (flat_message StringKind) (log_verify Allow) example_time (replicate 16 0) ''/s/M'' no_ctx
       (ProtoMessage []) (log_handler (\<lambda>ctx req w. ((Some (), None), w))) (Map.empty, (), []) =
     Return (reply, cache2, w2, [EvVerify ''posts/1'' ''read'' True, EvHandler])"
proof -
  let ?t = "tracked (snd (applyOptions [])) example_time (replicate 16 0) no_ctx"
  have "ctx_incoming no_ctx = None" by (simp add: no_ctx_def)
  then have "introspect id (ti_buildConfig []) ?t (Map.empty, (), []) =
      Return ((?t, None), (Map.empty, (), []))"
    by (simp add: introspect_def ctx_simps)
  moreover have "PolicyFromContext no_ctx = None"
    by (simp add: PolicyFromContext_def context_Value_def no_ctx_def)
  ultimately show ?thesis
    using authz_chain_mediates [OF _ policy_cache_ok_empty, where
        reg = "example_registry \<lparr>pb_Resource = ''posts/1'', pb_Action = ''read'', FieldMappings = []\<rparr>" and
        pr = "flat_message StringKind" and verify = Allow and fm = "''/s/M''" and req = "ProtoMessage []" and
        handler = "\<lambda>ctx req w. ((Some (), None), w)"]
    by (fastforce simp: mandated_def lookup_example resolveResourceFromRequest_def Allow_def mock_Verify_def)
qed

text \<open>
  C4. The same for streams through all four interceptors: when introspection refuses, the stream ends
  with its error and not one message is received, sent or verified; when it lets the stream through,
  every message the handler takes off the wire comes right after a granted verification of what
  the method's policy declares.
\<close>

theorem authz_stream_chain_mediates:
  assumes "introspect ulower (ti_buildConfig ti_opts) (tracked (snd (applyOptions rt_opts)) now rnd (ss_Context ss))
      (cache, w, []) = Return ((ctx1, err), (cache1, w1, []))"
    and "policy_cache_ok reg cache1" and "lookupMethodPolicy reg fm = (Some policy, None)"
  shows "\<exists>reply cache2 w2 trace.
      authz_stream_chain rt_opts ulower ti_opts reg (log_verify verify) now rnd fm (log_stream ss) (run_prog prog)
        (cache, w, []) = Return (reply, cache2, w2, trace) \<and>
      (if err \<noteq> None then reply = err \<and> trace = []
       else if hasFieldMappings policy
       then trace = [] \<and> map_option err_status reply = Some (Some codes_Internal)
       else mediated (pb_Resource policy) (pb_Action policy) trace)"
  using assms by (rule authz_stream_chain_log)

theorem authz_stream_chain_mediates_witness:
  "\<exists>reply cache2 w2 trace. authz_stream_chain [] id []
       (example_registry \<lparr>pb_Resource = ''feed'', pb_Action = ''watch'', FieldMappings = []\<rparr>)
       (log_verify Allow) example_time (replicate 16 0) ''/s/M''
       (log_stream \<lparr>ss_Context = no_ctx, ss_RecvMsg = (\<lambda>w. (Inr (), w)), ss_SendMsg = (\<lambda>_ w. (None, w))\<rparr>)
       (run_prog (Receive (\<lambda>_. Finish None))) (Map.empty, (), []) = Return (reply, cache2, w2, trace) \<and>
     mediated ''feed'' ''watch'' trace"
proof -
  let ?ss = "\<lparr>ss_Context = no_ctx, ss_RecvMsg = (\<lambda>w :: unit. (Inr (), w)), ss_SendMsg = (\<lambda>_ w. (None, w))\<rparr>"
  let ?t = "tracked (snd (applyOptions [])) example_time (replicate 16 0) (ss_Context ?ss)"
  have "introspect id (ti_buildConfig []) ?t (Map.empty, (), []) = Return ((?t, None), (Map.empty, (), []))"
    by (simp add: introspect_def ctx_simps no_ctx_def)
  from authz_stream_chain_mediates [OF this policy_cache_ok_empty lookup_example, of
      "\<lparr>pb_Resource = ''feed'', pb_Action = ''watch'', FieldMappings = []\<rparr>" Allow "Receive (\<lambda>_. Finish None)"]
  show ?thesis by (simp add: hasFieldMappings_def)
qed

text \<open>
  The chain fails closed when it is put together wrongly: with the verification interceptor in
  front of the policy interceptor, or without the latter, every call and every stream ends
  with \<open>codes.Internal\<close> before anything else happens.
\<close>

theorem misordered_chain_refuses:
  assumes "\<not> InterceptorRanFromContext (ss_Context ss)"
  shows "pv_unary verify now rnd (ss_Context ss) req
       (\<lambda>ctx req w. let (r, c, w) = po_Interceptor reg pr cache fm ctx req handler w in (r, w)) w =
     ((None, Some (status_Error codes_Internal
        ''protobuf_policy_option.Interceptor is not registered in the interceptor chain'')), w) \<and>
   pv_stream verify now rnd ss stream_handler w =
     (Some (status_Error codes_Internal
        ''protobuf_policy_option.Interceptor is not registered in the interceptor chain''), w)"
  using assms by (simp add: pv_unary_def pv_stream_def Let_def ctx_simps pv_misconfigured_def)

section \<open>One credential, two readers\<close>

text \<open>
  Introspection and verification read the same metadata with different parsers. On a header
  of the form scheme, one space, token, they agree: the token that the verifier sends on is the
  credential that was introspected, and the scheme differs at most in case.
\<close>

theorem credential_agreement:
  assumes "ctx_incoming ctx = Some md" "md ''authorization'' = (t @ '' '' @ v) # vs"
    and "ti_metadataKey cfg = ''authorization''"
    and "no_space t" "list_all ascii t" "t \<noteq> []" "no_space v" "v \<noteq> []"
  shows "presented ulower cfg ctx = Some (map ascii_lower t, v) \<and>
         getToken ctx = Inr \<lparr>tok_TokenType = t, tok_Value = v\<rparr>"
  using assms presented_pair [of ctx md cfg t v vs ulower] getToken_pair [of ctx md t v vs] by simp

theorem credential_agreement_witness:
  "presented id (one_strategy accepting None) (bearer_ctx ''t'') = Some (''bearer'', ''t'') \<and>
   getToken (bearer_ctx ''t'') = Inr \<lparr>tok_TokenType = ''Bearer'', tok_Value = ''t''\<rparr>"
proof -
  have "list_all ascii ''Bearer''" by (simp add: ascii_def byte_in_def)
  moreover have "map ascii_lower ''Bearer'' = ''bearer''" by code_simp
  ultimately show ?thesis
    using credential_agreement [of "bearer_ctx ''t''" _ "''Bearer''" "''t''" "[]" "one_strategy accepting None" id]
      no_space_Bearer no_space_t
    by (simp add: bearer_ctx_def one_strategy_def)
qed

text \<open>
  On other headers they do not: of \<open>Bearer a b\<close> the introspector checks the credential \<open>a b\<close>, and
  the endpoints verify and forward the token \<open>a\<close>.
\<close>

theorem credential_disagreement:
  "presented id (one_strategy accepting None) (bearer_ctx ''a b'') = Some (''bearer'', ''a b'') \<and>
   getToken (bearer_ctx ''a b'') = Inr \<lparr>tok_TokenType = ''Bearer'', tok_Value = ''a''\<rparr>"
proof -
  have runes: "utf8_runes s = map (\<lambda>c. (of_char c, [c])) s" if "s = ''a b'' \<or> s = ''Bearer a b''" for s
    using that by (intro utf8_runes_ascii) (auto simp: ascii_def byte_in_def)
  have "strings_TrimSpace ''a b'' = ''a b''"
    by (simp add: strings_TrimSpace_def runes unicode_IsSpace_def)
  moreover have "strings_SplitN ''Bearer a b'' '' '' 2 = [''Bearer'', ''a b'']"
    using SplitN_char_split [of "CHR '' ''" "''Bearer''" "''a b''"] by simp
  moreover have "strings_ToLower id ''Bearer'' = ''bearer''"
    by (subst ToLower_ascii) (simp add: ascii_def byte_in_def, code_simp)
  moreover have "strings_Fields ''Bearer a b'' = [''Bearer'', ''a'', ''b'']"
    by (simp add: strings_Fields_def runes unicode_IsSpace_def)
  ultimately show ?thesis
    by (simp add: presented_def parseAuthorization_def getToken_def bearer_ctx_def one_strategy_def)
qed

end
